(* ===== verification/Prelude.thy ===== *)
theory Prelude
  imports Main "HOL-Library.Word" "HOL-Library.Multiset"
begin

text \<open>
  Shared vocabulary of the development: Go's machine integers, errors as values, the
  decimal printing of \<^verbatim>\<open>strconv\<close> and \<^verbatim>\<open>fmt\<close>, the bounded retry loop that three places of the
  program contain, and the generic lemmas on lists and words the components use.

  Go strings and byte slices are both byte sequences, so both are \<open>string\<close> here (a HOL
  \<open>char\<close> is one byte) and the conversion \<^verbatim>\<open>[]byte(s)\<close> is the identity.  A nil error is
  \<open>None\<close>; a pair \<^verbatim>\<open>(value, error)\<close> of which the caller uses the value only when the error is
  nil is a sum.
\<close>

section \<open>Machine integers, bytes, errors\<close>

type_synonym u64 = "64 word"
type_synonym i64 = "64 word"
type_synonym i32 = "32 word"
type_synonym bytes = string

text \<open>A float64 that the code only copies: its IEEE 754 bit pattern.\<close>

type_synonym float64 = "64 word"

datatype go_error =
    Canceled
  | DeadlineExceeded
  | ErrorText string
  | Wrapped string go_error

text \<open>The \<^verbatim>\<open>Error()\<close> method: what the dead-letter header carries.\<close>

fun Error :: "go_error \<Rightarrow> string" where
  "Error Canceled = ''context canceled''"
| "Error DeadlineExceeded = ''context deadline exceeded''"
| "Error (ErrorText t) = t"
| "Error (Wrapped t e) = t @ Error e"

named_theorems keeps_rules \<open>an operation keeps an invariant or an earlier fact\<close>
named_theorems counter_simps \<open>arithmetic of the 64-bit counters\<close>

section \<open>Counters\<close>

lemma unat_of_nat_u64 [counter_simps]:
  "n < 2 ^ 64 \<Longrightarrow> unat (of_nat n :: u64) = n"
  by (simp add: unat_of_nat take_bit_nat_eq_self)

lemma unat_add_no_wrap [counter_simps]:
  assumes "unat (a :: u64) + unat b < 2 ^ 64"
  shows "unat (a + b) = unat a + unat b"
  using assms by (simp add: unat_word_ariths)

section \<open>Lists\<close>

lemma fold_invariant:
  assumes "I s" and "\<And>x s. x \<in> set xs \<Longrightarrow> I s \<Longrightarrow> I (f x s)"
  shows "I (fold f xs s)"
  using assms by (induction xs arbitrary: s) auto

lemma fold_mono_fact:
  assumes "\<And>x s. P s \<Longrightarrow> P (f x s)" and "P s"
  shows "P (fold f xs s)"
  using assms by (induction xs arbitrary: s) auto

lemma fold_establishes:
  assumes "x \<in> set xs"
    and "\<And>s. P x (f x s)"
    and "\<And>y s. P x s \<Longrightarrow> P x (f y s)"
  shows "P x (fold f xs s)"
  using assms(1)
proof (induction xs arbitrary: s)
  case Nil
  then show ?case by simp
next
  case (Cons y ys)
  show ?case
  proof (cases "x \<in> set ys")
    case True
    then show ?thesis by (simp add: Cons.IH)
  next
    case False
    with Cons.prems have "x = y" by simp
    moreover have "P y (fold f ys (f y s))"
      using assms(2,3) \<open>x = y\<close> by (intro fold_mono_fact [where P = "P y"]) auto
    ultimately show ?thesis by simp
  qed
qed

text \<open>Changing one entry of a list changes a sum over it by that entry.\<close>

lemma sum_list_update_add:
  fixes f :: "'a \<Rightarrow> 'b :: cancel_comm_monoid_add"
  assumes "i < length xs"
  shows "sum_list (map f (xs[i := y])) + f (xs ! i) = sum_list (map f xs) + f y"
  using assms
proof (induction xs arbitrary: i)
  case (Cons x xs)
  show ?case
  proof (cases i)
    case (Suc j)
    with Cons.IH [of j] Cons.prems show ?thesis by (simp add: add.assoc)
  qed (simp add: add.commute add.left_commute)
qed simp

lemma in_set_take_iff:
  "x \<in> set (take i xs) \<longleftrightarrow> (\<exists>j < i. j < length xs \<and> xs ! j = x)"
  by (auto simp: in_set_conv_nth)


section \<open>Decimal printing and reading\<close>

text \<open>
  \<open>dec_of_nat\<close> and \<open>dec_of_int\<close> are the base-10 output of \<^verbatim>\<open>strconv.Itoa\<close>,
  \<^verbatim>\<open>strconv.FormatInt(_, 10)\<close> and the verb \<^verbatim>\<open>%d\<close>; \<open>nat_of_dec\<close> reads a digit string back.
\<close>

definition digit :: "nat \<Rightarrow> char" where
  "digit d = char_of (48 + d)"

definition is_digit :: "char \<Rightarrow> bool" where
  "is_digit c \<longleftrightarrow> 48 \<le> (of_char c :: nat) \<and> (of_char c :: nat) \<le> 57"

fun dec_of_nat :: "nat \<Rightarrow> string" where
  "dec_of_nat n = (if n < 10 then [digit n] else dec_of_nat (n div 10) @ [digit (n mod 10)])"

declare dec_of_nat.simps [simp del]

definition dec_of_int :: "int \<Rightarrow> string" where
  "dec_of_int i = (if i < 0 then CHR ''-'' # dec_of_nat (nat (- i)) else dec_of_nat (nat i))"

definition nat_of_dec :: "string \<Rightarrow> nat" where
  "nat_of_dec s = foldl (\<lambda>a c. 10 * a + (of_char c - 48)) 0 s"

lemma of_char_digit [simp]: "d < 10 \<Longrightarrow> (of_char (digit d) :: nat) = 48 + d"
  by (simp add: digit_def)

lemma is_digit_digit [simp]: "d < 10 \<Longrightarrow> is_digit (digit d)"
  by (simp add: is_digit_def)

lemma dash_not_digit [simp]: "\<not> is_digit (CHR ''-'')"
  by (simp add: is_digit_def)

lemma dec_of_nat_digits: "c \<in> set (dec_of_nat n) \<Longrightarrow> is_digit c"
proof (induction n rule: dec_of_nat.induct)
  case (1 n)
  then show ?case by (subst (asm) dec_of_nat.simps) (auto split: if_splits)
qed

lemma dec_of_nat_not_Nil [simp]: "dec_of_nat n \<noteq> []"
  by (subst dec_of_nat.simps) simp

lemma nat_of_dec_snoc [simp]: "nat_of_dec (s @ [c]) = 10 * nat_of_dec s + (of_char c - 48)"
  by (simp add: nat_of_dec_def)

lemma length_dec_of_nat: "n < 10 ^ k \<Longrightarrow> 0 < k \<Longrightarrow> length (dec_of_nat n) \<le> k"
proof (induction k arbitrary: n)
  case (Suc k)
  show ?case
  proof (cases "n < 10")
    case True
    then show ?thesis by (subst dec_of_nat.simps) simp
  next
    case False
    then have "0 < k" using Suc.prems by (cases k) auto
    moreover have "n div 10 < 10 ^ k" using Suc.prems by (simp add: less_mult_imp_div_less mult.commute)
    ultimately show ?thesis using Suc.IH [of "n div 10"] False by (subst dec_of_nat.simps) simp
  qed
qed simp

lemma nat_of_dec_of_nat [simp]: "nat_of_dec (dec_of_nat n) = n"
proof (induction n rule: dec_of_nat.induct)
  case (1 n)
  show ?case
  proof (cases "n < 10")
    case True
    then show ?thesis by (simp add: dec_of_nat.simps [of n] nat_of_dec_def)
  next
    case False
    with 1 show ?thesis by (simp add: dec_of_nat.simps [of n])
  qed
qed

lemma dec_of_nat_inject [simp]: "dec_of_nat m = dec_of_nat n \<longleftrightarrow> m = n"
  by (metis nat_of_dec_of_nat)

lemma dash_notin_dec_of_nat [simp]: "CHR ''-'' \<notin> set (dec_of_nat n)"
  using dec_of_nat_digits dash_not_digit by blast

lemma dec_of_int_inject [simp]: "dec_of_int i = dec_of_int j \<longleftrightarrow> i = j"
proof -
  have neq: "CHR ''-'' # s \<noteq> dec_of_nat n" for s n
    by (metis dash_notin_dec_of_nat list.set_intros(1))
  show ?thesis
    using neq by (auto simp: dec_of_int_def neq [symmetric] nat_eq_iff split: if_splits)
qed

text \<open>
  Two printed parts joined by a separator that is not a digit determine the parts: what makes
  the keys the load generators print distinct.
\<close>

lemma split_at_separator:
  assumes "xs @ c # ys = xs' @ c # ys'" and "c \<notin> set xs" and "c \<notin> set xs'"
  shows "xs = xs' \<and> ys = ys'"
  using assms
proof (induction xs arbitrary: xs')
  case Nil
  then show ?case by (cases xs') auto
next
  case (Cons x xs)
  then show ?case by (cases xs') auto
qed

lemma dec_pair_inject:
  assumes "dec_of_nat a @ CHR ''-'' # dec_of_nat b = dec_of_nat a' @ CHR ''-'' # dec_of_nat b'"
  shows "a = a' \<and> b = b'"
  using split_at_separator [OF assms] by simp

section \<open>Splitting\<close>

text \<open>\<^verbatim>\<open>strings.Split\<close> at a one-character separator: always at least one piece.\<close>

fun split_on :: "char \<Rightarrow> string \<Rightarrow> string list" where
  "split_on c [] = [[]]"
| "split_on c (x # xs) =
     (if x = c then [] # split_on c xs
      else case split_on c xs of [] \<Rightarrow> [[x]] | w # ws \<Rightarrow> (x # w) # ws)"

section \<open>The bounded retry loop\<close>

text \<open>
  The program contains three times the loop
  \<^verbatim>\<open>for attempt := 0; attempt <= maxRetries; attempt++ { err = op(); if err == nil { break } }\<close>
  (\<^verbatim>\<open>Consumer.persist\<close>, and \<^verbatim>\<open>TimescaleSink.Flush\<close> for the batch and for each row).
  \<open>retry_loop n\<close> runs at most \<open>n\<close> attempts.  The result says whether some attempt succeeded
  (\<open>Done\<close>, the source's \<^verbatim>\<open>break\<close> or \<^verbatim>\<open>return nil\<close>) or the loop ran out, with the value the
  error variable then holds: nil when no attempt was made at all.
\<close>

datatype outcome = Done | Exhausted "go_error option"

fun retry_loop ::
  "nat \<Rightarrow> ('s \<Rightarrow> 's \<times> go_error option) \<Rightarrow> 's \<Rightarrow> go_error option \<Rightarrow> 's \<times> outcome" where
  "retry_loop 0 op s err = (s, Exhausted err)"
| "retry_loop (Suc n) op s err =
     (case op s of
        (s', None) \<Rightarrow> (s', Done)
      | (s', Some e) \<Rightarrow> retry_loop n op s' (Some e))"

text \<open>\<^verbatim>\<open>attempt <= maxRetries\<close> from 0: \<open>maxRetries + 1\<close> attempts, none for a negative bound.\<close>

definition retry :: "int \<Rightarrow> ('s \<Rightarrow> 's \<times> go_error option) \<Rightarrow> 's \<Rightarrow> 's \<times> outcome" where
  "retry maxRetries op s = retry_loop (nat (maxRetries + 1)) op s None"

text \<open>The error variable after the loop.\<close>

fun outcome_err :: "outcome \<Rightarrow> go_error option" where
  "outcome_err Done = None"
| "outcome_err (Exhausted err) = err"

lemma retry_loop_inv:
  assumes "I s" and "\<And>s. I s \<Longrightarrow> I (fst (op s))"
  shows "I (fst (retry_loop n op s err))"
  using assms(1)
proof (induction n arbitrary: s err)
  case 0
  then show ?case by simp
next
  case (Suc n)
  from assms(2) [OF Suc.prems] show ?case
    by (auto split: prod.split option.split intro: Suc.IH)
qed

lemma retry_loop_done:
  assumes "retry_loop n op s err = (s', Done)"
    and "\<And>s s'. op s = (s', None) \<Longrightarrow> Q s'"
  shows "Q s'"
  using assms(1)
  by (induction n arbitrary: s err) (auto split: prod.splits option.splits dest: assms(2))

lemma retry_loop_exhausted:
  assumes "retry_loop n op s err = (s', Exhausted err')"
  shows "(n = 0 \<and> s' = s \<and> err' = err) \<or> (0 < n \<and> err' \<noteq> None)"
  using assms
  by (induction n arbitrary: s err) (auto split: prod.splits option.splits)

lemma retry_inv:
  "I s \<Longrightarrow> (\<And>s. I s \<Longrightarrow> I (fst (op s))) \<Longrightarrow> I (fst (retry m op s))"
  unfolding retry_def by (rule retry_loop_inv)

lemma retry_done:
  "retry m op s = (s', Done) \<Longrightarrow> (\<And>s s'. op s = (s', None) \<Longrightarrow> Q s') \<Longrightarrow> Q s'"
  unfolding retry_def by (rule retry_loop_done)

lemma retry_err_iff:
  assumes "retry m op s = (s', out)" and "0 \<le> m"
  shows "outcome_err out = None \<longleftrightarrow> out = Done"
proof (cases out)
  case (Exhausted err)
  with assms(1) have "retry_loop (nat (m + 1)) op s None = (s', Exhausted err)"
    by (simp add: retry_def)
  from retry_loop_exhausted [OF this] Exhausted assms(2) show ?thesis by auto
qed simp

lemma retry_negative: "m < 0 \<Longrightarrow> retry m op s = (s, Exhausted None)"
  by (simp add: retry_def)

text \<open>How often the loop calls its operation, as the growth of any cost one call adds one to.\<close>

lemma retry_loop_cost:
  assumes "\<And>s. cost (fst (op s)) \<le> cost s + (1 :: nat)"
  shows "cost (fst (retry_loop n op s err)) \<le> cost s + n"
proof (induction n arbitrary: s err)
  case (Suc n)
  obtain s1 r where o: "op s = (s1, r)" by fastforce
  with assms [of s] have "cost s1 \<le> cost s + 1" by simp
  with Suc.IH [of s1 r] o show ?case by (cases r) auto
qed simp

lemma retry_cost:
  assumes "\<And>s. cost (fst (op s)) \<le> cost s + (1 :: nat)"
  shows "cost (fst (retry m op s)) \<le> cost s + nat (m + 1)"
  unfolding retry_def by (rule retry_loop_cost) (rule assms)

text \<open>An operation that always fails with the same error, and one that always succeeds.\<close>

lemma retry_always_fails:
  assumes "\<And>s. snd (op s) = Some e" and "0 \<le> m"
  shows "snd (retry m op s) = Exhausted (Some e)"
proof -
  have "snd (retry_loop (Suc n) op s err) = Exhausted (Some e)" for n s err
  proof (induction n arbitrary: s err)
    case 0
    with assms(1) [of s] show ?case by (cases "op s") simp
  next
    case (Suc n)
    obtain s1 r where o: "op s = (s1, r)" by fastforce
    with assms(1) [of s] have "r = Some e" by simp
    with Suc.IH [of s1 "Some e"] o show ?case by simp
  qed
  moreover from assms(2) obtain n where "nat (m + 1) = Suc n" by (cases "nat (m + 1)") auto
  ultimately show ?thesis by (simp add: retry_def del: retry_loop.simps)
qed

lemma retry_always_succeeds:
  assumes "\<And>s. snd (op s) = None" and "0 \<le> m"
  shows "retry m op s = (fst (op s), Done)"
proof -
  from assms(2) obtain n where "nat (m + 1) = Suc n" by (cases "nat (m + 1)") auto
  with assms(1) [of s] show ?thesis by (cases "op s") (simp add: retry_def)
qed

end
