(* ===== verification/Wire.thy ===== *)
theory Wire
  imports Prelude
begin

text \<open>
  The data that crosses process boundaries: the protobuf messages of
  \<^verbatim>\<open>gen/sluice/v1/telemetry.pb.go\<close> with their nil-safe getters, the event struct of
  \<^verbatim>\<open>internal/sink/sink.go\<close>, the Kafka record, and the two conversions between event and
  message.  The protobuf runtime (\<^verbatim>\<open>proto.Marshal\<close>, \<^verbatim>\<open>proto.Unmarshal\<close>) is outside the
  repository: it is a pair of parameters, and \<open>codec_roundtrip\<close> is what the pipeline relies on.
\<close>

section \<open>Messages\<close>

record TelemetryEvent =
  pb_DeviceId :: string
  pb_IdempotencyKey :: string
  pb_EventTimeUnixNanos :: i64
  pb_Metric :: string
  pb_Value :: float64

text \<open>A message is used through a pointer that may be nil; the getters return zero values then.\<close>

definition GetDeviceId :: "TelemetryEvent option \<Rightarrow> string" where
  "GetDeviceId x = (case x of Some m \<Rightarrow> pb_DeviceId m | None \<Rightarrow> '''')"

definition GetIdempotencyKey :: "TelemetryEvent option \<Rightarrow> string" where
  "GetIdempotencyKey x = (case x of Some m \<Rightarrow> pb_IdempotencyKey m | None \<Rightarrow> '''')"

definition GetEventTimeUnixNanos :: "TelemetryEvent option \<Rightarrow> i64" where
  "GetEventTimeUnixNanos x = (case x of Some m \<Rightarrow> pb_EventTimeUnixNanos m | None \<Rightarrow> 0)"

definition GetMetric :: "TelemetryEvent option \<Rightarrow> string" where
  "GetMetric x = (case x of Some m \<Rightarrow> pb_Metric m | None \<Rightarrow> '''')"

definition GetValue :: "TelemetryEvent option \<Rightarrow> float64" where
  "GetValue x = (case x of Some m \<Rightarrow> pb_Value m | None \<Rightarrow> 0)"

record IngestRequest =
  Events :: "TelemetryEvent option list"

definition GetEvents :: "IngestRequest option \<Rightarrow> TelemetryEvent option list" where
  "GetEvents x = (case x of Some m \<Rightarrow> Events m | None \<Rightarrow> [])"

record IngestResponse =
  Accepted :: u64
  Rejected :: u64

definition GetAccepted :: "IngestResponse option \<Rightarrow> u64" where
  "GetAccepted x = (case x of Some m \<Rightarrow> Accepted m | None \<Rightarrow> 0)"

definition GetRejected :: "IngestResponse option \<Rightarrow> u64" where
  "GetRejected x = (case x of Some m \<Rightarrow> Rejected m | None \<Rightarrow> 0)"

section \<open>Events and Kafka records\<close>

record Event =
  DeviceID :: string
  IdempotencyKey :: string
  EventTimeUnixNanos :: i64
  Metric :: string
  Value :: float64

record PoisonedEvent =
  PoisonEvent :: Event
  PoisonErr :: go_error

text \<open>
  The fields of \<^verbatim>\<open>kgo.Record\<close> the program reads or writes.  Partition and offset are set by the
  broker on a fetched record and are left zero on a produced one.
\<close>

record Record =
  Topic :: string
  Partition :: i32
  Offset :: i64
  Key :: bytes
  RecValue :: bytes
  Headers :: "(string \<times> bytes) list"

section \<open>Conversions\<close>

text \<open>
  The struct literal in \<^verbatim>\<open>KafkaSink.Write\<close> and in \<^verbatim>\<open>marshalEvent\<close>, and the one in
  \<^verbatim>\<open>DecodeRecord\<close> and in \<^verbatim>\<open>Server.Push\<close>.
\<close>

definition telemetry_of_event :: "Event \<Rightarrow> TelemetryEvent" where
  "telemetry_of_event e =
     \<lparr>pb_DeviceId = DeviceID e,
      pb_IdempotencyKey = IdempotencyKey e,
      pb_EventTimeUnixNanos = EventTimeUnixNanos e,
      pb_Metric = Metric e,
      pb_Value = Value e\<rparr>"

definition event_of_telemetry :: "TelemetryEvent option \<Rightarrow> Event" where
  "event_of_telemetry ev =
     \<lparr>DeviceID = GetDeviceId ev,
      IdempotencyKey = GetIdempotencyKey ev,
      EventTimeUnixNanos = GetEventTimeUnixNanos ev,
      Metric = GetMetric ev,
      Value = GetValue ev\<rparr>"

lemmas getter_defs =
  GetDeviceId_def GetIdempotencyKey_def GetEventTimeUnixNanos_def GetMetric_def GetValue_def

lemma event_of_telemetry_of_event [simp]:
  "event_of_telemetry (Some (telemetry_of_event e)) = e"
  by (simp add: event_of_telemetry_def telemetry_of_event_def getter_defs)

lemma telemetry_of_event_of_telemetry [simp]:
  "telemetry_of_event (event_of_telemetry (Some m)) = m"
  by (simp add: event_of_telemetry_def telemetry_of_event_def getter_defs)

section \<open>The protobuf runtime as a parameter\<close>

type_synonym marshal = "TelemetryEvent \<Rightarrow> go_error + bytes"
type_synonym unmarshal = "bytes \<Rightarrow> go_error + TelemetryEvent"

text \<open>
  Documented behaviour of the runtime: what \<^verbatim>\<open>Marshal\<close> produced, \<^verbatim>\<open>Unmarshal\<close> reads back as the
  same message; and a message that \<^verbatim>\<open>Unmarshal\<close> returned can be marshalled again.
\<close>

definition codec_roundtrip :: "marshal \<Rightarrow> unmarshal \<Rightarrow> bool" where
  "codec_roundtrip marshal unmarshal \<longleftrightarrow>
     (\<forall>m b. marshal m = Inr b \<longrightarrow> unmarshal b = Inr m)"

definition codec_total_on_decoded :: "marshal \<Rightarrow> unmarshal \<Rightarrow> bool" where
  "codec_total_on_decoded marshal unmarshal \<longleftrightarrow>
     (\<forall>b m. unmarshal b = Inr m \<longrightarrow> (\<exists>b'. marshal m = Inr b'))"

section \<open>DecodeRecord\<close>

text \<open>\<^verbatim>\<open>internal/consumer\<close>: the value of a record to an event, or the unmarshal error.\<close>

definition DecodeRecord :: "unmarshal \<Rightarrow> bytes \<Rightarrow> go_error + Event" where
  "DecodeRecord unmarshal value =
     (case unmarshal value of
        Inl err \<Rightarrow> Inl err
      | Inr ev \<Rightarrow> Inr (event_of_telemetry (Some ev)))"

text \<open>\<^verbatim>\<open>marshalEvent\<close>: a marshalling error becomes a nil (empty) value.\<close>

definition marshalEvent :: "marshal \<Rightarrow> Event \<Rightarrow> bytes" where
  "marshalEvent marshal e =
     (case marshal (telemetry_of_event e) of
        Inl err \<Rightarrow> []
      | Inr raw \<Rightarrow> raw)"

lemma DecodeRecord_marshal:
  assumes "codec_roundtrip marshal unmarshal" and "marshal (telemetry_of_event e) = Inr b"
  shows "DecodeRecord unmarshal b = Inr e"
  using assms by (simp add: DecodeRecord_def codec_roundtrip_def)

text \<open>
  Re-marshalling a decoded event, as the dead-letter path of a poisoned row does, loses nothing:
  the new bytes decode to the event they came from.
\<close>

lemma DecodeRecord_remarshal:
  assumes "codec_roundtrip marshal unmarshal" and "codec_total_on_decoded marshal unmarshal"
    and "DecodeRecord unmarshal b = Inr e"
  shows "DecodeRecord unmarshal (marshalEvent marshal e) = Inr e"
proof -
  from assms(3) obtain m where m: "unmarshal b = Inr m" and e: "e = event_of_telemetry (Some m)"
    by (auto simp: DecodeRecord_def split: sum.splits)
  from m assms(2) obtain b' where b': "marshal m = Inr b'"
    by (auto simp: codec_total_on_decoded_def)
  then have "marshalEvent marshal e = b'" by (simp add: marshalEvent_def e)
  with DecodeRecord_marshal [OF assms(1)] b' e show ?thesis by simp
qed

end
