(* ===== verification/Sink.thy ===== *)
theory Sink
  imports Wire
begin

text \<open>
  \<^verbatim>\<open>internal/sink\<close>: the one-method interface every sink implements, the two optional
  interfaces the consumer asks for by type assertion, and the sinks without a buffer,
  \<^verbatim>\<open>MemorySink\<close> and \<^verbatim>\<open>KafkaSink\<close>.  The contracts the clients rely on are the locales \<open>sink\<close>
  and \<open>poison_sink\<close>.
\<close>

section \<open>The interfaces\<close>

text \<open>
  The method table of a sink value of state type \<open>'s\<close>.  \<open>Write\<close> is the interface \<^verbatim>\<open>Sink\<close>;
  \<open>Flush\<close> and \<open>DrainPoisoned\<close> are \<open>None\<close> when the type assertion to \<^verbatim>\<open>Flusher\<close> or
  \<^verbatim>\<open>PoisonReporter\<close> fails.
\<close>

record 's sink_ops =
  Write :: "'s \<Rightarrow> Event \<Rightarrow> 's \<times> go_error option"
  Flush :: "('s \<Rightarrow> 's \<times> go_error option) option"
  DrainPoisoned :: "('s \<Rightarrow> 's \<times> PoisonedEvent list) option"

text \<open>
  What a client of \<^verbatim>\<open>Write\<close> may rely on: an event whose write returned nil is accounted for, and
  nothing accounted for is forgotten by a later write, failed or not.
\<close>

locale sink =
  fixes put :: "'s \<Rightarrow> Event \<Rightarrow> 's \<times> go_error option"
    and accounted :: "'s \<Rightarrow> Event \<Rightarrow> bool"
    and invar :: "'s \<Rightarrow> bool"
  assumes write_accounts: "invar s \<Longrightarrow> put s e = (s', None) \<Longrightarrow> accounted s' e"
    and write_keeps: "invar s \<Longrightarrow> accounted s x \<Longrightarrow> accounted (fst (put s e)) x"
    and invar_write: "invar s \<Longrightarrow> invar (fst (put s e))"
begin

text \<open>The retry loop around a write, as \<^verbatim>\<open>Consumer.persist\<close> runs it.\<close>

lemma retry_write_invar: "invar s \<Longrightarrow> invar (fst (retry m (\<lambda>s. put s e) s))"
  by (rule retry_inv) (auto intro: invar_write)

lemma retry_write_keeps:
  assumes "invar s" and "accounted s x"
  shows "accounted (fst (retry m (\<lambda>s. put s e) s)) x"
proof -
  have "invar (fst (retry m (\<lambda>s. put s e) s)) \<and> accounted (fst (retry m (\<lambda>s. put s e) s)) x"
    using assms by (intro retry_inv [where I = "\<lambda>s. invar s \<and> accounted s x"])
      (auto intro: invar_write write_keeps)
  then show ?thesis ..
qed

lemma retry_loop_write_accounts:
  assumes "invar s" and "retry_loop n (\<lambda>s. put s e) s err = (s', Done)"
  shows "accounted s' e"
  using assms
proof (induction n arbitrary: s err)
  case 0
  then show ?case by simp
next
  case (Suc n)
  obtain s1 r where w: "put s e = (s1, r)" by (cases "put s e")
  show ?case
  proof (cases r)
    case None
    with Suc.prems w show ?thesis by (auto intro: write_accounts)
  next
    case (Some x)
    from invar_write [OF Suc.prems(1), of e] w have "invar s1" by simp
    with Suc.IH Suc.prems(2) w Some show ?thesis by simp
  qed
qed

lemma retry_write_accounts:
  assumes "invar s" and "0 \<le> m" and "retry m (\<lambda>s. put s e) s = (s', out)"
    and "outcome_err out = None"
  shows "accounted s' e"
proof -
  from retry_err_iff [OF assms(3,2)] assms(4) have "out = Done" by simp
  with assms(1,3) show ?thesis
    unfolding retry_def by (auto intro: retry_loop_write_accounts)
qed

text \<open>A run of writes that all returned nil accounts for every event of the run.\<close>

lemma writes_account:
  assumes "invar s" and "\<And>s e. invar s \<Longrightarrow> snd (put s e) = None"
  shows "invar (fold (\<lambda>e s. fst (put s e)) es s) \<and>
    (\<forall>x. accounted s x \<or> x \<in> set es \<longrightarrow> accounted (fold (\<lambda>e s. fst (put s e)) es s) x)"
  using assms(1)
proof (induction es arbitrary: s)
  case Nil
  then show ?case by simp
next
  case (Cons e es)
  have "accounted (fst (put s e)) e"
    using assms(2) [OF Cons.prems, of e] write_accounts [OF Cons.prems]
    by (metis prod.collapse)
  with Cons.IH [OF invar_write [OF Cons.prems, of e]] write_keeps [OF Cons.prems]
  show ?case by auto
qed

end

text \<open>
  The buffered sink of the consumer: it implements both optional interfaces.  Accounted for
  means stored, still pending in the buffer, or set aside as poisoned.  A flush leaves nothing
  pending; a drain hands out exactly what was set aside; stored is for ever.
\<close>

locale poison_sink = sink put accounted invar
  for put :: "'s \<Rightarrow> Event \<Rightarrow> 's \<times> go_error option"
    and accounted :: "'s \<Rightarrow> Event \<Rightarrow> bool"
    and invar :: "'s \<Rightarrow> bool" +
  fixes flush :: "'s \<Rightarrow> 's \<times> go_error option"
    and drain :: "'s \<Rightarrow> 's \<times> PoisonedEvent list"
    and stored :: "'s \<Rightarrow> Event \<Rightarrow> bool"
    and pending :: "'s \<Rightarrow> Event list"
    and poisoned :: "'s \<Rightarrow> PoisonedEvent list"
  assumes accounted_iff:
      "accounted s x \<longleftrightarrow> stored s x \<or> x \<in> set (pending s) \<or> x \<in> PoisonEvent ` set (poisoned s)"
    and write_nil: "invar s \<Longrightarrow> snd (put s e) = None"
    and stored_write: "invar s \<Longrightarrow> stored s x \<Longrightarrow> stored (fst (put s e)) x"
    and flush_nil: "snd (flush s) = None"
    and flush_keeps: "invar s \<Longrightarrow> accounted s x \<Longrightarrow> accounted (fst (flush s)) x"
    and flush_empties: "invar s \<Longrightarrow> pending (fst (flush s)) = []"
    and stored_flush: "invar s \<Longrightarrow> stored s x \<Longrightarrow> stored (fst (flush s)) x"
    and invar_flush: "invar s \<Longrightarrow> invar (fst (flush s))"
    and drain_returns: "snd (drain s) = poisoned s"
    and drain_clears: "poisoned (fst (drain s)) = []"
    and drain_stored: "stored (fst (drain s)) = stored s"
    and drain_pending: "pending (fst (drain s)) = pending s"
    and invar_drain: "invar s \<Longrightarrow> invar (fst (drain s))"
begin

lemma after_flush_settled:
  assumes "invar s" and "accounted s x"
  shows "stored (fst (flush s)) x \<or> x \<in> PoisonEvent ` set (poisoned (fst (flush s)))"
  using flush_keeps [OF assms] flush_empties [OF assms(1)] by (simp add: accounted_iff)

text \<open>
  The consumer's round on the sink: write a batch, flush, drain.  Every event of the batch ends
  up stored or among the drained ones.
\<close>

lemma write_flush_drain:
  assumes "invar s" and "x \<in> set es"
  defines "s1 \<equiv> fold (\<lambda>e s. fst (put s e)) es s"
  shows "stored (fst (drain (fst (flush s1)))) x \<or>
    x \<in> PoisonEvent ` set (snd (drain (fst (flush s1))))"
proof -
  have "invar s1 \<and> accounted s1 x"
    unfolding s1_def using writes_account [of s es] assms(1,2) write_nil by auto
  then show ?thesis
    using after_flush_settled [of s1 x] by (simp add: drain_returns drain_stored)
qed

end

section \<open>MemorySink\<close>

record MemorySink =
  accepted :: u64

definition NewMemorySink :: MemorySink where
  "NewMemorySink = \<lparr>accepted = 0\<rparr>"

definition MemorySink_Write :: "MemorySink \<Rightarrow> Event \<Rightarrow> MemorySink \<times> go_error option" where
  "MemorySink_Write s _ = (s\<lparr>accepted := accepted s + 1\<rparr>, None)"

definition MemorySink_Accepted :: "MemorySink \<Rightarrow> u64" where
  "MemorySink_Accepted s = accepted s"

definition memory_sink_ops :: "MemorySink sink_ops" where
  "memory_sink_ops = \<lparr>Write = MemorySink_Write, Flush = None, DrainPoisoned = None\<rparr>"

lemma MemorySink_writes_count:
  "accepted (fold (\<lambda>e s. fst (MemorySink_Write s e)) es s) = accepted s + of_nat (length es)"
  by (induction es arbitrary: s) (simp_all add: MemorySink_Write_def add.assoc)

section \<open>KafkaSink\<close>

text \<open>
  The franz-go client has state type \<open>'k\<close>.  \<open>produce\<close> is \<^verbatim>\<open>client.ProduceSync(ctx, record)\<close>
  followed by \<^verbatim>\<open>FirstErr()\<close>, \<open>kflush\<close> is \<^verbatim>\<open>client.Flush\<close>, \<open>newClient\<close> is \<^verbatim>\<open>kgo.NewClient\<close>.
\<close>

type_synonym 'k produce = "'k \<Rightarrow> Record \<Rightarrow> 'k \<times> go_error option"

record 'k KafkaSink =
  ks_client :: 'k
  ks_topic :: string

definition NewKafkaSink ::
  "(string list \<Rightarrow> go_error + 'k) \<Rightarrow> string list \<Rightarrow> string \<Rightarrow> go_error + 'k KafkaSink" where
  "NewKafkaSink newClient brokers topic =
     (case newClient brokers of
        Inl err \<Rightarrow> Inl err
      | Inr client \<Rightarrow> Inr \<lparr>ks_client = client, ks_topic = topic\<rparr>)"

definition KafkaSink_record :: "string \<Rightarrow> Event \<Rightarrow> bytes \<Rightarrow> Record" where
  "KafkaSink_record topic e val =
     \<lparr>Topic = topic, Partition = 0, Offset = 0, Key = DeviceID e, RecValue = val, Headers = []\<rparr>"

definition KafkaSink_Write ::
  "marshal \<Rightarrow> 'k produce \<Rightarrow> 'k KafkaSink \<Rightarrow> Event \<Rightarrow> 'k KafkaSink \<times> go_error option" where
  "KafkaSink_Write marshal produce s e =
     (case marshal (telemetry_of_event e) of
        Inl err \<Rightarrow> (s, Some err)
      | Inr val \<Rightarrow>
          (case produce (ks_client s) (KafkaSink_record (ks_topic s) e val) of
             (k', err) \<Rightarrow> (s\<lparr>ks_client := k'\<rparr>, err)))"

definition KafkaSink_Flush ::
  "('k \<Rightarrow> 'k \<times> go_error option) \<Rightarrow> 'k KafkaSink \<Rightarrow> 'k KafkaSink \<times> go_error option" where
  "KafkaSink_Flush kflush s =
     (case kflush (ks_client s) of (k', err) \<Rightarrow> (s\<lparr>ks_client := k'\<rparr>, err))"

text \<open>\<^verbatim>\<open>Close\<close> flushes, ignores the flush error and closes the client.\<close>

definition KafkaSink_Close ::
  "('k \<Rightarrow> 'k \<times> go_error option) \<Rightarrow> ('k \<Rightarrow> 'k) \<Rightarrow> 'k KafkaSink \<Rightarrow> 'k KafkaSink" where
  "KafkaSink_Close kflush kclose s =
     (let s' = fst (KafkaSink_Flush kflush s) in s'\<lparr>ks_client := kclose (ks_client s')\<rparr>)"

definition kafka_sink_ops ::
  "marshal \<Rightarrow> 'k produce \<Rightarrow> ('k \<Rightarrow> 'k \<times> go_error option) \<Rightarrow> 'k KafkaSink sink_ops" where
  "kafka_sink_ops marshal produce kflush =
     \<lparr>Write = KafkaSink_Write marshal produce,
      Flush = Some (KafkaSink_Flush kflush),
      DrainPoisoned = None\<rparr>"

section \<open>What an acknowledged produce means\<close>

text \<open>
  The broker seen from a producer with \<^verbatim>\<open>acks=all\<close>: \<open>holds k r\<close> says that the log contains the
  record \<open>r\<close>.  An acknowledged produce put the record into the log, and the log never loses one.
\<close>

locale kafka_log =
  fixes produce :: "'k produce"
    and holds :: "'k \<Rightarrow> Record \<Rightarrow> bool"
  assumes produce_ack: "produce k r = (k', None) \<Longrightarrow> holds k' r"
    and produce_keeps: "holds k x \<Longrightarrow> holds (fst (produce k r)) x"
begin

text \<open>A \<^verbatim>\<open>KafkaSink\<close> over such a client is a sink: an event is accounted for when the log holds
  a record of the sink's topic, keyed by the device, whose value is the marshalled event.\<close>

definition logged :: "marshal \<Rightarrow> 'k KafkaSink \<Rightarrow> Event \<Rightarrow> bool" where
  "logged marshal s e \<longleftrightarrow>
     (\<exists>val. marshal (telemetry_of_event e) = Inr val \<and>
            holds (ks_client s) (KafkaSink_record (ks_topic s) e val))"

lemma write_logs:
  assumes "KafkaSink_Write marshal produce s e = (s', None)"
  shows "logged marshal s' e"
  using assms
  by (auto simp: KafkaSink_Write_def logged_def split: sum.splits prod.splits dest: produce_ack)

lemma write_keeps_logged:
  assumes "logged marshal s x"
  shows "logged marshal (fst (KafkaSink_Write marshal produce s e)) x"
proof -
  from assms obtain val where v: "marshal (telemetry_of_event x) = Inr val"
    and h: "holds (ks_client s) (KafkaSink_record (ks_topic s) x val)"
    by (auto simp: logged_def)
  have "holds (ks_client (fst (KafkaSink_Write marshal produce s e)))
      (KafkaSink_record (ks_topic s) x val)"
    using h produce_keeps [OF h]
    by (auto simp: KafkaSink_Write_def split: sum.splits prod.splits) (metis fst_conv)
  moreover have "ks_topic (fst (KafkaSink_Write marshal produce s e)) = ks_topic s"
    by (auto simp: KafkaSink_Write_def split: sum.splits prod.splits)
  ultimately show ?thesis using v by (auto simp: logged_def)
qed

end

sublocale kafka_log \<subseteq> ks: sink "KafkaSink_Write marshal produce" "logged marshal" "\<lambda>_. True"
  for marshal
  by unfold_locales (auto intro: write_logs write_keeps_logged)

end
