(* ===== verification/Timescale.thy ===== *)
theory Timescale
  imports Sink
begin

text \<open>
  \<^verbatim>\<open>internal/sink/timescale.go\<close>: the buffered sink that writes batches with \<^verbatim>\<open>COPY\<close>, retries a
  batch as a whole, falls back to one \<^verbatim>\<open>INSERT\<close> per row and sets the rows that still fail aside as
  poisoned.  This theory is the behaviour of one goroutine using the sink; the interleaving with
  the background flush of \<^verbatim>\<open>tickerLoop\<close> is theory \<open>Flush_Race\<close>.

  The pgx pool has state type \<open>'db\<close> and two operations, both parameters: \<open>copyFrom\<close> for
  \<^verbatim>\<open>pool.CopyFrom\<close> and \<open>execSQL\<close> for \<^verbatim>\<open>pool.Exec\<close>.
\<close>

section \<open>Rows\<close>

text \<open>A column value: text, an instant (nanoseconds since the epoch), or a double.\<close>

datatype cell = CText string | CTime int | CFloat float64

type_synonym row = "cell list"

type_synonym 'db copy_from =
  "'db \<Rightarrow> string \<Rightarrow> string list \<Rightarrow> row list \<Rightarrow> 'db \<times> go_error option"
type_synonym 'db exec_sql = "'db \<Rightarrow> string \<Rightarrow> row \<Rightarrow> 'db \<times> go_error option"

definition telemetry_table :: string where
  "telemetry_table = ''telemetry_events''"

definition telemetry_columns :: "string list" where
  "telemetry_columns = [''device_id'', ''event_time'', ''metric'', ''value'', ''idempotency_key'']"

text \<open>
  The element \<^verbatim>\<open>rows[i]\<close> of \<^verbatim>\<open>copyBatch\<close> and the argument list of \<^verbatim>\<open>insertOne\<close>;
  \<^verbatim>\<open>time.Unix(0, ns).UTC()\<close> is the instant \<open>ns\<close> nanoseconds after the epoch, \<open>ns\<close> signed.
\<close>

definition row_of_event :: "Event \<Rightarrow> row" where
  "row_of_event e =
     [CText (DeviceID e), CTime (sint (EventTimeUnixNanos e)), CText (Metric e),
      CFloat (Value e), CText (IdempotencyKey e)]"

definition insert_sql :: string where
  "insert_sql =
     ''INSERT INTO telemetry_events (device_id, event_time, metric, value, idempotency_key)'' @
     [CHR 0x0A, CHR 0x09, CHR 0x09] @ '' VALUES ($1, $2, $3, $4, $5)'' @
     [CHR 0x0A, CHR 0x09, CHR 0x09] @ '' ON CONFLICT DO NOTHING''"

lemma row_of_event_inject [simp]: "row_of_event a = row_of_event b \<longleftrightarrow> a = b"
  by (cases a, cases b) (auto simp: row_of_event_def intro: signed_word_eqI)

section \<open>The sink\<close>

record 'db TimescaleSink =
  ts_pool :: 'db
  ts_batchSize :: int
  ts_flushInterval :: int
  ts_maxRetries :: int
  ts_buffer :: "Event list"
  ts_poisoned :: "PoisonedEvent list"

text \<open>\<^verbatim>\<open>NewTimescaleSink\<close> after \<^verbatim>\<open>pgxpool.New\<close> succeeded; the \<^verbatim>\<open>tickerLoop\<close> it starts,
  with the panic of \<^verbatim>\<open>time.NewTicker\<close> on an interval that is not positive, is in theory \<open>Flush_Race\<close>.
  The interval is a \<^verbatim>\<open>time.Duration\<close>, in nanoseconds.\<close>

definition NewTimescaleSink ::
  "(string \<Rightarrow> go_error + 'db) \<Rightarrow> string \<Rightarrow> int \<Rightarrow> int \<Rightarrow> int \<Rightarrow> go_error + 'db TimescaleSink" where
  "NewTimescaleSink newPool dsn batchSize flushInterval maxRetries =
     (case newPool dsn of
        Inl err \<Rightarrow> Inl err
      | Inr db \<Rightarrow> Inr \<lparr>ts_pool = db, ts_batchSize = batchSize, ts_flushInterval = flushInterval,
                      ts_maxRetries = maxRetries, ts_buffer = [], ts_poisoned = []\<rparr>)"

definition drainBuffer :: "'db TimescaleSink \<Rightarrow> 'db TimescaleSink \<times> Event list" where
  "drainBuffer s = (s\<lparr>ts_buffer := []\<rparr>, ts_buffer s)"

definition markPoisoned :: "'db TimescaleSink \<Rightarrow> Event \<Rightarrow> go_error \<Rightarrow> 'db TimescaleSink" where
  "markPoisoned s e err =
     s\<lparr>ts_poisoned := ts_poisoned s @ [\<lparr>PoisonEvent = e, PoisonErr = err\<rparr>]\<rparr>"

definition TimescaleSink_DrainPoisoned ::
  "'db TimescaleSink \<Rightarrow> 'db TimescaleSink \<times> PoisonedEvent list" where
  "TimescaleSink_DrainPoisoned s = (s\<lparr>ts_poisoned := []\<rparr>, ts_poisoned s)"

definition copyBatch ::
  "'db copy_from \<Rightarrow> 'db TimescaleSink \<Rightarrow> Event list \<Rightarrow> 'db TimescaleSink \<times> go_error option" where
  "copyBatch copyFrom s batch =
     (case copyFrom (ts_pool s) telemetry_table telemetry_columns (map row_of_event batch) of
        (db', err) \<Rightarrow> (s\<lparr>ts_pool := db'\<rparr>, err))"

definition insertOne ::
  "'db exec_sql \<Rightarrow> 'db TimescaleSink \<Rightarrow> Event \<Rightarrow> 'db TimescaleSink \<times> go_error option" where
  "insertOne execSQL s e =
     (case execSQL (ts_pool s) insert_sql (row_of_event e) of
        (db', err) \<Rightarrow> (s\<lparr>ts_pool := db'\<rparr>, err))"

text \<open>The second loop of \<^verbatim>\<open>Flush\<close>: one retried insert per row, poisoning the rows that fail.\<close>

fun flush_rows ::
  "'db exec_sql \<Rightarrow> 'db TimescaleSink \<Rightarrow> Event list \<Rightarrow> 'db TimescaleSink" where
  "flush_rows execSQL s [] = s"
| "flush_rows execSQL s (e # es) =
     (case retry (ts_maxRetries s) (\<lambda>s. insertOne execSQL s e) s of
        (s', out) \<Rightarrow>
          (case outcome_err out of
             None \<Rightarrow> flush_rows execSQL s' es
           | Some rowErr \<Rightarrow> flush_rows execSQL (markPoisoned s' e rowErr) es))"

definition TimescaleSink_Flush ::
  "'db copy_from \<Rightarrow> 'db exec_sql \<Rightarrow> 'db TimescaleSink \<Rightarrow> 'db TimescaleSink \<times> go_error option" where
  "TimescaleSink_Flush copyFrom execSQL s =
     (case drainBuffer s of
        (s1, batch) \<Rightarrow>
          if length batch = 0 then (s1, None)
          else
            (case retry (ts_maxRetries s1) (\<lambda>s. copyBatch copyFrom s batch) s1 of
               (s2, Done) \<Rightarrow> (s2, None)
             | (s2, Exhausted _) \<Rightarrow> (flush_rows execSQL s2 batch, None)))"

definition TimescaleSink_Write ::
  "'db copy_from \<Rightarrow> 'db exec_sql \<Rightarrow> 'db TimescaleSink \<Rightarrow> Event \<Rightarrow>
     'db TimescaleSink \<times> go_error option" where
  "TimescaleSink_Write copyFrom execSQL s e =
     (let s1 = s\<lparr>ts_buffer := ts_buffer s @ [e]\<rparr>;
          shouldFlush = (int (length (ts_buffer s1)) \<ge> ts_batchSize s1)
      in if shouldFlush then TimescaleSink_Flush copyFrom execSQL s1 else (s1, None))"

text \<open>\<^verbatim>\<open>Close\<close> after \<^verbatim>\<open>tickerLoop\<close> has stopped: a last flush, then the pool is closed.\<close>

definition TimescaleSink_Close ::
  "'db copy_from \<Rightarrow> 'db exec_sql \<Rightarrow> ('db \<Rightarrow> 'db) \<Rightarrow> 'db TimescaleSink \<Rightarrow> 'db TimescaleSink" where
  "TimescaleSink_Close copyFrom execSQL closePool s =
     (let s' = fst (TimescaleSink_Flush copyFrom execSQL s)
      in s'\<lparr>ts_pool := closePool (ts_pool s')\<rparr>)"

definition timescale_sink_ops ::
  "'db copy_from \<Rightarrow> 'db exec_sql \<Rightarrow> 'db TimescaleSink sink_ops" where
  "timescale_sink_ops copyFrom execSQL =
     \<lparr>Write = TimescaleSink_Write copyFrom execSQL,
      Flush = Some (TimescaleSink_Flush copyFrom execSQL),
      DrainPoisoned = Some TimescaleSink_DrainPoisoned\<rparr>"

section \<open>What every operation leaves alone\<close>

lemma copyBatch_frame [simp]:
  "ts_buffer (fst (copyBatch c s b)) = ts_buffer s"
  "ts_poisoned (fst (copyBatch c s b)) = ts_poisoned s"
  "ts_maxRetries (fst (copyBatch c s b)) = ts_maxRetries s"
  "ts_batchSize (fst (copyBatch c s b)) = ts_batchSize s"
  "ts_flushInterval (fst (copyBatch c s b)) = ts_flushInterval s"
  by (simp_all add: copyBatch_def split: prod.split)

lemma insertOne_frame [simp]:
  "ts_buffer (fst (insertOne x s e)) = ts_buffer s"
  "ts_poisoned (fst (insertOne x s e)) = ts_poisoned s"
  "ts_maxRetries (fst (insertOne x s e)) = ts_maxRetries s"
  "ts_batchSize (fst (insertOne x s e)) = ts_batchSize s"
  "ts_flushInterval (fst (insertOne x s e)) = ts_flushInterval s"
  by (simp_all add: insertOne_def split: prod.split)

lemma markPoisoned_frame [simp]:
  "ts_buffer (markPoisoned s e err) = ts_buffer s"
  "ts_pool (markPoisoned s e err) = ts_pool s"
  "ts_maxRetries (markPoisoned s e err) = ts_maxRetries s"
  "ts_batchSize (markPoisoned s e err) = ts_batchSize s"
  "ts_flushInterval (markPoisoned s e err) = ts_flushInterval s"
  "ts_poisoned (markPoisoned s e err) = ts_poisoned s @ [\<lparr>PoisonEvent = e, PoisonErr = err\<rparr>]"
  by (simp_all add: markPoisoned_def)

lemma drainBuffer_frame [simp]:
  "snd (drainBuffer s) = ts_buffer s"
  "ts_buffer (fst (drainBuffer s)) = []"
  "ts_pool (fst (drainBuffer s)) = ts_pool s"
  "ts_poisoned (fst (drainBuffer s)) = ts_poisoned s"
  "ts_maxRetries (fst (drainBuffer s)) = ts_maxRetries s"
  "ts_batchSize (fst (drainBuffer s)) = ts_batchSize s"
  "ts_flushInterval (fst (drainBuffer s)) = ts_flushInterval s"
  by (simp_all add: drainBuffer_def)

text \<open>The part of the state the database calls cannot touch.\<close>

definition local_part :: "'db TimescaleSink \<Rightarrow> int \<times> int \<times> int \<times> Event list \<times> PoisonedEvent list" where
  "local_part s = (ts_batchSize s, ts_flushInterval s, ts_maxRetries s, ts_buffer s, ts_poisoned s)"

lemma retry_copyBatch_local [simp]:
  "local_part (fst (retry m (\<lambda>s. copyBatch c s b) s)) = local_part s"
  by (rule retry_inv [where I = "\<lambda>t. local_part t = local_part s"]) (auto simp: local_part_def)

lemma retry_insertOne_local [simp]:
  "local_part (fst (retry m (\<lambda>s. insertOne x s e) s)) = local_part s"
  by (rule retry_inv [where I = "\<lambda>t. local_part t = local_part s"]) (auto simp: local_part_def)

lemma local_part_fields:
  assumes "local_part t = local_part s"
  shows "ts_buffer t = ts_buffer s" "ts_poisoned t = ts_poisoned s"
    "ts_maxRetries t = ts_maxRetries s" "ts_batchSize t = ts_batchSize s"
    "ts_flushInterval t = ts_flushInterval s"
  using assms by (auto simp: local_part_def)

text \<open>One step of the row loop, as an equation over the retried insert.\<close>

definition insert_row_step ::
  "'db exec_sql \<Rightarrow> Event \<Rightarrow> 'db TimescaleSink \<Rightarrow> 'db TimescaleSink" where
  "insert_row_step execSQL e s =
     (case retry (ts_maxRetries s) (\<lambda>s. insertOne execSQL s e) s of
        (s', out) \<Rightarrow> (case outcome_err out of None \<Rightarrow> s' | Some err \<Rightarrow> markPoisoned s' e err))"

lemma flush_rows_fold: "flush_rows execSQL s es = fold (insert_row_step execSQL) es s"
  by (induction es arbitrary: s) (auto simp: insert_row_step_def split: prod.split option.split)

lemma insert_row_step_frame [simp]:
  "ts_buffer (insert_row_step x e s) = ts_buffer s"
  "ts_maxRetries (insert_row_step x e s) = ts_maxRetries s"
  "ts_batchSize (insert_row_step x e s) = ts_batchSize s"
  "ts_flushInterval (insert_row_step x e s) = ts_flushInterval s"
proof -
  obtain s' out where r: "retry (ts_maxRetries s) (\<lambda>s. insertOne x s e) s = (s', out)"
    by (cases "retry (ts_maxRetries s) (\<lambda>s. insertOne x s e) s")
  have "local_part s' = local_part s"
    using retry_insertOne_local [of "ts_maxRetries s" x e s] by (simp add: r)
  note f = local_part_fields [OF this]
  show "ts_buffer (insert_row_step x e s) = ts_buffer s"
    and "ts_maxRetries (insert_row_step x e s) = ts_maxRetries s"
    and "ts_batchSize (insert_row_step x e s) = ts_batchSize s"
    and "ts_flushInterval (insert_row_step x e s) = ts_flushInterval s"
    by (simp_all add: insert_row_step_def r f split: option.split)
qed

lemma flush_rows_frame [simp]:
  "ts_buffer (flush_rows x s es) = ts_buffer s"
  "ts_maxRetries (flush_rows x s es) = ts_maxRetries s"
  "ts_batchSize (flush_rows x s es) = ts_batchSize s"
  "ts_flushInterval (flush_rows x s es) = ts_flushInterval s"
  unfolding flush_rows_fold by (induction es arbitrary: s) simp_all

text \<open>
  \<^verbatim>\<open>Flush\<close> as three cases: nothing to do, the batch went in, or the row loop ran.
\<close>

lemma Flush_cases:
  obtains (empty) "ts_buffer s = []" "TimescaleSink_Flush c x s = (s, None)"
  | (copied) s2 where "ts_buffer s \<noteq> []"
      "retry (ts_maxRetries s) (\<lambda>t. copyBatch c t (ts_buffer s)) (fst (drainBuffer s)) = (s2, Done)"
      "TimescaleSink_Flush c x s = (s2, None)"
  | (rows) s2 err where "ts_buffer s \<noteq> []"
      "retry (ts_maxRetries s) (\<lambda>t. copyBatch c t (ts_buffer s)) (fst (drainBuffer s)) =
         (s2, Exhausted err)"
      "TimescaleSink_Flush c x s = (flush_rows x s2 (ts_buffer s), None)"
proof (cases "ts_buffer s = []")
  case True
  then have "drainBuffer s = (s, [])" by (simp add: drainBuffer_def)
  with True show ?thesis by (intro empty) (simp_all add: TimescaleSink_Flush_def)
next
  case False
  obtain s2 out where r: "retry (ts_maxRetries s) (\<lambda>t. copyBatch c t (ts_buffer s))
      (fst (drainBuffer s)) = (s2, out)" by fastforce
  show ?thesis
  proof (cases out)
    case Done
    with False r show ?thesis
      by (intro copied) (auto simp: TimescaleSink_Flush_def drainBuffer_def)
  next
    case (Exhausted err)
    with False r show ?thesis
      by (intro rows) (auto simp: TimescaleSink_Flush_def drainBuffer_def)
  qed
qed

text \<open>Below the batch size a run of writes only fills the buffer.\<close>

lemma writes_only_buffer:
  assumes "int (length (ts_buffer s) + length es) < ts_batchSize s"
  shows "fold (\<lambda>e s. fst (TimescaleSink_Write c x s e)) es s = s\<lparr>ts_buffer := ts_buffer s @ es\<rparr>"
  using assms
proof (induction es arbitrary: s)
  case Nil
  then show ?case by simp
next
  case (Cons e es)
  let ?s1 = "s\<lparr>ts_buffer := ts_buffer s @ [e]\<rparr>"
  have "fst (TimescaleSink_Write c x s e) = ?s1"
    using Cons.prems by (simp add: TimescaleSink_Write_def Let_def)
  moreover have "fold (\<lambda>e s. fst (TimescaleSink_Write c x s e)) es ?s1 =
      ?s1\<lparr>ts_buffer := ts_buffer ?s1 @ es\<rparr>"
    by (rule Cons.IH) (use Cons.prems in simp)
  ultimately show ?case by simp
qed

section \<open>The database contract and the sink it gives\<close>

text \<open>
  What the sink relies on of the database.  \<open>holds db r\<close> says that the table has a row under
  the unique key of \<open>r\<close>.  A \<^verbatim>\<open>COPY\<close> that returned nil stored every row of the batch; an
  \<^verbatim>\<open>INSERT ... ON CONFLICT DO NOTHING\<close> that returned nil stored its row or found its key taken;
  neither ever removes a row.
\<close>

locale timescale_db =
  fixes copyFrom :: "'db copy_from"
    and execSQL :: "'db exec_sql"
    and holds :: "'db \<Rightarrow> row \<Rightarrow> bool"
  assumes copy_ok:
      "copyFrom db telemetry_table telemetry_columns rs = (db', None) \<Longrightarrow> r \<in> set rs \<Longrightarrow> holds db' r"
    and copy_keeps: "holds db r \<Longrightarrow> holds (fst (copyFrom db t cols rs)) r"
    and insert_ok: "execSQL db insert_sql r = (db', None) \<Longrightarrow> holds db' r"
    and insert_keeps: "holds db r \<Longrightarrow> holds (fst (execSQL db q r')) r"
begin

definition stored :: "'db TimescaleSink \<Rightarrow> Event \<Rightarrow> bool" where
  "stored s e \<longleftrightarrow> holds (ts_pool s) (row_of_event e)"

definition accounted :: "'db TimescaleSink \<Rightarrow> Event \<Rightarrow> bool" where
  "accounted s e \<longleftrightarrow>
     stored s e \<or> e \<in> set (ts_buffer s) \<or> e \<in> PoisonEvent ` set (ts_poisoned s)"

text \<open>A negative retry bound makes every loop body unreachable, so it is excluded.\<close>

definition retries_ok :: "'db TimescaleSink \<Rightarrow> bool" where
  "retries_ok s \<longleftrightarrow> 0 \<le> ts_maxRetries s"

lemma copyBatch_ok:
  "copyBatch copyFrom s b = (s', None) \<Longrightarrow> e \<in> set b \<Longrightarrow> stored s' e"
  by (auto simp: copyBatch_def stored_def split: prod.splits intro: copy_ok)

lemma copyBatch_keeps: "stored s e \<Longrightarrow> stored (fst (copyBatch copyFrom s b)) e"
  using copy_keeps [of "ts_pool s" "row_of_event e" telemetry_table telemetry_columns
      "map row_of_event b"]
  by (auto simp: copyBatch_def stored_def split: prod.splits)

lemma insertOne_ok: "insertOne execSQL s e = (s', None) \<Longrightarrow> stored s' e"
  by (auto simp: insertOne_def stored_def split: prod.splits intro: insert_ok)

lemma insertOne_keeps: "stored s e \<Longrightarrow> stored (fst (insertOne execSQL s e')) e"
  using insert_keeps [of "ts_pool s" "row_of_event e" insert_sql "row_of_event e'"]
  by (auto simp: insertOne_def stored_def split: prod.splits)

lemma stored_markPoisoned [simp]: "stored (markPoisoned s e err) x = stored s x"
  by (simp add: stored_def)

lemma insert_row_step_stored:
  assumes "stored s x" shows "stored (insert_row_step execSQL e s) x"
proof -
  have "stored (fst (retry (ts_maxRetries s) (\<lambda>s. insertOne execSQL s e) s)) x"
    using assms by (rule retry_inv) (rule insertOne_keeps)
  then show ?thesis by (auto simp: insert_row_step_def split: prod.split option.split)
qed

lemma insert_row_step_poisoned:
  "\<exists>ps. ts_poisoned (insert_row_step execSQL e s) = ts_poisoned s @ ps"
  using retry_insertOne_local [of "ts_maxRetries s" execSQL e s]
  by (auto simp: insert_row_step_def local_part_def split: prod.split option.split)

definition settled :: "Event \<Rightarrow> 'db TimescaleSink \<Rightarrow> bool" where
  "settled e s \<longleftrightarrow> stored s e \<or> e \<in> PoisonEvent ` set (ts_poisoned s)"

lemma insert_row_step_settles:
  assumes "retries_ok s" shows "settled e (insert_row_step execSQL e s)"
proof -
  obtain s' out where r: "retry (ts_maxRetries s) (\<lambda>s. insertOne execSQL s e) s = (s', out)"
    by (cases "retry (ts_maxRetries s) (\<lambda>s. insertOne execSQL s e) s")
  show ?thesis
  proof (cases "outcome_err out")
    case None
    with retry_err_iff [OF r] assms have "out = Done" by (simp add: retries_ok_def)
    with r have "stored s' e" by (auto intro: retry_done insertOne_ok)
    with r None show ?thesis by (simp add: insert_row_step_def settled_def)
  next
    case (Some err)
    with r show ?thesis by (simp add: insert_row_step_def settled_def)
  qed
qed

lemma insert_row_step_keeps_settled:
  "settled x s \<Longrightarrow> settled x (insert_row_step execSQL e s)"
  using insert_row_step_stored [of s x e] insert_row_step_poisoned [of e s]
  by (auto simp: settled_def)

lemma flush_rows_settles:
  assumes "retries_ok s" and "x \<in> set es \<or> settled x s"
  shows "settled x (flush_rows execSQL s es)"
  using assms
proof (induction es arbitrary: s)
  case Nil
  then show ?case by simp
next
  case (Cons e es)
  have "retries_ok (insert_row_step execSQL e s)"
    using Cons.prems(1) by (simp add: retries_ok_def)
  moreover have "x \<in> set es \<or> settled x (insert_row_step execSQL e s)"
    using Cons.prems insert_row_step_settles insert_row_step_keeps_settled by auto
  ultimately show ?case using Cons.IH by (simp add: flush_rows_fold)
qed

lemma flush_rows_stored: "stored s x \<Longrightarrow> stored (flush_rows execSQL s es) x"
  unfolding flush_rows_fold by (rule fold_mono_fact) (rule insert_row_step_stored)

lemma retry_copyBatch_stored:
  "stored s x \<Longrightarrow> stored (fst (retry m (\<lambda>s. copyBatch copyFrom s b) s)) x"
  by (rule retry_inv [where I = "\<lambda>s. stored s x"]) (auto intro: copyBatch_keeps)

lemma retry_copyBatch_done:
  assumes "retry m (\<lambda>s. copyBatch copyFrom s b) s = (s', Done)" and "e \<in> set b"
  shows "stored s' e"
  using assms(1) by (rule retry_done [where Q = "\<lambda>s. stored s e"]) (rule copyBatch_ok [OF _ assms(2)])

lemma stored_drainBuffer [simp]: "stored (fst (drainBuffer s)) x = stored s x"
  by (simp add: stored_def)

lemma Flush_stored:
  assumes "stored s x" shows "stored (fst (TimescaleSink_Flush copyFrom execSQL s)) x"
proof (cases rule: Flush_cases [of s copyFrom execSQL])
  case empty
  with assms show ?thesis by simp
next
  case (copied s2)
  with retry_copyBatch_stored [of "fst (drainBuffer s)" x] assms show ?thesis
    by (metis fst_conv stored_drainBuffer)
next
  case (rows s2 err)
  have "stored s2 x"
    using retry_copyBatch_stored [of "fst (drainBuffer s)" x] assms rows(2)
    by (metis fst_conv stored_drainBuffer)
  with rows show ?thesis by (simp add: flush_rows_stored)
qed

lemma Flush_frame:
  "ts_buffer (fst (TimescaleSink_Flush copyFrom execSQL s)) = []"
  "ts_maxRetries (fst (TimescaleSink_Flush copyFrom execSQL s)) = ts_maxRetries s"
proof -
  let ?r = "retry (ts_maxRetries s) (\<lambda>t. copyBatch copyFrom t (ts_buffer s)) (fst (drainBuffer s))"
  have *: "local_part (fst ?r) = local_part (fst (drainBuffer s))" by simp
  note f = local_part_fields [OF *]
  show "ts_buffer (fst (TimescaleSink_Flush copyFrom execSQL s)) = []"
    and "ts_maxRetries (fst (TimescaleSink_Flush copyFrom execSQL s)) = ts_maxRetries s"
    using f by (cases rule: Flush_cases [of s copyFrom execSQL]; simp)+
qed

lemma Flush_settles:
  assumes "retries_ok s" and "accounted s x"
  shows "settled x (fst (TimescaleSink_Flush copyFrom execSQL s))"
proof (cases rule: Flush_cases [of s copyFrom execSQL])
  case empty
  with assms show ?thesis by (auto simp: accounted_def settled_def)
next
  case (copied s2)
  have "local_part s2 = local_part (fst (drainBuffer s))"
    using copied(2) retry_copyBatch_local by (metis fst_conv)
  note f = local_part_fields [OF this]
  show ?thesis
  proof (cases "x \<in> set (ts_buffer s)")
    case True
    with copied retry_copyBatch_done show ?thesis by (auto simp: settled_def)
  next
    case False
    with assms(2) Flush_stored [of s x] copied f show ?thesis
      by (auto simp: accounted_def settled_def)
  qed
next
  case (rows s2 err)
  have "local_part s2 = local_part (fst (drainBuffer s))"
    using rows(2) retry_copyBatch_local by (metis fst_conv)
  note f = local_part_fields [OF this]
  have "stored s x \<Longrightarrow> stored s2 x"
    using retry_copyBatch_stored [of "fst (drainBuffer s)" x] rows(2)
    by (metis fst_conv stored_drainBuffer)
  with assms(2) f have "x \<in> set (ts_buffer s) \<or> settled x s2"
    by (auto simp: accounted_def settled_def)
  with flush_rows_settles [of s2 x "ts_buffer s"] assms(1) f rows(3) show ?thesis
    by (simp add: retries_ok_def)
qed

lemma Flush_nil: "snd (TimescaleSink_Flush copyFrom execSQL s) = None"
  by (cases rule: Flush_cases [of s copyFrom execSQL]) simp_all

lemma settled_accounted: "settled x s \<Longrightarrow> accounted s x"
  by (auto simp: settled_def accounted_def)

lemma Write_accounts:
  assumes "retries_ok s" and "x = e \<or> accounted s x"
  shows "accounted (fst (TimescaleSink_Write copyFrom execSQL s e)) x"
proof -
  let ?s1 = "s\<lparr>ts_buffer := ts_buffer s @ [e]\<rparr>"
  have "accounted ?s1 x" using assms(2) by (auto simp: accounted_def stored_def)
  moreover have "retries_ok ?s1" using assms(1) by (simp add: retries_ok_def)
  ultimately show ?thesis
    using Flush_settles [of ?s1 x] settled_accounted
    by (auto simp: TimescaleSink_Write_def Let_def)
qed

lemma Write_nil: "snd (TimescaleSink_Write copyFrom execSQL s e) = None"
  by (simp add: TimescaleSink_Write_def Let_def Flush_nil)

lemma Write_stored:
  assumes "stored s x" shows "stored (fst (TimescaleSink_Write copyFrom execSQL s e)) x"
proof -
  have "stored (s\<lparr>ts_buffer := ts_buffer s @ [e]\<rparr>) x" using assms by (simp add: stored_def)
  then show ?thesis by (simp add: TimescaleSink_Write_def Let_def Flush_stored)
qed

lemma Write_retries: "retries_ok s \<Longrightarrow> retries_ok (fst (TimescaleSink_Write copyFrom execSQL s e))"
  by (simp add: TimescaleSink_Write_def Let_def retries_ok_def Flush_frame)

end

sublocale timescale_db \<subseteq> ts: poison_sink
    "TimescaleSink_Write copyFrom execSQL" accounted retries_ok
    "TimescaleSink_Flush copyFrom execSQL" TimescaleSink_DrainPoisoned stored ts_buffer ts_poisoned
proof (unfold_locales, goal_cases)
  case (1 s e s')
  then show ?case using Write_accounts [of s e e] by simp
next
  case (2 s x e)
  then show ?case by (simp add: Write_accounts)
next
  case (3 s e)
  then show ?case by (rule Write_retries)
next
  case (4 s x)
  show ?case by (simp add: accounted_def)
next
  case (5 s e)
  show ?case by (rule Write_nil)
next
  case (6 s x e)
  then show ?case by (simp add: Write_stored)
next
  case (7 s)
  show ?case by (rule Flush_nil)
next
  case (8 s x)
  then show ?case by (simp add: Flush_settles settled_accounted)
next
  case (9 s)
  show ?case by (rule Flush_frame)
next
  case (10 s x)
  then show ?case by (simp add: Flush_stored)
next
  case (11 s)
  then show ?case by (simp add: retries_ok_def Flush_frame)
next
  case (12 s)
  show ?case by (simp add: TimescaleSink_DrainPoisoned_def)
next
  case (13 s)
  show ?case by (simp add: TimescaleSink_DrainPoisoned_def)
next
  case (14 s)
  show ?case by (simp add: TimescaleSink_DrainPoisoned_def stored_def fun_eq_iff)
next
  case (15 s)
  show ?case by (simp add: TimescaleSink_DrainPoisoned_def)
next
  case (16 s)
  then show ?case by (simp add: TimescaleSink_DrainPoisoned_def retries_ok_def)
qed

end
