(* ===== verification/Dedup.thy ===== *)
theory Dedup
  imports Wire
begin

text \<open>
  \<^verbatim>\<open>internal/dedup\<close>: the Redis-backed duplicate check.  The go-redis client has state type \<open>'r\<close>
  and two operations, both parameters: \<open>setnx\<close> for \<^verbatim>\<open>client.SetNX(...).Result()\<close> and \<open>exec\<close> for a
  pipeline of such commands, which returns the error of \<^verbatim>\<open>Exec\<close> and the result of each command.
\<close>

section \<open>The deduper\<close>

text \<open>\<^verbatim>\<open>SetNX key value ttl\<close>; the duration is in nanoseconds.\<close>

datatype redis_cmd = SetNX (cmd_key: string) (cmd_value: string) (cmd_ttl: int)

type_synonym 'r setnx = "'r \<Rightarrow> redis_cmd \<Rightarrow> 'r \<times> (go_error + bool)"
type_synonym 'r pipe_exec =
  "'r \<Rightarrow> redis_cmd list \<Rightarrow> 'r \<times> go_error option \<times> (nat \<Rightarrow> go_error + bool)"

record 'r Deduper =
  rd_client :: 'r
  rd_ttl :: int

definition dedup_New :: "(string \<Rightarrow> 'r) \<Rightarrow> string \<Rightarrow> int \<Rightarrow> 'r Deduper" where
  "dedup_New newClient addr ttl = \<lparr>rd_client = newClient addr, rd_ttl = ttl\<rparr>"

definition Deduper_Seen ::
  "'r setnx \<Rightarrow> 'r Deduper \<Rightarrow> string \<Rightarrow> 'r Deduper \<times> (go_error + bool)" where
  "Deduper_Seen setnx d key =
     (case setnx (rd_client d) (SetNX key ''1'' (rd_ttl d)) of
        (r', Inl err) \<Rightarrow> (d\<lparr>rd_client := r'\<rparr>, Inl err)
      | (r', Inr wasSet) \<Rightarrow> (d\<lparr>rd_client := r'\<rparr>, Inr (\<not> wasSet)))"

text \<open>The loop over the commands' results: the first error ends it.\<close>

fun collect_seen :: "(go_error + bool) list \<Rightarrow> go_error + bool list" where
  "collect_seen [] = Inr []"
| "collect_seen (Inl err # rs) = Inl err"
| "collect_seen (Inr wasSet # rs) =
     (case collect_seen rs of Inl err \<Rightarrow> Inl err | Inr bs \<Rightarrow> Inr ((\<not> wasSet) # bs))"

definition Deduper_SeenBatch ::
  "'r pipe_exec \<Rightarrow> 'r Deduper \<Rightarrow> string list \<Rightarrow> 'r Deduper \<times> (go_error + bool list)" where
  "Deduper_SeenBatch exec d keys =
     (if length keys = 0 then (d, Inr [])
      else
        (case exec (rd_client d) (map (\<lambda>k. SetNX k ''1'' (rd_ttl d)) keys) of
           (r', Some err, _) \<Rightarrow> (d\<lparr>rd_client := r'\<rparr>, Inl err)
         | (r', None, res) \<Rightarrow>
             (d\<lparr>rd_client := r'\<rparr>, collect_seen (map res [0..<length keys]))))"

definition Deduper_Close :: "('r \<Rightarrow> 'r \<times> go_error option) \<Rightarrow> 'r Deduper \<Rightarrow> 'r Deduper \<times> go_error option" where
  "Deduper_Close closeClient d =
     (case closeClient (rd_client d) of (r', err) \<Rightarrow> (d\<lparr>rd_client := r'\<rparr>, err))"

text \<open>The check before the pipeline was introduced: one round trip per key.\<close>

fun seen_each ::
  "'r setnx \<Rightarrow> 'r Deduper \<Rightarrow> string list \<Rightarrow> 'r Deduper \<times> (go_error + bool) list" where
  "seen_each setnx d [] = (d, [])"
| "seen_each setnx d (k # ks) =
     (case Deduper_Seen setnx d k of
        (d1, x) \<Rightarrow> (case seen_each setnx d1 ks of (d2, xs) \<Rightarrow> (d2, x # xs)))"

section \<open>The interface the consumer uses\<close>

text \<open>
  \<open>known d\<close> is the set of keys the deduper would report as seen.  A successful batch check marks
  every key of the batch, and reports a position as seen when its key was known before the batch
  or stands earlier in it.
\<close>

locale deduper =
  fixes seen_batch :: "'d \<Rightarrow> string list \<Rightarrow> 'd \<times> (go_error + bool list)"
    and known :: "'d \<Rightarrow> string set"
  assumes flags_length: "seen_batch d ks = (d', Inr bs) \<Longrightarrow> length bs = length ks"
    and flags_iff: "seen_batch d ks = (d', Inr bs) \<Longrightarrow> i < length ks \<Longrightarrow>
      bs ! i \<longleftrightarrow> ks ! i \<in> known d \<or> ks ! i \<in> set (take i ks)"
    and batch_known: "seen_batch d ks = (d', Inr bs) \<Longrightarrow> known d' = known d \<union> set ks"
begin

text \<open>Checking a batch whose keys are all known reports every position as seen.\<close>

lemma replay_all_seen:
  assumes "seen_batch d ks = (d', Inr bs)" and "set ks \<subseteq> known d"
  shows "bs = replicate (length ks) True"
  using flags_length [OF assms(1)] flags_iff [OF assms(1)] assms(2)
  by (intro nth_equalityI) auto

text \<open>A batch of new, pairwise different keys is reported as not seen throughout.\<close>

lemma fresh_none_seen:
  assumes "seen_batch d ks = (d', Inr bs)" and "distinct ks" and "set ks \<inter> known d = {}"
  shows "bs = replicate (length ks) False"
proof (intro nth_equalityI)
  fix i assume i: "i < length bs"
  then have i': "i < length ks" using flags_length [OF assms(1)] by simp
  have "ks ! i \<notin> set (take i ks)"
    using assms(2) i' by (auto simp: in_set_take_iff nth_eq_iff_index_eq)
  moreover have "ks ! i \<notin> known d" using assms(3) i' nth_mem by blast
  ultimately show "bs ! i = replicate (length ks) False ! i"
    using flags_iff [OF assms(1) i'] i' by simp
qed (simp add: flags_length [OF assms(1)])

text \<open>Every new key of the batch is let through exactly once: at its first position.\<close>

lemma first_occurrence_passes:
  assumes "seen_batch d ks = (d', Inr bs)" and "k \<in> set ks" and "k \<notin> known d"
  shows "\<exists>!i. i < length ks \<and> ks ! i = k \<and> \<not> bs ! i"
proof -
  define i where "i = (LEAST i. i < length ks \<and> ks ! i = k)"
  have ex: "\<exists>i. i < length ks \<and> ks ! i = k" using assms(2) by (auto simp: in_set_conv_nth)
  then have i: "i < length ks" "ks ! i = k" unfolding i_def by (metis (mono_tags, lifting) LeastI_ex)+
  have least: "i \<le> j" if "j < length ks" "ks ! j = k" for j
    unfolding i_def using that by (auto intro: Least_le)
  have ni: "\<not> bs ! i"
    using flags_iff [OF assms(1) i(1)] i assms(3) least by (fastforce simp: in_set_take_iff)
  show ?thesis
  proof (intro ex1I [of _ i] conjI)
    fix j assume j: "j < length ks \<and> ks ! j = k \<and> \<not> bs ! j"
    have "\<not> i < j"
      using flags_iff [OF assms(1), of j] j i by (auto simp: in_set_take_iff)
    with least [of j] j show "j = i" by simp
  qed (use i ni in auto)
qed

end

section \<open>The Redis contract and the deduper it gives\<close>

text \<open>A pipeline runs its commands one after the other on one connection.\<close>

fun pipeline_seq :: "'r setnx \<Rightarrow> 'r \<Rightarrow> redis_cmd list \<Rightarrow> 'r \<times> (go_error + bool) list" where
  "pipeline_seq setnx r [] = (r, [])"
| "pipeline_seq setnx r (c # cs) =
     (case setnx r c of
        (r1, x) \<Rightarrow> (case pipeline_seq setnx r1 cs of (r2, xs) \<Rightarrow> (r2, x # xs)))"

text \<open>
  \<open>live r\<close> is the set of keys that exist and have not expired.  \<^verbatim>\<open>SET NX\<close> answers whether it set
  the key, which it does exactly when the key was not live, and the key is live afterwards.
  A pipeline whose \<^verbatim>\<open>Exec\<close> returned nil ran all commands in order, none of them failing.
\<close>

locale redis =
  fixes setnx :: "'r setnx"
    and exec :: "'r pipe_exec"
    and live :: "'r \<Rightarrow> string set"
  assumes setnx_ok: "setnx r (SetNX k v t) = (r', Inr b) \<Longrightarrow>
      (b \<longleftrightarrow> k \<notin> live r) \<and> live r' = insert k (live r)"
    and exec_ok: "exec r cs = (r', None, res) \<Longrightarrow>
      pipeline_seq setnx r cs = (r', map res [0..<length cs]) \<and>
      (\<forall>i < length cs. \<exists>b. res i = Inr b)"
begin

lemma pipeline_flags:
  assumes "pipeline_seq setnx r cs = (r', map Inr bs)"
  shows "length bs = length cs \<and> live r' = live r \<union> cmd_key ` set cs \<and>
    (\<forall>i < length cs. bs ! i \<longleftrightarrow>
       \<not> (cmd_key (cs ! i) \<in> live r \<or> cmd_key (cs ! i) \<in> cmd_key ` set (take i cs)))"
  using assms
proof (induction cs arbitrary: r r' bs)
  case Nil
  then show ?case by simp
next
  case (Cons c cs)
  obtain r1 x where sx: "setnx r c = (r1, x)" by fastforce
  obtain r2 xs where ps: "pipeline_seq setnx r1 cs = (r2, xs)" by fastforce
  from Cons.prems sx ps obtain b bs' where bs: "bs = b # bs'" and x: "x = Inr b"
    and xs: "xs = map Inr bs'" and r2: "r2 = r'"
    by (cases bs) auto
  obtain k v t where c: "c = SetNX k v t" by (cases c)
  from sx x c setnx_ok have h: "b \<longleftrightarrow> k \<notin> live r" "live r1 = insert k (live r)" by auto
  from Cons.IH ps xs r2 have ih: "length bs' = length cs" "live r' = live r1 \<union> cmd_key ` set cs"
    "\<forall>i < length cs. bs' ! i \<longleftrightarrow>
       \<not> (cmd_key (cs ! i) \<in> live r1 \<or> cmd_key (cs ! i) \<in> cmd_key ` set (take i cs))"
    by auto
  have "\<forall>i < length (c # cs). bs ! i \<longleftrightarrow>
     \<not> (cmd_key ((c # cs) ! i) \<in> live r \<or> cmd_key ((c # cs) ! i) \<in> cmd_key ` set (take i (c # cs)))"
    using h ih(3) bs c by (auto simp: nth_Cons split: nat.split)
  with ih h bs c show ?case by auto
qed

lemma collect_seen_Inr:
  "collect_seen rs = Inr bs \<Longrightarrow> rs = map Inr (map Not bs)"
  by (induction rs arbitrary: bs rule: collect_seen.induct) (auto split: sum.splits)

lemma SeenBatch_flags:
  assumes "Deduper_SeenBatch exec d ks = (d', Inr bs)"
  shows "length bs = length ks \<and>
    live (rd_client d') = live (rd_client d) \<union> set ks \<and>
    (\<forall>i < length ks. bs ! i \<longleftrightarrow> ks ! i \<in> live (rd_client d) \<or> ks ! i \<in> set (take i ks))"
proof (cases "ks = []")
  case True
  with assms show ?thesis by (simp add: Deduper_SeenBatch_def)
next
  case False
  let ?cs = "map (\<lambda>k. SetNX k ''1'' (rd_ttl d)) ks"
  from assms False obtain r' res where e: "exec (rd_client d) ?cs = (r', None, res)"
    and d': "d' = d\<lparr>rd_client := r'\<rparr>" and c: "collect_seen (map res [0..<length ks]) = Inr bs"
    by (auto simp: Deduper_SeenBatch_def split: prod.splits option.splits)
  from collect_seen_Inr [OF c] exec_ok [OF e]
  have "pipeline_seq setnx (rd_client d) ?cs = (r', map Inr (map Not bs))" by simp
  from pipeline_flags [OF this]
  have "length bs = length ks" "live r' = live (rd_client d) \<union> set ks"
    "\<forall>i < length ks. map Not bs ! i \<longleftrightarrow> \<not> (ks ! i \<in> live (rd_client d) \<or> ks ! i \<in> set (take i ks))"
    by (auto simp: image_image take_map)
  with d' show ?thesis by auto
qed

end

sublocale redis \<subseteq> dd: deduper "Deduper_SeenBatch exec" "\<lambda>d. live (rd_client d)"
  by unfold_locales (auto dest: SeenBatch_flags)

section \<open>A keyspace with expiry\<close>

text \<open>
  A keyspace that meets the contract: entries with an optional expiry instant, a clock, and a
  schedule of connection faults, one per round trip.  A duration of zero or less means no expiry.
\<close>

record keyspace =
  k_entries :: "(string \<times> int option) list"
  k_now :: int
  k_faults :: "bool list"

fun alive :: "int \<Rightarrow> int option \<Rightarrow> bool" where
  "alive now None \<longleftrightarrow> True"
| "alive now (Some t) \<longleftrightarrow> now < t"

definition k_live :: "keyspace \<Rightarrow> string set" where
  "k_live r = set (map fst (filter (\<lambda>x. alive (k_now r) (snd x)) (k_entries r)))"

definition k_set :: "keyspace \<Rightarrow> redis_cmd \<Rightarrow> keyspace \<times> bool" where
  "k_set r c =
     (if cmd_key c \<in> k_live r then (r, False)
      else (r\<lparr>k_entries := (cmd_key c, if 0 < cmd_ttl c then Some (k_now r + cmd_ttl c) else None)
                            # k_entries r\<rparr>, True))"

definition k_setnx :: "keyspace setnx" where
  "k_setnx r c =
     (case k_faults r of
        True # fs \<Rightarrow> (r\<lparr>k_faults := fs\<rparr>, Inl (ErrorText ''i/o timeout''))
      | _ \<Rightarrow> (case k_set (r\<lparr>k_faults := tl (k_faults r)\<rparr>) c of (r', b) \<Rightarrow> (r', Inr b)))"

fun first_err :: "(go_error + bool) list \<Rightarrow> go_error option" where
  "first_err [] = None"
| "first_err (Inl err # xs) = Some err"
| "first_err (Inr b # xs) = first_err xs"

definition k_exec :: "keyspace pipe_exec" where
  "k_exec r cs =
     (case pipeline_seq k_setnx r cs of (r', xs) \<Rightarrow> (r', first_err xs, (\<lambda>i. xs ! i)))"

lemma k_live_faults [simp]: "k_live (r\<lparr>k_faults := fs\<rparr>) = k_live r"
  by (simp add: k_live_def)

lemma k_live_add [simp]:
  "k_live (r\<lparr>k_entries := x # k_entries r\<rparr>) =
     (if alive (k_now r) (snd x) then insert (fst x) (k_live r) else k_live r)"
  by (simp add: k_live_def del: set_map set_filter)

lemma k_set_live: "k_set r c = (r', b) \<Longrightarrow>
    (b \<longleftrightarrow> cmd_key c \<notin> k_live r) \<and> k_live r' = insert (cmd_key c) (k_live r)"
  by (auto simp: k_set_def split: if_splits)

lemma first_err_None: "first_err xs = None \<Longrightarrow> i < length xs \<Longrightarrow> \<exists>b. xs ! i = Inr b"
  by (induction xs arbitrary: i rule: first_err.induct) (auto simp: nth_Cons split: nat.split)

lemma pipeline_seq_length: "pipeline_seq f r cs = (r', xs) \<Longrightarrow> length xs = length cs"
  by (induction cs arbitrary: r r' xs) (auto split: prod.splits)

interpretation kr: redis k_setnx k_exec k_live
proof (unfold_locales, goal_cases)
  case (1 r k v t r' b)
  then show ?case
    by (auto simp: k_setnx_def split: list.splits bool.splits prod.splits dest: k_set_live)
next
  case (2 r cs r' res)
  then obtain xs where p: "pipeline_seq k_setnx r cs = (r', xs)" and f: "first_err xs = None"
    and res: "res = (\<lambda>i. xs ! i)"
    by (auto simp: k_exec_def split: prod.splits)
  from pipeline_seq_length [OF p] have l: "length xs = length cs" .
  with res have "map res [0..<length cs] = xs" by (auto intro: nth_equalityI)
  with p f l res show ?case by (auto dest: first_err_None)
qed

section \<open>The pipelined check against the single check\<close>

lemma seen_each_pipeline:
  assumes "pipeline_seq setnx (rd_client d) (map (\<lambda>k. SetNX k ''1'' (rd_ttl d)) ks) = (r', map Inr bs)"
  shows "seen_each setnx d ks = (d\<lparr>rd_client := r'\<rparr>, map Inr (map Not bs))"
  using assms
proof (induction ks arbitrary: d bs)
  case Nil
  then show ?case by simp
next
  case (Cons k ks)
  obtain r1 x where sx: "setnx (rd_client d) (SetNX k ''1'' (rd_ttl d)) = (r1, x)" by fastforce
  let ?d1 = "d\<lparr>rd_client := r1\<rparr>"
  from Cons.prems sx obtain b bs' where bs: "bs = b # bs'" and x: "x = Inr b"
    and "pipeline_seq setnx (rd_client ?d1) (map (\<lambda>k. SetNX k ''1'' (rd_ttl ?d1)) ks) = (r', map Inr bs')"
    by (cases bs) (auto split: prod.splits)
  from Cons.IH [OF this(3)] sx x bs show ?case by (simp add: Deduper_Seen_def)
qed

end
