(* ===== verification/Dlq.thy ===== *)
theory Dlq
  imports Sink
begin

text \<open>
  \<^verbatim>\<open>internal/dlq\<close>: the dead-letter producer.  A dead-lettered record keeps key and value and
  carries its cause and origin in four headers.  The franz-go client is the same parameter as in
  \<open>Sink\<close>; the log at the end shows that the contract \<open>kafka_log\<close> can be met.
\<close>

record 'k Producer =
  dp_client :: 'k
  dp_topic :: string

definition dlq_New ::
  "(string list \<Rightarrow> go_error + 'k) \<Rightarrow> string list \<Rightarrow> string \<Rightarrow> go_error + 'k Producer" where
  "dlq_New newClient brokers topic =
     (case newClient brokers of
        Inl err \<Rightarrow> Inl err
      | Inr client \<Rightarrow> Inr \<lparr>dp_client = client, dp_topic = topic\<rparr>)"

definition dlq_record ::
  "string \<Rightarrow> string \<Rightarrow> i32 \<Rightarrow> i64 \<Rightarrow> bytes \<Rightarrow> bytes \<Rightarrow> go_error \<Rightarrow> Record" where
  "dlq_record dlqTopic originalTopic part offset key value cause =
     \<lparr>Topic = dlqTopic, Partition = 0, Offset = 0, Key = key, RecValue = value,
      Headers =
        [(''error'', Error cause),
         (''original-topic'', originalTopic),
         (''original-partition'', dec_of_int (sint part)),
         (''original-offset'', dec_of_int (sint offset))]\<rparr>"

definition Producer_Send ::
  "'k produce \<Rightarrow> 'k Producer \<Rightarrow> string \<Rightarrow> i32 \<Rightarrow> i64 \<Rightarrow> bytes \<Rightarrow> bytes \<Rightarrow> go_error \<Rightarrow>
     'k Producer \<times> go_error option" where
  "Producer_Send produce p originalTopic part offset key value cause =
     (case produce (dp_client p)
        (dlq_record (dp_topic p) originalTopic part offset key value cause) of
        (k', err) \<Rightarrow> (p\<lparr>dp_client := k'\<rparr>, err))"

definition Producer_Close ::
  "('k \<Rightarrow> 'k \<times> go_error option) \<Rightarrow> ('k \<Rightarrow> 'k) \<Rightarrow> 'k Producer \<Rightarrow> 'k Producer" where
  "Producer_Close kflush kclose p = p\<lparr>dp_client := kclose (fst (kflush (dp_client p)))\<rparr>"

lemma Producer_Send_topic [simp]:
  "dp_topic (fst (Producer_Send produce p t pa off k v c)) = dp_topic p"
  by (simp add: Producer_Send_def split: prod.split)

lemma Producer_Send_eq_topic:
  "Producer_Send produce p t pa off k v c = (p', r) \<Longrightarrow> dp_topic p' = dp_topic p"
  by (auto simp: Producer_Send_def split: prod.splits)

text \<open>The four headers and the payload determine where the record came from.\<close>

lemma dlq_record_inject:
  assumes "dlq_record d t pa off k v c = dlq_record d' t' pa' off' k' v' c'"
  shows "d = d' \<and> t = t' \<and> pa = pa' \<and> off = off' \<and> k = k' \<and> v = v' \<and> Error c = Error c'"
  using assms by (auto simp: dlq_record_def intro: signed_word_eqI)

context kafka_log
begin

text \<open>An acknowledged send is in the dead-letter log.\<close>

lemma send_logs:
  assumes "Producer_Send produce p t pa off k v c = (p', None)"
  shows "holds (dp_client p') (dlq_record (dp_topic p) t pa off k v c)"
  using assms by (auto simp: Producer_Send_def split: prod.splits dest: produce_ack)

lemma send_keeps:
  assumes "holds (dp_client p) r"
  shows "holds (dp_client (fst (Producer_Send produce p t pa off k v c))) r"
  using produce_keeps [OF assms] by (auto simp: Producer_Send_def split: prod.splits) (metis fst_conv)

end

section \<open>An append-only log\<close>

record broker =
  b_log :: "Record list"
  b_faults :: "bool list"

definition broker_produce :: "broker produce" where
  "broker_produce b r =
     (case b_faults b of
        True # fs \<Rightarrow> (b\<lparr>b_faults := fs\<rparr>, Some (ErrorText ''not leader for partition''))
      | False # fs \<Rightarrow> (b\<lparr>b_faults := fs, b_log := b_log b @ [r]\<rparr>, None)
      | [] \<Rightarrow> (b\<lparr>b_log := b_log b @ [r]\<rparr>, None))"

definition broker_holds :: "broker \<Rightarrow> Record \<Rightarrow> bool" where
  "broker_holds b r \<longleftrightarrow> r \<in> set (b_log b)"

interpretation bl: kafka_log broker_produce broker_holds
  by unfold_locales
    (auto simp: broker_produce_def broker_holds_def split: list.splits bool.splits)

end
