(* ===== verification/Consumer.thy ===== *)
theory Consumer
  imports Timescale Dedup Dlq
begin

text \<open>
  \<^verbatim>\<open>internal/consumer\<close>: one round of the consumer takes the records of a poll, dead-letters what
  does not decode, asks the deduper about the rest, persists what is new, flushes the sink,
  dead-letters what the sink set aside, and commits.  \<open>Run\<close> is the loop of such rounds.

  Everything the consumer calls outside the repository is collected in the record \<open>env\<close>.
  Logging is left out.  The metrics collaborator is the list of calls made on it, \<open>None\<close> when the
  pointer is nil.
\<close>

section \<open>State and collaborators\<close>

datatype consumer_metric =
    ConsumedTotal_Inc
  | DedupDroppedTotal_Inc
  | DLQTotal_Inc
  | BatchFlushSeconds_Observe
  | GroupLag_Set i64

text \<open>What a poll returns, with the context's error as it stands right after the poll.\<close>

record Fetches =
  f_ctxErr :: "go_error option"
  f_isClientClosed :: bool
  f_errors :: "go_error list"
  f_records :: "Record list"

record ('s, 'r, 'q, 'c) env =
  ops :: "'s sink_ops"
  redis_exec :: "'r pipe_exec"
  dlq_produce :: "'q produce"
  pb_unmarshal :: unmarshal
  pb_marshal :: marshal
  poll :: "'c \<Rightarrow> 'c \<times> Fetches"
  commit :: "'c \<Rightarrow> 'c \<times> go_error option"

record ('s, 'r, 'q, 'c) Consumer =
  client :: 'c
  csink :: 's
  dedup :: "'r Deduper option"
  dlq :: "'q Producer option"
  group :: string
  topic :: string
  maxRetries :: int
  metrics :: "consumer_metric list option"
  consumed :: u64
  deduped :: u64
  dlqSent :: u64

record Config =
  Brokers :: "string list"
  CfgTopic :: string
  Group :: string
  MaxRetries :: int

definition consumer_New ::
  "(string list \<Rightarrow> string \<Rightarrow> string \<Rightarrow> go_error + 'c) \<Rightarrow> Config \<Rightarrow> 's \<Rightarrow> 'r Deduper option \<Rightarrow>
     'q Producer option \<Rightarrow> consumer_metric list option \<Rightarrow> go_error + ('s, 'r, 'q, 'c) Consumer" where
  "consumer_New newClient cfg s d q m =
     (case newClient (Brokers cfg) (CfgTopic cfg) (Group cfg) of
        Inl err \<Rightarrow> Inl err
      | Inr k \<Rightarrow> Inr \<lparr>client = k, csink = s, dedup = d, dlq = q, group = Group cfg,
                     topic = CfgTopic cfg, maxRetries = MaxRetries cfg, metrics = m,
                     consumed = 0, deduped = 0, dlqSent = 0\<rparr>)"

text \<open>\<^verbatim>\<open>if c.metrics != nil\<close> around one call of the metrics library.\<close>

definition metric ::
  "consumer_metric \<Rightarrow> ('s, 'r, 'q, 'c) Consumer \<Rightarrow> ('s, 'r, 'q, 'c) Consumer" where
  "metric m c = c\<lparr>metrics := map_option (\<lambda>ms. ms @ [m]) (metrics c)\<rparr>"

section \<open>Dead-lettering\<close>

definition sendToDLQ ::
  "('s, 'r, 'q, 'c) env \<Rightarrow> ('s, 'r, 'q, 'c) Consumer \<Rightarrow> string \<Rightarrow> i32 \<Rightarrow> i64 \<Rightarrow> bytes \<Rightarrow> bytes \<Rightarrow>
     go_error \<Rightarrow> ('s, 'r, 'q, 'c) Consumer" where
  "sendToDLQ env c t part offset key value cause =
     (case dlq c of
        None \<Rightarrow> c
      | Some q \<Rightarrow>
          (case Producer_Send (dlq_produce env) q t part offset key value cause of
             (q', Some err) \<Rightarrow> c\<lparr>dlq := Some q'\<rparr>
           | (q', None) \<Rightarrow>
               metric DLQTotal_Inc (c\<lparr>dlq := Some q', dlqSent := dlqSent c + 1\<rparr>)))"

section \<open>A batch\<close>

record decodedRecord =
  dr_record :: Record
  dr_event :: Event

fun decode_all ::
  "('s, 'r, 'q, 'c) env \<Rightarrow> ('s, 'r, 'q, 'c) Consumer \<Rightarrow> Record list \<Rightarrow>
     ('s, 'r, 'q, 'c) Consumer \<times> decodedRecord list" where
  "decode_all env c [] = (c, [])"
| "decode_all env c (r # rs) =
     (case DecodeRecord (pb_unmarshal env) (RecValue r) of
        Inl err \<Rightarrow>
          decode_all env
            (sendToDLQ env c (Topic r) (Partition r) (Offset r) (Key r) (RecValue r) err) rs
      | Inr e \<Rightarrow>
          (case decode_all env c rs of
             (c', ds) \<Rightarrow> (c', \<lparr>dr_record = r, dr_event = e\<rparr> # ds)))"

text \<open>The duplicate check; an error leaves the freshly made, all-false slice in place.\<close>

definition check_seen ::
  "('s, 'r, 'q, 'c) env \<Rightarrow> ('s, 'r, 'q, 'c) Consumer \<Rightarrow> decodedRecord list \<Rightarrow>
     ('s, 'r, 'q, 'c) Consumer \<times> bool list" where
  "check_seen env c decoded =
     (let seen = replicate (length decoded) False in
      case dedup c of
        None \<Rightarrow> (c, seen)
      | Some d \<Rightarrow>
          (let keys = map (\<lambda>d. IdempotencyKey (dr_event d)) decoded in
           case Deduper_SeenBatch (redis_exec env) d keys of
             (d', Inl err) \<Rightarrow> (c\<lparr>dedup := Some d'\<rparr>, seen)
           | (d', Inr s) \<Rightarrow> (c\<lparr>dedup := Some d'\<rparr>, s)))"

definition persist ::
  "('s, 'r, 'q, 'c) env \<Rightarrow> ('s, 'r, 'q, 'c) Consumer \<Rightarrow> Record \<Rightarrow> Event \<Rightarrow>
     ('s, 'r, 'q, 'c) Consumer" where
  "persist env c r e =
     (if DrainPoisoned (ops env) \<noteq> None then
        (case Write (ops env) (csink c) e of
           (s', err) \<Rightarrow>
             metric ConsumedTotal_Inc (c\<lparr>csink := s', consumed := consumed c + 1\<rparr>))
      else
        (case retry (maxRetries c) (\<lambda>s. Write (ops env) s e) (csink c) of
           (s', out) \<Rightarrow>
             (case outcome_err out of
                Some writeErr \<Rightarrow>
                  sendToDLQ env (c\<lparr>csink := s'\<rparr>) (Topic r) (Partition r) (Offset r) (Key r)
                    (RecValue r) writeErr
              | None \<Rightarrow>
                  metric ConsumedTotal_Inc (c\<lparr>csink := s', consumed := consumed c + 1\<rparr>))))"

fun persist_loop ::
  "('s, 'r, 'q, 'c) env \<Rightarrow> ('s, 'r, 'q, 'c) Consumer \<Rightarrow> decodedRecord list \<Rightarrow> bool list \<Rightarrow>
     ('s, 'r, 'q, 'c) Consumer" where
  "persist_loop env c (d # ds) (seen # bs) =
     (if seen then
        persist_loop env (metric DedupDroppedTotal_Inc (c\<lparr>deduped := deduped c + 1\<rparr>)) ds bs
      else persist_loop env (persist env c (dr_record d) (dr_event d)) ds bs)"
| "persist_loop env c _ _ = c"

definition handleBatch ::
  "('s, 'r, 'q, 'c) env \<Rightarrow> ('s, 'r, 'q, 'c) Consumer \<Rightarrow> Record list \<Rightarrow>
     ('s, 'r, 'q, 'c) Consumer" where
  "handleBatch env c records =
     (case decode_all env c records of
        (c1, decoded) \<Rightarrow>
          if length decoded = 0 then c1
          else (case check_seen env c1 decoded of
                  (c2, seen) \<Rightarrow> persist_loop env c2 decoded seen))"

section \<open>A round and the loop\<close>

definition send_poison ::
  "('s, 'r, 'q, 'c) env \<Rightarrow> PoisonedEvent \<Rightarrow> ('s, 'r, 'q, 'c) Consumer \<Rightarrow>
     ('s, 'r, 'q, 'c) Consumer" where
  "send_poison env p c =
     sendToDLQ env c (topic c) (-1) (-1) (DeviceID (PoisonEvent p))
       (marshalEvent (pb_marshal env) (PoisonEvent p)) (PoisonErr p)"

definition flush_sink ::
  "('s, 'r, 'q, 'c) env \<Rightarrow> ('s, 'r, 'q, 'c) Consumer \<Rightarrow>
     ('s, 'r, 'q, 'c) Consumer \<times> go_error option" where
  "flush_sink env c =
     (case Flush (ops env) of
        None \<Rightarrow> (c, None)
      | Some f \<Rightarrow>
          (case f (csink c) of
             (s', err) \<Rightarrow> (metric BatchFlushSeconds_Observe (c\<lparr>csink := s'\<rparr>), err)))"

definition drain_poison ::
  "('s, 'r, 'q, 'c) env \<Rightarrow> ('s, 'r, 'q, 'c) Consumer \<Rightarrow> ('s, 'r, 'q, 'c) Consumer" where
  "drain_poison env c =
     (case DrainPoisoned (ops env) of
        None \<Rightarrow> c
      | Some f \<Rightarrow> (case f (csink c) of (s', ps) \<Rightarrow> fold (send_poison env) ps (c\<lparr>csink := s'\<rparr>)))"

definition commit_offsets ::
  "('s, 'r, 'q, 'c) env \<Rightarrow> ('s, 'r, 'q, 'c) Consumer \<Rightarrow> ('s, 'r, 'q, 'c) Consumer" where
  "commit_offsets env c = c\<lparr>client := fst (commit env (client c))\<rparr>"

text \<open>The body of \<^verbatim>\<open>Run\<close> after the poll: a failed flush goes to the next round without a commit.\<close>

definition run_round ::
  "('s, 'r, 'q, 'c) env \<Rightarrow> ('s, 'r, 'q, 'c) Consumer \<Rightarrow> Record list \<Rightarrow>
     ('s, 'r, 'q, 'c) Consumer" where
  "run_round env c records =
     (case flush_sink env (handleBatch env c records) of
        (c1, Some err) \<Rightarrow> c1
      | (c1, None) \<Rightarrow> commit_offsets env (drain_poison env c1))"

text \<open>
  \<^verbatim>\<open>Run\<close> with a bound on the number of polls: \<open>None\<close> while the loop has not returned, otherwise
  the error it returns.
\<close>

fun Run ::
  "('s, 'r, 'q, 'c) env \<Rightarrow> nat \<Rightarrow> ('s, 'r, 'q, 'c) Consumer \<Rightarrow>
     ('s, 'r, 'q, 'c) Consumer \<times> go_error option option" where
  "Run env 0 c = (c, None)"
| "Run env (Suc n) c =
     (case poll env (client c) of
        (k', fetches) \<Rightarrow>
          (let c1 = c\<lparr>client := k'\<rparr> in
           if f_ctxErr fetches \<noteq> None then (c1, Some (f_ctxErr fetches))
           else if f_isClientClosed fetches then (c1, Some None)
           else Run env n (run_round env c1 (f_records fetches))))"

text \<open>The accessors of the counters, and \<^verbatim>\<open>Close\<close>, which closes the Kafka client.\<close>

definition Consumer_Consumed :: "('s, 'r, 'q, 'c) Consumer \<Rightarrow> u64" where
  "Consumer_Consumed c = consumed c"

definition Consumer_Deduped :: "('s, 'r, 'q, 'c) Consumer \<Rightarrow> u64" where
  "Consumer_Deduped c = deduped c"

definition Consumer_DLQSent :: "('s, 'r, 'q, 'c) Consumer \<Rightarrow> u64" where
  "Consumer_DLQSent c = dlqSent c"

definition Consumer_Close :: "('c \<Rightarrow> 'c) \<Rightarrow> ('s, 'r, 'q, 'c) Consumer \<Rightarrow> ('s, 'r, 'q, 'c) Consumer" where
  "Consumer_Close closeClient c = c\<lparr>client := closeClient (client c)\<rparr>"

section \<open>Shape of the result\<close>

lemma metric_frame [simp]:
  "client (metric m c) = client c" "csink (metric m c) = csink c" "dedup (metric m c) = dedup c"
  "dlq (metric m c) = dlq c" "topic (metric m c) = topic c" "maxRetries (metric m c) = maxRetries c"
  "consumed (metric m c) = consumed c" "deduped (metric m c) = deduped c"
  "dlqSent (metric m c) = dlqSent c" "group (metric m c) = group c"
  by (simp_all add: metric_def)

lemma sendToDLQ_frame [simp]:
  "client (sendToDLQ env c t p off k v e) = client c"
  "csink (sendToDLQ env c t p off k v e) = csink c"
  "dedup (sendToDLQ env c t p off k v e) = dedup c"
  "topic (sendToDLQ env c t p off k v e) = topic c"
  "maxRetries (sendToDLQ env c t p off k v e) = maxRetries c"
  "consumed (sendToDLQ env c t p off k v e) = consumed c"
  "deduped (sendToDLQ env c t p off k v e) = deduped c"
  by (simp_all add: sendToDLQ_def split: option.split prod.split)

text \<open>The records that decode, with their events, and the others with the error.\<close>

fun decodable :: "unmarshal \<Rightarrow> Record list \<Rightarrow> decodedRecord list" where
  "decodable u [] = []"
| "decodable u (r # rs) =
     (case DecodeRecord u (RecValue r) of
        Inl err \<Rightarrow> decodable u rs
      | Inr e \<Rightarrow> \<lparr>dr_record = r, dr_event = e\<rparr> # decodable u rs)"

fun malformed :: "unmarshal \<Rightarrow> Record list \<Rightarrow> (Record \<times> go_error) list" where
  "malformed u [] = []"
| "malformed u (r # rs) =
     (case DecodeRecord u (RecValue r) of
        Inl err \<Rightarrow> (r, err) # malformed u rs
      | Inr e \<Rightarrow> malformed u rs)"

definition send_malformed ::
  "('s, 'r, 'q, 'c) env \<Rightarrow> Record \<times> go_error \<Rightarrow> ('s, 'r, 'q, 'c) Consumer \<Rightarrow>
     ('s, 'r, 'q, 'c) Consumer" where
  "send_malformed env x c =
     sendToDLQ env c (Topic (fst x)) (Partition (fst x)) (Offset (fst x)) (Key (fst x))
       (RecValue (fst x)) (snd x)"

lemma decode_all_eq:
  "decode_all env c rs =
     (fold (send_malformed env) (malformed (pb_unmarshal env) rs) c, decodable (pb_unmarshal env) rs)"
  by (induction rs arbitrary: c)
    (auto simp: send_malformed_def split: sum.split prod.split)

lemma length_decodable_malformed:
  "length (decodable u rs) + length (malformed u rs) = length rs"
  by (induction rs) (auto split: sum.split)

lemma decodable_iff:
  "d \<in> set (decodable u rs) \<longleftrightarrow>
     dr_record d \<in> set rs \<and> DecodeRecord u (RecValue (dr_record d)) = Inr (dr_event d)"
  by (induction rs) (auto split: sum.splits)

lemma malformed_iff:
  "(r, err) \<in> set (malformed u rs) \<longleftrightarrow> r \<in> set rs \<and> DecodeRecord u (RecValue r) = Inl err"
  by (induction rs) (auto split: sum.splits)

lemma send_malformed_frame [simp]:
  "client (send_malformed env x c) = client c" "csink (send_malformed env x c) = csink c"
  "dedup (send_malformed env x c) = dedup c" "topic (send_malformed env x c) = topic c"
  "maxRetries (send_malformed env x c) = maxRetries c"
  "consumed (send_malformed env x c) = consumed c" "deduped (send_malformed env x c) = deduped c"
  by (simp_all add: send_malformed_def)

lemma fold_send_malformed_frame [simp]:
  "client (fold (send_malformed env) xs c) = client c"
  "csink (fold (send_malformed env) xs c) = csink c"
  "dedup (fold (send_malformed env) xs c) = dedup c"
  "topic (fold (send_malformed env) xs c) = topic c"
  "maxRetries (fold (send_malformed env) xs c) = maxRetries c"
  "consumed (fold (send_malformed env) xs c) = consumed c"
  "deduped (fold (send_malformed env) xs c) = deduped c"
  by (induction xs arbitrary: c) simp_all

text \<open>The events the duplicate check lets through.\<close>

definition passed :: "decodedRecord list \<Rightarrow> bool list \<Rightarrow> decodedRecord list" where
  "passed ds bs = map fst (filter (\<lambda>x. \<not> snd x) (zip ds bs))"

lemma passed_simps [simp]:
  "passed [] bs = []"
  "passed (d # ds) (b # bs) = (if b then passed ds bs else d # passed ds bs)"
  by (simp_all add: passed_def)

lemma passed_all [simp]: "passed ds (replicate (length ds) False) = ds"
  by (induction ds) simp_all

lemma passed_none [simp]: "passed ds (replicate (length ds) True) = []"
  by (induction ds) simp_all

lemma length_passed_le: "length (passed ds bs) \<le> length ds"
  unfolding passed_def length_map
  by (rule order_trans [OF length_filter_le]) simp

lemma passed_nth:
  assumes "i < length ds" and "length bs = length ds" and "\<not> bs ! i"
  shows "ds ! i \<in> set (passed ds bs)"
  using assms
proof (induction ds arbitrary: i bs)
  case Nil
  then show ?case by simp
next
  case (Cons d ds)
  then obtain b bs' where bs: "bs = b # bs'" "length bs' = length ds" by (cases bs) auto
  with Cons show ?case by (cases i) auto
qed

section \<open>The duplicate check always yields one flag per record\<close>

lemma length_collect_seen: "collect_seen rs = Inr bs \<Longrightarrow> length bs = length rs"
  by (induction rs arbitrary: bs rule: collect_seen.induct) (auto split: sum.splits)

lemma SeenBatch_length: "Deduper_SeenBatch exec d ks = (d', Inr bs) \<Longrightarrow> length bs = length ks"
  by (auto simp: Deduper_SeenBatch_def split: if_splits prod.splits option.splits
      dest: length_collect_seen)

definition seen_flags ::
  "('s, 'r, 'q, 'c) env \<Rightarrow> ('s, 'r, 'q, 'c) Consumer \<Rightarrow> decodedRecord list \<Rightarrow> bool list" where
  "seen_flags env c ds = snd (check_seen env c ds)"

lemma length_seen_flags [simp]: "length (seen_flags env c ds) = length ds"
  by (auto simp: seen_flags_def check_seen_def Let_def split: option.split prod.split sum.split
      dest: SeenBatch_length)

lemma check_seen_frame [simp]:
  "client (fst (check_seen env c ds)) = client c" "csink (fst (check_seen env c ds)) = csink c"
  "dlq (fst (check_seen env c ds)) = dlq c" "topic (fst (check_seen env c ds)) = topic c"
  "maxRetries (fst (check_seen env c ds)) = maxRetries c"
  "consumed (fst (check_seen env c ds)) = consumed c"
  "deduped (fst (check_seen env c ds)) = deduped c"
  "dlqSent (fst (check_seen env c ds)) = dlqSent c"
  "metrics (fst (check_seen env c ds)) = metrics c"
  by (simp_all add: check_seen_def Let_def split: option.split prod.split sum.split)

lemma seen_flags_dedup:
  "dedup c = dedup c' \<Longrightarrow> seen_flags env c ds = seen_flags env c' ds"
  by (simp add: seen_flags_def check_seen_def Let_def split: option.split prod.split sum.split)

text \<open>The early return on an empty batch changes nothing: the loops would do nothing either.\<close>

lemma check_seen_Nil: "check_seen env c [] = (c, [])"
  by (cases "dedup c") (simp_all add: check_seen_def Deduper_SeenBatch_def)

lemma handleBatch_eq:
  "handleBatch env c rs =
     (let ds = decodable (pb_unmarshal env) rs;
          c1 = fold (send_malformed env) (malformed (pb_unmarshal env) rs) c
      in persist_loop env (fst (check_seen env c1 ds)) ds (seen_flags env c ds))"
proof -
  let ?c1 = "fold (send_malformed env) (malformed (pb_unmarshal env) rs) c"
  have "seen_flags env c ds = snd (check_seen env ?c1 ds)" for ds
    unfolding seen_flags_def [symmetric] by (rule seen_flags_dedup) simp
  then show ?thesis
    by (simp add: handleBatch_def decode_all_eq check_seen_Nil Let_def split: prod.split)
qed

section \<open>Buffered sinks\<close>

lemma persist_poison:
  assumes "DrainPoisoned (ops env) \<noteq> None"
  shows "persist env c r e =
    metric ConsumedTotal_Inc
      (c\<lparr>csink := fst (Write (ops env) (csink c) e), consumed := consumed c + 1\<rparr>)"
  using assms by (simp add: persist_def split: prod.split)

lemma persist_loop_poison:
  assumes "DrainPoisoned (ops env) \<noteq> None" and "length bs = length ds"
  shows "csink (persist_loop env c ds bs) =
      fold (\<lambda>e s. fst (Write (ops env) s e)) (map dr_event (passed ds bs)) (csink c)"
    and "consumed (persist_loop env c ds bs) = consumed c + of_nat (length (passed ds bs))"
    and "deduped (persist_loop env c ds bs) + of_nat (length (passed ds bs)) =
      deduped c + of_nat (length ds)"
    and "dlq (persist_loop env c ds bs) = dlq c"
    and "dlqSent (persist_loop env c ds bs) = dlqSent c"
    and "dedup (persist_loop env c ds bs) = dedup c"
    and "client (persist_loop env c ds bs) = client c"
    and "topic (persist_loop env c ds bs) = topic c"
  using assms(2)
  by (induction ds bs arbitrary: c rule: list_induct2')
    (simp_all add: persist_poison [OF assms(1)] algebra_simps)

lemma handleBatch_poison:
  assumes "DrainPoisoned (ops env) \<noteq> None"
  defines "ds rs \<equiv> decodable (pb_unmarshal env) rs"
  shows "csink (handleBatch env c rs) =
      fold (\<lambda>e s. fst (Write (ops env) s e))
        (map dr_event (passed (ds rs) (seen_flags env c (ds rs)))) (csink c)"
    and "consumed (handleBatch env c rs) =
      consumed c + of_nat (length (passed (ds rs) (seen_flags env c (ds rs))))"
    and "deduped (handleBatch env c rs) +
      of_nat (length (passed (ds rs) (seen_flags env c (ds rs)))) =
      deduped c + of_nat (length (ds rs))"
    and "dlq (handleBatch env c rs) =
      dlq (fold (send_malformed env) (malformed (pb_unmarshal env) rs) c)"
    and "dlqSent (handleBatch env c rs) =
      dlqSent (fold (send_malformed env) (malformed (pb_unmarshal env) rs) c)"
    and "client (handleBatch env c rs) = client c"
    and "topic (handleBatch env c rs) = topic c"
  unfolding ds_def handleBatch_eq Let_def
  by (simp_all add: persist_loop_poison [OF assms(1)])

lemma persist_dedup [simp]: "dedup (persist env c r e) = dedup c"
  by (simp add: persist_def split: prod.split option.split)

lemma persist_loop_dedup [simp]: "dedup (persist_loop env c ds bs) = dedup c"
  by (induction ds bs arbitrary: c rule: list_induct2') simp_all

text \<open>The duplicate check is asked even when it then drops everything: it marks the keys.\<close>

lemma handleBatch_dedup:
  assumes "dedup c = Some d"
    and "Deduper_SeenBatch (redis_exec env) d
      (map (\<lambda>d. IdempotencyKey (dr_event d)) (decodable (pb_unmarshal env) rs)) = (d', r)"
  shows "dedup (handleBatch env c rs) = Some d'"
  using assms by (simp add: handleBatch_eq Let_def check_seen_def split: sum.split)

section \<open>The dead-letter log\<close>

definition dead_lettered ::
  "('q \<Rightarrow> Record \<Rightarrow> bool) \<Rightarrow> ('s, 'r, 'q, 'c) Consumer \<Rightarrow> Record \<Rightarrow> bool" where
  "dead_lettered holdsq c r \<longleftrightarrow> (case dlq c of None \<Rightarrow> False | Some q \<Rightarrow> holdsq (dp_client q) r)"

definition dlq_topic_of :: "('s, 'r, 'q, 'c) Consumer \<Rightarrow> string option" where
  "dlq_topic_of c = map_option dp_topic (dlq c)"

text \<open>A broker that acknowledges every produce.\<close>

definition always_acks :: "'k produce \<Rightarrow> bool" where
  "always_acks produce \<longleftrightarrow> (\<forall>k r. snd (produce k r) = None)"

lemma dlq_topic_sendToDLQ [simp]: "dlq_topic_of (sendToDLQ env c t p off k v e) = dlq_topic_of c"
  by (auto simp: dlq_topic_of_def sendToDLQ_def split: option.split prod.split
      dest: Producer_Send_eq_topic)

context kafka_log
begin

lemma sendToDLQ_keeps:
  assumes "dlq_produce env = produce" and "dead_lettered holds c x"
  shows "dead_lettered holds (sendToDLQ env c t p off k v e) x"
proof -
  from assms(2) obtain q where q: "dlq c = Some q" "holds (dp_client q) x"
    by (auto simp: dead_lettered_def split: option.splits)
  obtain q' r where s: "Producer_Send produce q t p off k v e = (q', r)" by fastforce
  with send_keeps [OF q(2), of t p off k v e] have "holds (dp_client q') x" by simp
  with q s assms(1) show ?thesis
    by (auto simp: sendToDLQ_def dead_lettered_def split: option.split)
qed

lemma sendToDLQ_lands:
  assumes "dlq_produce env = produce" and "always_acks produce" and "dlq_topic_of c = Some dt"
  shows "dead_lettered holds (sendToDLQ env c t p off k v e) (dlq_record dt t p off k v e)"
proof -
  from assms(3) obtain q where q: "dlq c = Some q" "dp_topic q = dt"
    by (auto simp: dlq_topic_of_def)
  have "snd (Producer_Send produce q t p off k v e) = None"
    using assms(2) by (auto simp: Producer_Send_def always_acks_def split: prod.split) (metis snd_conv)
  then obtain q' where s: "Producer_Send produce q t p off k v e = (q', None)"
    by (metis prod.collapse)
  with send_logs [OF s] q assms(1) show ?thesis
    by (simp add: sendToDLQ_def dead_lettered_def)
qed

lemma fold_sends_keep:
  assumes "dead_lettered holds c x"
    and "\<And>y c. dead_lettered holds c x \<Longrightarrow> dead_lettered holds (f y c) x"
  shows "dead_lettered holds (fold f ys c) x"
  using assms by (intro fold_mono_fact [where P = "\<lambda>c. dead_lettered holds c x"])

text \<open>A loop of sends dead-letters every item it is given, \<open>g\<close> being the record of an item.\<close>

lemma fold_sends_land:
  assumes "dlq_topic_of c = Some dt" and "y \<in> set ys"
    and "\<And>y c x. dead_lettered holds c x \<Longrightarrow> dead_lettered holds (f y c) x"
    and "\<And>y c. dlq_topic_of (f y c) = dlq_topic_of c"
    and "\<And>y c. dlq_topic_of c = Some dt \<Longrightarrow> dead_lettered holds (f y c) (g y)"
  shows "dead_lettered holds (fold f ys c) (g y)"
  using assms(1,2)
proof (induction ys arbitrary: c)
  case Nil
  then show ?case by simp
next
  case (Cons z ys)
  have t: "dlq_topic_of (f z c) = Some dt" using Cons.prems(1) assms(4) by simp
  show ?case
  proof (cases "y \<in> set ys")
    case True
    with Cons.IH [OF t] show ?thesis by simp
  next
    case False
    with Cons.prems(2) have "y = z" by simp
    with assms(5) [OF Cons.prems(1)] show ?thesis
      by (auto intro: fold_sends_keep assms(3))
  qed
qed

end

lemma dlq_topic_fold:
  assumes "\<And>y c. dlq_topic_of (f y c) = dlq_topic_of c"
  shows "dlq_topic_of (fold f ys c) = dlq_topic_of c"
  using assms by (induction ys arbitrary: c) auto

text \<open>With a broker that acknowledges, each send counts once.\<close>

lemma sendToDLQ_counts:
  assumes "always_acks (dlq_produce env)" and "dlq c \<noteq> None"
  shows "dlqSent (sendToDLQ env c t p off k v e) = dlqSent c + 1"
    and "dlq (sendToDLQ env c t p off k v e) \<noteq> None"
proof -
  from assms(2) obtain q where q: "dlq c = Some q" by auto
  have "snd (Producer_Send (dlq_produce env) q t p off k v e) = None"
    using assms(1) by (auto simp: Producer_Send_def always_acks_def split: prod.split) (metis snd_conv)
  then obtain q' where "Producer_Send (dlq_produce env) q t p off k v e = (q', None)"
    by (metis prod.collapse)
  with q show "dlqSent (sendToDLQ env c t p off k v e) = dlqSent c + 1"
    and "dlq (sendToDLQ env c t p off k v e) \<noteq> None"
    by (simp_all add: sendToDLQ_def metric_def)
qed

lemma fold_send_malformed_counts:
  assumes "always_acks (dlq_produce env)" and "dlq c \<noteq> None"
  shows "dlqSent (fold (send_malformed env) xs c) = dlqSent c + of_nat (length xs)"
  using assms(2)
  by (induction xs arbitrary: c)
    (simp_all add: send_malformed_def sendToDLQ_counts [OF assms(1)] algebra_simps del: not_None_eq)

section \<open>Counting a batch\<close>

definition handled_total :: "('s, 'r, 'q, 'c) Consumer \<Rightarrow> u64" where
  "handled_total c = consumed c + deduped c + dlqSent c"

lemma persist_counts:
  assumes "always_acks (dlq_produce env)" and "dlq c \<noteq> None"
  shows "handled_total (persist env c r e) = handled_total c + 1 \<and> dlq (persist env c r e) \<noteq> None"
proof (cases "DrainPoisoned (ops env) \<noteq> None")
  case True
  with assms(2) show ?thesis by (simp add: persist_poison handled_total_def)
next
  case False
  obtain s' out where r: "retry (maxRetries c) (\<lambda>s. Write (ops env) s e) (csink c) = (s', out)"
    by (cases "retry (maxRetries c) (\<lambda>s. Write (ops env) s e) (csink c)")
  have "dlq (c\<lparr>csink := s'\<rparr>) \<noteq> None" using assms(2) by simp
  note send = sendToDLQ_counts [OF assms(1) this]
  show ?thesis
    using False r assms(2) by (cases "outcome_err out")
      (simp_all add: persist_def handled_total_def send del: not_None_eq)
qed

lemma persist_loop_counts:
  assumes "always_acks (dlq_produce env)" and "length bs = length ds" and "dlq c \<noteq> None"
  shows "handled_total (persist_loop env c ds bs) = handled_total c + of_nat (length ds)"
  using assms(2,3)
proof (induction ds bs arbitrary: c rule: list_induct2')
  case (4 d ds b bs)
  show ?case
  proof (cases b)
    case True
    with 4 show ?thesis by (simp add: handled_total_def algebra_simps)
  next
    case False
    with 4 persist_counts [OF assms(1), of c] show ?thesis
      by (simp add: algebra_simps del: not_None_eq)
  qed
qed simp_all

lemma fold_send_malformed_dlq:
  assumes "always_acks (dlq_produce env)" and "dlq c \<noteq> None"
  shows "dlq (fold (send_malformed env) xs c) \<noteq> None"
  using assms(2)
  by (rule fold_mono_fact [where P = "\<lambda>c. dlq c \<noteq> None", rotated])
    (simp add: send_malformed_def sendToDLQ_counts(2) [OF assms(1)] del: not_None_eq)

lemma handleBatch_counts:
  assumes "always_acks (dlq_produce env)" and "dlq c \<noteq> None"
  shows "handled_total (handleBatch env c rs) = handled_total c + of_nat (length rs)"
proof -
  let ?u = "pb_unmarshal env"
  let ?c1 = "fold (send_malformed env) (malformed ?u rs) c"
  let ?c2 = "fst (check_seen env ?c1 (decodable ?u rs))"
  have "dlq ?c2 \<noteq> None" using fold_send_malformed_dlq [OF assms] by simp
  from persist_loop_counts [OF assms(1) _ this]
  have "handled_total (handleBatch env c rs) = handled_total ?c2 + of_nat (length (decodable ?u rs))"
    by (simp add: handleBatch_eq Let_def)
  moreover have "handled_total ?c2 = handled_total c + of_nat (length (malformed ?u rs))"
    using fold_send_malformed_counts [OF assms] by (simp add: handled_total_def)
  moreover have "of_nat (length rs) =
      (of_nat (length (decodable ?u rs)) + of_nat (length (malformed ?u rs)) :: u64)"
    using length_decodable_malformed [of ?u rs] by (metis of_nat_add)
  ultimately show ?thesis by (simp add: algebra_simps)
qed

section \<open>Counters and metrics agree\<close>

text \<open>
  Each counter is the number of calls made on the metric of the same name, as long as a metrics
  collaborator is attached.
\<close>

definition metrics_agree :: "('s, 'r, 'q, 'c) Consumer \<Rightarrow> bool" where
  "metrics_agree c \<longleftrightarrow>
     (case metrics c of
        None \<Rightarrow> True
      | Some ms \<Rightarrow>
          consumed c = of_nat (count_list ms ConsumedTotal_Inc) \<and>
          deduped c = of_nat (count_list ms DedupDroppedTotal_Inc) \<and>
          dlqSent c = of_nat (count_list ms DLQTotal_Inc))"

lemma metrics_agree_iff:
  "metrics_agree c \<longleftrightarrow> (\<forall>ms. metrics c = Some ms \<longrightarrow>
     consumed c = of_nat (count_list ms ConsumedTotal_Inc) \<and>
     deduped c = of_nat (count_list ms DedupDroppedTotal_Inc) \<and>
     dlqSent c = of_nat (count_list ms DLQTotal_Inc))"
  by (simp add: metrics_agree_def split: option.split)

lemma metrics_agree_cong:
  "metrics c' = metrics c \<Longrightarrow> consumed c' = consumed c \<Longrightarrow> deduped c' = deduped c \<Longrightarrow>
    dlqSent c' = dlqSent c \<Longrightarrow> metrics_agree c' = metrics_agree c"
  by (simp add: metrics_agree_iff)

lemma agree_metric_other:
  assumes "m \<noteq> ConsumedTotal_Inc" "m \<noteq> DedupDroppedTotal_Inc" "m \<noteq> DLQTotal_Inc"
  shows "metrics_agree (metric m c) = metrics_agree c"
  using assms by (auto simp: metrics_agree_iff metric_def split: option.split)

lemma agree_sendToDLQ [keeps_rules]:
  "metrics_agree c \<Longrightarrow> metrics_agree (sendToDLQ env c t p off k v e)"
  by (auto simp: sendToDLQ_def metrics_agree_iff metric_def algebra_simps
      split: option.splits prod.splits)

lemma agree_persist [keeps_rules]: "metrics_agree c \<Longrightarrow> metrics_agree (persist env c r e)"
proof -
  assume a: "metrics_agree c"
  then have "metrics_agree (c\<lparr>csink := s'\<rparr>)" for s' by (simp add: metrics_agree_iff)
  then have "metrics_agree (sendToDLQ env (c\<lparr>csink := s'\<rparr>) t p off k v err)" for s' t p off k v err
    by (rule agree_sendToDLQ)
  moreover have "metrics_agree (metric ConsumedTotal_Inc (c\<lparr>csink := s', consumed := consumed c + 1\<rparr>))"
    for s' using a by (auto simp: metrics_agree_iff metric_def algebra_simps split: option.splits)
  ultimately show ?thesis by (auto simp: persist_def split: prod.split option.split)
qed

lemma agree_persist_loop [keeps_rules]:
  "metrics_agree c \<Longrightarrow> metrics_agree (persist_loop env c ds bs)"
proof (induction ds bs arbitrary: c rule: list_induct2')
  case (4 d ds b bs)
  have "metrics_agree (metric DedupDroppedTotal_Inc (c\<lparr>deduped := deduped c + 1\<rparr>))"
    using "4.prems" by (auto simp: metrics_agree_iff metric_def algebra_simps split: option.splits)
  with 4 show ?case by (simp add: agree_persist)
qed simp_all

lemma agree_handleBatch [keeps_rules]:
  "metrics_agree c \<Longrightarrow> metrics_agree (handleBatch env c rs)"
proof -
  assume a: "metrics_agree c"
  let ?c1 = "fold (send_malformed env) (malformed (pb_unmarshal env) rs) c"
  have "metrics_agree ?c1"
    using a by (rule fold_invariant) (simp add: send_malformed_def agree_sendToDLQ)
  then have "metrics_agree (fst (check_seen env ?c1 ds))" for ds
    by (subst metrics_agree_cong [of _ ?c1]) simp_all
  then show ?thesis by (simp add: handleBatch_eq Let_def agree_persist_loop)
qed

lemma agree_run_round [keeps_rules]:
  assumes "metrics_agree c" shows "metrics_agree (run_round env c rs)"
proof -
  let ?h = "handleBatch env c rs"
  have sink: "metrics_agree (x\<lparr>csink := s\<rparr>) = metrics_agree x" for x :: "('a,'b,'c,'d) Consumer" and s
    by (simp add: metrics_agree_iff)
  have flush: "metrics_agree (fst (flush_sink env ?h))"
    using agree_handleBatch [OF assms]
    by (auto simp: flush_sink_def agree_metric_other sink split: option.split prod.split)
  have sends: "metrics_agree (fold (send_poison env) ps x)" if "metrics_agree x" for ps x
    using that by (rule fold_invariant) (simp add: send_poison_def agree_sendToDLQ)
  have drain: "metrics_agree (drain_poison env x)" if "metrics_agree x" for x
  proof -
    from that have "metrics_agree (x\<lparr>csink := s'\<rparr>)" for s' by (simp add: sink)
    then have "metrics_agree (fold (send_poison env) ps (x\<lparr>csink := s'\<rparr>))" for ps s'
      by (rule sends)
    with that show ?thesis by (simp add: drain_poison_def split: option.split prod.split)
  qed
  have "metrics_agree (commit_offsets env x)" if "metrics_agree x" for x
    using that by (simp add: commit_offsets_def metrics_agree_iff)
  with flush drain show ?thesis
    by (auto simp: run_round_def split: prod.splits option.splits)
qed

lemma Run_more_fuel: "Run env m c = (c', Some r) \<Longrightarrow> Run env (m + k) c = (c', Some r)"
proof (induction m arbitrary: c)
  case (Suc m)
  then show ?case by (auto simp: Let_def split: prod.splits if_splits)
qed simp

lemma agree_Run: "metrics_agree c \<Longrightarrow> metrics_agree (fst (Run env n c))"
proof (induction n arbitrary: c)
  case (Suc n)
  have "metrics_agree (c\<lparr>client := k\<rparr>)" for k using Suc.prems by (simp add: metrics_agree_iff)
  with Suc.IH show ?case by (auto simp: Let_def split: prod.split intro: agree_run_round)
qed simp

end
