(* ===== verification/Schema.thy ===== *)
theory Schema
  imports Timescale
begin

text \<open>
  The table of \<^verbatim>\<open>deploy/sql/schema.sql\<close>: five \<^verbatim>\<open>NOT NULL\<close> columns and the unique index on
  \<^verbatim>\<open>(idempotency_key, event_time)\<close>.  The database product is not part of the repository; this
  theory is the part of its documented behaviour the schema fixes, and it shows that the contract
  \<open>timescale_db\<close> can be met.  Which statements fail for reasons outside the schema (a lost
  connection) is data of the state: a list of upcoming faults, consumed one per statement.
\<close>

record pg =
  pg_rows :: "row list"
  pg_faults :: "bool list"

text \<open>
  \<^verbatim>\<open>TIMESTAMPTZ\<close> has microsecond resolution, so the unique index sees the time without its last
  three digits.  \<^verbatim>\<open>TEXT\<close> cannot hold a zero byte.
\<close>

fun index_key :: "row \<Rightarrow> (string \<times> int) option" where
  "index_key [CText d, CTime t, CText m, CFloat v, CText k] = Some (k, t div 1000)"
| "index_key _ = None"

fun column_ok :: "cell \<Rightarrow> bool" where
  "column_ok (CText s) \<longleftrightarrow> CHR 0x00 \<notin> set s"
| "column_ok (CTime _) \<longleftrightarrow> True"
| "column_ok (CFloat _) \<longleftrightarrow> True"

definition row_ok :: "row \<Rightarrow> bool" where
  "row_ok r \<longleftrightarrow> index_key r \<noteq> None \<and> list_all column_ok r"

definition pg_keys :: "pg \<Rightarrow> (string \<times> int) option list" where
  "pg_keys db = map index_key (pg_rows db)"

definition pg_holds :: "pg \<Rightarrow> row \<Rightarrow> bool" where
  "pg_holds db r \<longleftrightarrow> index_key r \<in> set (pg_keys db)"

text \<open>One statement meets the next fault of the schedule, if any.\<close>

definition pg_fault :: "pg \<Rightarrow> pg \<times> bool" where
  "pg_fault db =
     (case pg_faults db of [] \<Rightarrow> (db, False) | f # fs \<Rightarrow> (db\<lparr>pg_faults := fs\<rparr>, f))"

text \<open>\<^verbatim>\<open>COPY\<close> is one statement: all rows or none, and a key taken twice fails it.\<close>

definition pg_copy :: "pg copy_from" where
  "pg_copy db t cols rs =
     (case pg_fault db of
        (db1, True) \<Rightarrow> (db1, Some (ErrorText ''connection refused''))
      | (db1, False) \<Rightarrow>
          if t \<noteq> telemetry_table \<or> cols \<noteq> telemetry_columns \<or> \<not> list_all row_ok rs
          then (db1, Some (ErrorText ''invalid input''))
          else if \<not> distinct (pg_keys db1 @ map index_key rs)
          then (db1, Some (ErrorText ''duplicate key value violates unique constraint''))
          else (db1\<lparr>pg_rows := pg_rows db1 @ rs\<rparr>, None))"

text \<open>\<^verbatim>\<open>INSERT ... ON CONFLICT DO NOTHING\<close>: a taken key is no error and changes nothing.\<close>

definition pg_exec :: "pg exec_sql" where
  "pg_exec db q r =
     (case pg_fault db of
        (db1, True) \<Rightarrow> (db1, Some (ErrorText ''connection refused''))
      | (db1, False) \<Rightarrow>
          if q \<noteq> insert_sql \<or> \<not> row_ok r then (db1, Some (ErrorText ''invalid input''))
          else if index_key r \<in> set (pg_keys db1) then (db1, None)
          else (db1\<lparr>pg_rows := pg_rows db1 @ [r]\<rparr>, None))"

lemma pg_fault_rows [simp]: "pg_rows (fst (pg_fault db)) = pg_rows db"
  by (simp add: pg_fault_def split: list.split)

lemma pg_fault_eq: "pg_fault db = (db1, f) \<Longrightarrow> pg_rows db1 = pg_rows db"
  by (metis fst_conv pg_fault_rows)

interpretation pg: timescale_db pg_copy pg_exec pg_holds
proof (unfold_locales, goal_cases)
  case (1 db rs db' r)
  then show ?case
    by (auto simp: pg_copy_def pg_holds_def pg_keys_def split: prod.splits bool.splits if_splits)
next
  case (2 db r t cols rs)
  then show ?case
    by (auto simp: pg_copy_def pg_holds_def pg_keys_def
        split: prod.splits bool.splits dest: pg_fault_eq)
next
  case (3 db r db')
  then show ?case
    by (auto simp: pg_exec_def pg_holds_def pg_keys_def split: prod.splits bool.splits if_splits)
next
  case (4 db r q r')
  then show ?case
    by (auto simp: pg_exec_def pg_holds_def pg_keys_def
        split: prod.splits bool.splits dest: pg_fault_eq)
qed

section \<open>The unique index\<close>

definition pg_unique :: "pg \<Rightarrow> bool" where
  "pg_unique db \<longleftrightarrow> distinct (pg_keys db)"

lemma pg_copy_unique: "pg_unique db \<Longrightarrow> pg_unique (fst (pg_copy db t cols rs))"
  by (auto simp: pg_copy_def pg_unique_def pg_keys_def
      split: prod.splits bool.splits dest: pg_fault_eq)

lemma pg_exec_unique: "pg_unique db \<Longrightarrow> pg_unique (fst (pg_exec db q r))"
  by (auto simp: pg_exec_def pg_unique_def pg_keys_def
      split: prod.splits bool.splits dest: pg_fault_eq)

end
