(* ===== verification/Delivery.thy ===== *)
theory Delivery
  imports Consumer Schema
begin

text \<open>
  The guarantees of the consumer side as a whole: what a committed round has done with every
  record it fetched, what a redelivered batch does, and in which situations a record is
  committed although it is neither stored nor dead-lettered.
\<close>

section \<open>One round over a buffered sink\<close>

context poison_sink
begin

lemma run_round_sink:
  assumes ops: "ops env = \<lparr>Write = put, Flush = Some flush, DrainPoisoned = Some drain\<rparr>"
  defines "ds \<equiv> \<lambda>rs. decodable (pb_unmarshal env) rs"
  defines "s1 \<equiv> \<lambda>c rs. fold (\<lambda>e s. fst (put s e))
    (map dr_event (passed (ds rs) (seen_flags env c (ds rs)))) (csink c)"
  shows "\<exists>X. dlq X = dlq (fold (send_malformed env) (malformed (pb_unmarshal env) rs) c) \<and>
      topic X = topic c \<and> client X = client c \<and> csink X = fst (drain (fst (flush (s1 c rs)))) \<and>
      run_round env c rs =
        commit_offsets env (fold (send_poison env) (poisoned (fst (flush (s1 c rs)))) X)"
proof -
  let ?h = "handleBatch env c rs"
  have po: "DrainPoisoned (ops env) \<noteq> None" by (simp add: ops)
  have hs: "csink ?h = s1 c rs"
    using handleBatch_poison(1) [OF po] by (simp add: s1_def ds_def ops)
  obtain s2 where s2: "flush (s1 c rs) = (s2, None)"
    using flush_nil [of "s1 c rs"] by (metis prod.collapse)
  let ?c2 = "metric BatchFlushSeconds_Observe (?h\<lparr>csink := s2\<rparr>)"
  let ?X = "?c2\<lparr>csink := fst (drain s2)\<rparr>"
  have "flush_sink env ?h = (?c2, None)" by (simp add: flush_sink_def ops hs s2)
  moreover have "drain_poison env ?c2 = fold (send_poison env) (poisoned s2) ?X"
    using drain_returns [of s2] by (cases "drain s2") (simp add: drain_poison_def ops)
  ultimately have "run_round env c rs = commit_offsets env (fold (send_poison env) (poisoned s2) ?X)"
    by (simp add: run_round_def)
  then show ?thesis
    by (intro exI [of _ ?X]) (simp add: s2 handleBatch_poison [OF po])
qed

end

lemma send_poison_frame [simp]:
  "client (send_poison env p c) = client c" "csink (send_poison env p c) = csink c"
  "topic (send_poison env p c) = topic c" "dlq_topic_of (send_poison env p c) = dlq_topic_of c"
  "dedup (send_poison env p c) = dedup c" "maxRetries (send_poison env p c) = maxRetries c"
  by (simp_all add: send_poison_def)

lemma fold_send_poison_frame [simp]:
  "client (fold (send_poison env) ps c) = client c"
  "csink (fold (send_poison env) ps c) = csink c"
  "topic (fold (send_poison env) ps c) = topic c"
  by (induction ps arbitrary: c) simp_all

lemma commit_offsets_frame [simp]:
  "csink (commit_offsets env c) = csink c" "dlq (commit_offsets env c) = dlq c"
  "client (commit_offsets env c) = fst (commit env (client c))"
  by (simp_all add: commit_offsets_def)

lemma dead_lettered_cong:
  "dlq c = dlq c' \<Longrightarrow> dead_lettered h c x = dead_lettered h c' x"
  by (simp add: dead_lettered_def)

lemma dlq_topic_cong: "dlq c = dlq c' \<Longrightarrow> dlq_topic_of c = dlq_topic_of c'"
  by (simp add: dlq_topic_of_def)

text \<open>The record a poisoned event is dead-lettered as.\<close>

definition poison_record ::
  "('s, 'r, 'q, 'c) env \<Rightarrow> string \<Rightarrow> string \<Rightarrow> PoisonedEvent \<Rightarrow> Record" where
  "poison_record env dt t p =
     dlq_record dt t (-1) (-1) (DeviceID (PoisonEvent p))
       (marshalEvent (pb_marshal env) (PoisonEvent p)) (PoisonErr p)"

context kafka_log
begin

lemma malformed_land:
  assumes "dlq_produce env = produce" and "always_acks produce" and "dlq_topic_of c = Some dt"
    and "(r, err) \<in> set xs"
  shows "dead_lettered holds (fold (send_malformed env) xs c)
    (dlq_record dt (Topic r) (Partition r) (Offset r) (Key r) (RecValue r) err)"
proof -
  let ?g = "\<lambda>x. dlq_record dt (Topic (fst x)) (Partition (fst x)) (Offset (fst x)) (Key (fst x))
    (RecValue (fst x)) (snd x)"
  have "dead_lettered holds (fold (send_malformed env) xs c) (?g (r, err))"
    using assms(3,4)
    by (rule fold_sends_land)
      (auto simp: send_malformed_def intro: sendToDLQ_keeps [OF assms(1)]
        sendToDLQ_lands [OF assms(1,2)])
  then show ?thesis by simp
qed

lemma poison_keeps:
  "dlq_produce env = produce \<Longrightarrow> dead_lettered holds c x \<Longrightarrow>
    dead_lettered holds (fold (send_poison env) ps c) x"
  by (rule fold_sends_keep) (auto simp: send_poison_def intro: sendToDLQ_keeps)

lemma poison_lands:
  assumes "dlq_produce env = produce" and "always_acks produce" and "dlq_topic_of c = Some dt"
    and "p \<in> set ps" and "topic c = t"
  shows "dead_lettered holds (fold (send_poison env) ps c) (poison_record env dt t p)"
  using assms(3-5)
proof (induction ps arbitrary: c)
  case Nil
  then show ?case by simp
next
  case (Cons a ps)
  show ?case
  proof (cases "p \<in> set ps")
    case True
    with Cons show ?thesis by simp
  next
    case False
    with Cons.prems have "p = a" by simp
    have "dead_lettered holds (send_poison env a c) (poison_record env dt t a)"
      unfolding send_poison_def poison_record_def Cons.prems(3)
      by (rule sendToDLQ_lands [OF assms(1,2) Cons.prems(1)])
    with \<open>p = a\<close> show ?thesis by (simp add: poison_keeps [OF assms(1)])
  qed
qed

end

lemma dlq_topic_send_malformed:
  "dlq_topic_of (fold (send_malformed env) xs c) = dlq_topic_of c"
  by (rule dlq_topic_fold) (simp add: send_malformed_def)

section \<open>What the duplicate check decides\<close>

definition known_keys ::
  "('r \<Rightarrow> string set) \<Rightarrow> ('s, 'r, 'q, 'c) Consumer \<Rightarrow> string set" where
  "known_keys live c = (case dedup c of None \<Rightarrow> {} | Some d \<Rightarrow> live (rd_client d))"

context redis
begin

text \<open>
  Of every decoded record whose key was not known, one record of the batch with that key passes,
  whether the check answered, failed or is switched off.
\<close>

lemma some_record_passes:
  assumes "redis_exec env = exec" and "d \<in> set ds"
    and "IdempotencyKey (dr_event d) \<notin> known_keys live c"
  shows "\<exists>d' \<in> set (passed ds (seen_flags env c ds)).
    IdempotencyKey (dr_event d') = IdempotencyKey (dr_event d)"
proof -
  let ?ks = "map (\<lambda>d. IdempotencyKey (dr_event d)) ds"
  have all: ?thesis if "seen_flags env c ds = replicate (length ds) False"
    using assms(2) that by auto
  show ?thesis
  proof (cases "dedup c")
    case None
    then show ?thesis by (intro all) (simp add: seen_flags_def check_seen_def)
  next
    case (Some dd)
    obtain dd' r where sb: "Deduper_SeenBatch exec dd ?ks = (dd', r)" by fastforce
    show ?thesis
    proof (cases r)
      case (Inl err)
      with sb Some assms(1) show ?thesis
        by (intro all) (simp add: seen_flags_def check_seen_def)
    next
      case (Inr bs)
      with sb Some assms(1) have fl: "seen_flags env c ds = bs"
        by (simp add: seen_flags_def check_seen_def)
      have "\<exists>!i. i < length ?ks \<and> ?ks ! i = IdempotencyKey (dr_event d) \<and> \<not> bs ! i"
        using dd.first_occurrence_passes [of dd ?ks dd' bs "IdempotencyKey (dr_event d)"]
          sb Inr assms(2,3) Some by (auto simp: known_keys_def)
      then obtain i where "i < length ds" "?ks ! i = IdempotencyKey (dr_event d)" "\<not> bs ! i"
        by auto
      with passed_nth [of i ds bs] fl length_seen_flags [of env c ds] show ?thesis by force
    qed
  qed
qed

text \<open>A batch whose keys are all known and whose check answers is dropped as a whole.\<close>

lemma known_batch_passes_nothing:
  assumes "redis_exec env = exec" and "dedup c = Some d"
    and "Deduper_SeenBatch exec d (map (\<lambda>d. IdempotencyKey (dr_event d)) ds) = (d', Inr bs)"
    and "(\<lambda>d. IdempotencyKey (dr_event d)) ` set ds \<subseteq> live (rd_client d)"
  shows "seen_flags env c ds = replicate (length ds) True"
  using dd.replay_all_seen [OF assms(3)] assms by (simp add: seen_flags_def check_seen_def)

end


section \<open>Fixtures for the concrete runs\<close>

text \<open>
  A two-message codec: the value of a record is a tag byte, the device and nothing else, so that
  every concrete run below evaluates.  The empty value does not decode.
\<close>

definition ex_event :: "string \<Rightarrow> Event" where
  "ex_event d = \<lparr>DeviceID = d, IdempotencyKey = d, EventTimeUnixNanos = 42, Metric = ''m'', Value = 0\<rparr>"

definition ex_unmarshal :: unmarshal where
  "ex_unmarshal b =
     (if b = [] then Inl (ErrorText ''proto: cannot parse'') else Inr (telemetry_of_event (ex_event b)))"

definition ex_marshal :: marshal where
  "ex_marshal m =
     (if m = telemetry_of_event (ex_event (pb_DeviceId m)) \<and> pb_DeviceId m \<noteq> []
      then Inr (pb_DeviceId m) else Inl (ErrorText ''proto: unsupported''))"

definition ex_record :: "bytes \<Rightarrow> Record" where
  "ex_record v = \<lparr>Topic = ''t'', Partition = 3, Offset = 7, Key = v, RecValue = v, Headers = []\<rparr>"

text \<open>The broker of the fixtures without its fault schedule: it acknowledges every produce.\<close>

definition ack_produce :: "broker produce" where
  "ack_produce b r = (b\<lparr>b_log := b_log b @ [r]\<rparr>, None)"

lemma ack_produce_log: "kafka_log ack_produce broker_holds"
  by unfold_locales (auto simp: ack_produce_def broker_holds_def)

lemma ack_produce_acks: "always_acks ack_produce"
  by (simp add: always_acks_def ack_produce_def)

definition ex_env :: "(pg TimescaleSink, keyspace, broker, nat) env" where
  "ex_env = \<lparr>ops = timescale_sink_ops pg_copy pg_exec, redis_exec = k_exec,
     dlq_produce = ack_produce, pb_unmarshal = ex_unmarshal, pb_marshal = ex_marshal,
     poll = (\<lambda>k. (k, \<lparr>f_ctxErr = Some Canceled, f_isClientClosed = False, f_errors = [], f_records = []\<rparr>)),
     commit = (\<lambda>k. (Suc k, None))\<rparr>"

definition ex_sink :: "pg TimescaleSink" where
  "ex_sink = \<lparr>ts_pool = \<lparr>pg_rows = [], pg_faults = []\<rparr>, ts_batchSize = 10,
     ts_flushInterval = 2000000000, ts_maxRetries = 1,
     ts_buffer = [], ts_poisoned = []\<rparr>"

definition ex_consumer :: "(pg TimescaleSink, keyspace, broker, nat) Consumer" where
  "ex_consumer = \<lparr>client = 0, csink = ex_sink,
     dedup = Some \<lparr>rd_client = \<lparr>k_entries = [], k_now = 0, k_faults = []\<rparr>, rd_ttl = 600\<rparr>,
     dlq = Some \<lparr>dp_client = \<lparr>b_log = [], b_faults = []\<rparr>, dp_topic = ''dlq''\<rparr>,
     group = ''g'', topic = ''t'', maxRetries = 1, metrics = Some [],
     consumed = 0, deduped = 0, dlqSent = 0\<rparr>"

text \<open>A client whose first poll returns a duplicate and a malformed record, and whose second is cancelled.\<close>

definition ex_feed :: "(pg TimescaleSink, keyspace, broker, nat) env" where
  "ex_feed = ex_env\<lparr>poll := (\<lambda>k. (Suc k, \<lparr>f_ctxErr = (if k = 0 then None else Some Canceled),
     f_isClientClosed = False, f_errors = [],
     f_records = [ex_record ''a'', ex_record [], ex_record ''a'']\<rparr>))\<rparr>"

definition ex_feed_metrics :: "consumer_metric list" where
  "ex_feed_metrics = [DLQTotal_Inc, ConsumedTotal_Inc, DedupDroppedTotal_Inc, BatchFlushSeconds_Observe]"

definition ex_unmarked :: "keyspace Deduper" where
  "ex_unmarked = \<lparr>rd_client = \<lparr>k_entries = [], k_now = 0, k_faults = []\<rparr>, rd_ttl = 600\<rparr>"

definition ex_marked :: "keyspace Deduper" where
  "ex_marked = \<lparr>rd_client = \<lparr>k_entries = [(''a'', Some 600)], k_now = 0, k_faults = []\<rparr>, rd_ttl = 600\<rparr>"

lemmas ex_redis_defs = Deduper_SeenBatch_def k_exec_def k_setnx_def k_set_def k_live_def

lemma ex_check_first: "Deduper_SeenBatch k_exec ex_unmarked [''a''] = (ex_marked, Inr [False])"
  by (simp add: ex_redis_defs ex_unmarked_def ex_marked_def)

lemma ex_check_again: "Deduper_SeenBatch k_exec ex_marked [''a''] = (ex_marked, Inr [True])"
  by (simp add: ex_redis_defs ex_marked_def)

lemma ex_decodes:
  "decodable ex_unmarshal [ex_record ''a''] =
     [\<lparr>dr_record = ex_record ''a'', dr_event = ex_event ''a''\<rparr>]"
  by (simp add: DecodeRecord_def ex_unmarshal_def ex_record_def)

section \<open>A round over the Timescale sink\<close>

context timescale_db
begin

lemma round_sink:
  assumes "ops env = timescale_sink_ops copyFrom execSQL"
  shows "csink (run_round env c rs) = fst (TimescaleSink_DrainPoisoned (fst
      (TimescaleSink_Flush copyFrom execSQL
        (fold (\<lambda>e s. fst (TimescaleSink_Write copyFrom execSQL s e))
          (map dr_event (passed (decodable (pb_unmarshal env) rs)
            (seen_flags env c (decodable (pb_unmarshal env) rs)))) (csink c)))))"
    and "client (run_round env c rs) = fst (commit env (client c))"
  using ts.run_round_sink [of env rs c] assms by (auto simp: timescale_sink_ops_def)

text \<open>
  The state before the commit is a run of dead-letter sends from a state \<open>X\<close> in which the sink is
  drained, and every event that passed the duplicate check is stored or among those sends.
\<close>

lemma round_shape:
  assumes "ops env = timescale_sink_ops copyFrom execSQL" and "0 \<le> ts_maxRetries (csink c)"
    and ds: "ds = decodable (pb_unmarshal env) rs"
  shows "\<exists>X ps. dlq X = dlq (fold (send_malformed env) (malformed (pb_unmarshal env) rs) c) \<and>
    topic X = topic c \<and> client X = client c \<and>
    run_round env c rs = commit_offsets env (fold (send_poison env) ps X) \<and>
    (\<forall>d \<in> set (passed ds (seen_flags env c ds)).
       holds (ts_pool (csink X)) (row_of_event (dr_event d)) \<or> dr_event d \<in> PoisonEvent ` set ps)"
proof -
  let ?es = "map dr_event (passed ds (seen_flags env c ds))"
  let ?s1 = "fold (\<lambda>e s. fst (TimescaleSink_Write copyFrom execSQL s e)) ?es (csink c)"
  let ?s2 = "fst (TimescaleSink_Flush copyFrom execSQL ?s1)"
  obtain X where X: "dlq X = dlq (fold (send_malformed env) (malformed (pb_unmarshal env) rs) c)"
      "topic X = topic c" "client X = client c" "csink X = fst (TimescaleSink_DrainPoisoned ?s2)"
    and run: "run_round env c rs = commit_offsets env (fold (send_poison env) (ts_poisoned ?s2) X)"
    using ts.run_round_sink [of env rs c] assms(1)
    by (auto simp: timescale_sink_ops_def ds)
  have "stored (csink X) (dr_event d) \<or> dr_event d \<in> PoisonEvent ` set (ts_poisoned ?s2)"
    if "d \<in> set (passed ds (seen_flags env c ds))" for d
    using ts.write_flush_drain [of "csink c" "dr_event d" ?es] that assms(2) X(4)
    by (auto simp: TimescaleSink_DrainPoisoned_def retries_ok_def)
  with X run show ?thesis unfolding stored_def by blast
qed

end

text \<open>An event is settled in a state when the table or the dead-letter log has it.\<close>

definition event_settled ::
  "('db \<Rightarrow> row \<Rightarrow> bool) \<Rightarrow> ('q \<Rightarrow> Record \<Rightarrow> bool) \<Rightarrow> string \<Rightarrow>
     ('db TimescaleSink, 'r, 'q, 'c) env \<Rightarrow> ('db TimescaleSink, 'r, 'q, 'c) Consumer \<Rightarrow> Event \<Rightarrow> bool" where
  "event_settled holds holdsq dt env c e \<longleftrightarrow>
     holds (ts_pool (csink c)) (row_of_event e) \<or>
     (\<exists>err. dead_lettered holdsq c (poison_record env dt (topic c) \<lparr>PoisonEvent = e, PoisonErr = err\<rparr>))"

lemma topic_commit [simp]: "topic (commit_offsets env c) = topic c"
  by (simp add: commit_offsets_def)

lemma dead_lettered_commit [simp]: "dead_lettered h (commit_offsets env c) x = dead_lettered h c x"
  by (rule dead_lettered_cong) simp

context kafka_log
begin

lemma poisoned_event_settled:
  assumes "dlq_produce env = produce" and "always_acks produce" and "dlq_topic_of c = Some dt"
    and "e \<in> PoisonEvent ` set ps"
  shows "event_settled h holds dt env (commit_offsets env (fold (send_poison env) ps c)) e"
proof -
  from assms(4) obtain p where p: "p \<in> set ps" "PoisonEvent p = e" by auto
  then have "p = \<lparr>PoisonEvent = e, PoisonErr = PoisonErr p\<rparr>" by simp
  with poison_lands [OF assms(1-3) p(1) refl] show ?thesis
    by (auto simp: event_settled_def) metis
qed

end

lemma round_settles_passed:
  assumes db: "timescale_db copyFrom execSQL holds" and kl: "kafka_log (dlq_produce env) holdsq"
    and acks: "always_acks (dlq_produce env)" and ops: "ops env = timescale_sink_ops copyFrom execSQL"
    and retries: "0 \<le> ts_maxRetries (csink c)" and dt: "dlq_topic_of c = Some dt"
    and d: "d \<in> set (passed ds (seen_flags env c ds))"
    and ds: "ds = decodable (pb_unmarshal env) rs"
  shows "event_settled holds holdsq dt env (run_round env c rs) (dr_event d)"
proof -
  obtain X ps where X: "dlq X = dlq (fold (send_malformed env) (malformed (pb_unmarshal env) rs) c)"
    and run: "run_round env c rs = commit_offsets env (fold (send_poison env) ps X)"
    and set: "holds (ts_pool (csink X)) (row_of_event (dr_event d)) \<or> dr_event d \<in> PoisonEvent ` set ps"
    using timescale_db.round_shape [OF db ops retries ds] d by blast
  have topX: "dlq_topic_of X = Some dt"
    using dlq_topic_cong [OF X] dt by (simp add: dlq_topic_send_malformed)
  from set show ?thesis
    unfolding run
    using kafka_log.poisoned_event_settled [OF kl refl acks topX]
    by (auto simp: event_settled_def)
qed

lemma round_dead_letters_malformed:
  assumes db: "timescale_db copyFrom execSQL holds" and kl: "kafka_log (dlq_produce env) holdsq"
    and acks: "always_acks (dlq_produce env)" and ops: "ops env = timescale_sink_ops copyFrom execSQL"
    and retries: "0 \<le> ts_maxRetries (csink c)" and dt: "dlq_topic_of c = Some dt"
    and r: "(r, err) \<in> set (malformed (pb_unmarshal env) rs)"
  shows "dead_lettered holdsq (run_round env c rs)
    (dlq_record dt (Topic r) (Partition r) (Offset r) (Key r) (RecValue r) err)"
proof -
  obtain X ps where X: "dlq X = dlq (fold (send_malformed env) (malformed (pb_unmarshal env) rs) c)"
    and run: "run_round env c rs = commit_offsets env (fold (send_poison env) ps X)"
    using timescale_db.round_shape [OF db ops retries refl, of rs] by blast
  from kafka_log.malformed_land [OF kl refl acks dt r] kafka_log.poison_keeps [OF kl refl]
    dead_lettered_cong [OF X]
  show ?thesis by (simp add: run)
qed

lemma passed_subset: "set (passed ds bs) \<subseteq> set ds"
  by (auto simp: passed_def dest: set_zip_leftD)

text \<open>The sink after a round, for any database at all.\<close>

lemma timescale_db_trivial: "timescale_db copyFrom execSQL (\<lambda>_ _. True)"
  by unfold_locales simp_all

lemma timescale_round_sink:
  assumes "ops env = timescale_sink_ops copyFrom execSQL"
    and "ds = decodable (pb_unmarshal env) rs"
  shows "csink (run_round env c rs) = fst (TimescaleSink_DrainPoisoned (fst
      (TimescaleSink_Flush copyFrom execSQL
        (fold (\<lambda>e s. fst (TimescaleSink_Write copyFrom execSQL s e))
          (map dr_event (passed ds (seen_flags env c ds))) (csink c)))))"
    and "client (run_round env c rs) = fst (commit env (client c))"
  using timescale_db.round_sink [OF timescale_db_trivial assms(1)] assms(2) by simp_all

text \<open>Without a dead-letter producer no operation creates one.\<close>

lemma sendToDLQ_None: "dlq c = None \<Longrightarrow> sendToDLQ env c t p off k v e = c"
  by (simp add: sendToDLQ_def)

lemma persist_loop_without_dlq: "dlq c = None \<Longrightarrow> dlq (persist_loop env c ds bs) = None"
proof (induction ds bs arbitrary: c rule: list_induct2')
  case (4 d ds b bs)
  then have "dlq (persist env c (dr_record d) (dr_event d)) = None"
    by (simp add: persist_def sendToDLQ_None split: prod.split option.split)
  with 4 show ?case by simp
qed simp_all

lemma fold_sends_without_dlq:
  assumes "dlq c = None" and "\<And>x c. dlq c = None \<Longrightarrow> dlq (f x c) = None"
  shows "dlq (fold f xs c) = None"
  using assms by (intro fold_mono_fact [where P = "\<lambda>c. dlq c = None"])

lemma round_without_dlq:
  assumes "dlq c = None" shows "dlq (run_round env c rs) = None"
proof -
  have "dlq (fold (send_malformed env) xs c) = None" for xs
    using assms by (rule fold_sends_without_dlq) (simp add: send_malformed_def sendToDLQ_None)
  then have h: "dlq (handleBatch env c rs) = None"
    by (simp add: handleBatch_eq Let_def persist_loop_without_dlq)
  have f: "dlq (fst (flush_sink env x)) = dlq x" for x
    by (simp add: flush_sink_def split: option.split prod.split)
  have "dlq (drain_poison env x) = None" if "dlq x = None" for x
    using that by (auto simp: drain_poison_def send_poison_def sendToDLQ_None
        split: option.split prod.split intro!: fold_sends_without_dlq)
  with h f show ?thesis
    by (auto simp: run_round_def split: prod.splits option.splits) (metis fst_conv)+
qed

lemma persist_loop_client [simp]: "client (persist_loop env c ds bs) = client c"
proof (induction ds bs arbitrary: c rule: list_induct2')
  case (4 d ds b bs)
  have "client (persist env c r e) = client c" for r e
    by (simp add: persist_def split: prod.split option.split)
  with 4 show ?case by simp
qed simp_all

lemma handleBatch_client: "client (handleBatch env c rs) = client c"
  by (simp add: handleBatch_eq Let_def)

section \<open>Restart of the process\<close>

text \<open>
  A consumer process that dies loses what it holds in memory: the sink's buffer and poison list
  and the counters.  The table, the keyspace and the broker's logs survive, and since nothing was
  committed the broker delivers the same records again.
\<close>

definition restart ::
  "('db TimescaleSink, 'r, 'q, 'c) Consumer \<Rightarrow> ('db TimescaleSink, 'r, 'q, 'c) Consumer" where
  "restart c = c\<lparr>csink := (csink c)\<lparr>ts_buffer := [], ts_poisoned := []\<rparr>,
     consumed := 0, deduped := 0, dlqSent := 0\<rparr>"

section \<open>A database that is down\<close>

definition statements_fail :: "'db copy_from \<Rightarrow> 'db exec_sql \<Rightarrow> bool" where
  "statements_fail copyFrom execSQL \<longleftrightarrow>
     (\<forall>db rs. \<exists>err. copyFrom db telemetry_table telemetry_columns rs = (db, Some err)) \<and>
     (\<forall>db r. \<exists>err. execSQL db insert_sql r = (db, Some err))"

lemma outage_copyBatch:
  assumes "statements_fail copyFrom execSQL" shows "fst (copyBatch copyFrom s b) = s"
proof -
  obtain err where "copyFrom (ts_pool s) telemetry_table telemetry_columns (map row_of_event b) =
      (ts_pool s, Some err)"
    using assms unfolding statements_fail_def by blast
  then show ?thesis by (simp add: copyBatch_def)
qed

lemma outage_insertOne:
  assumes "statements_fail copyFrom execSQL" shows "fst (insertOne execSQL s e) = s"
proof -
  obtain err where "execSQL (ts_pool s) insert_sql (row_of_event e) = (ts_pool s, Some err)"
    using assms unfolding statements_fail_def by blast
  then show ?thesis by (simp add: insertOne_def)
qed

definition fixed_part :: "'db TimescaleSink \<Rightarrow> 'db \<times> int \<times> int \<times> int" where
  "fixed_part s = (ts_pool s, ts_batchSize s, ts_flushInterval s, ts_maxRetries s)"

lemma outage_flush_rows:
  assumes "statements_fail copyFrom execSQL"
  shows "fixed_part (flush_rows execSQL s es) = fixed_part s"
proof -
  have "fst (retry m (\<lambda>s. insertOne execSQL s e) t) = t" for m e t
    by (rule retry_inv [where I = "\<lambda>u. u = t"]) (auto simp: outage_insertOne [OF assms])
  then have "fixed_part (insert_row_step execSQL e t) = fixed_part t" for e t
    by (auto simp: insert_row_step_def fixed_part_def split: prod.split option.split) (metis fst_conv)+
  then show ?thesis unfolding flush_rows_fold by (induction es arbitrary: s) simp_all
qed

lemma outage_Flush:
  assumes "statements_fail copyFrom execSQL"
  shows "fixed_part (fst (TimescaleSink_Flush copyFrom execSQL s)) = fixed_part s"
    and "ts_buffer (fst (TimescaleSink_Flush copyFrom execSQL s)) = []"
proof -
  have r: "fst (retry m (\<lambda>t. copyBatch copyFrom t b) t) = t" for m b t
    by (rule retry_inv [where I = "\<lambda>u. u = t"]) (auto simp: outage_copyBatch [OF assms])
  have d: "fixed_part (fst (drainBuffer s)) = fixed_part s" by (simp add: fixed_part_def)
  show "fixed_part (fst (TimescaleSink_Flush copyFrom execSQL s)) = fixed_part s"
    using r [of "ts_maxRetries s" "ts_buffer s" "fst (drainBuffer s)"] d
    by (cases rule: Flush_cases [of s copyFrom execSQL])
      (auto simp: outage_flush_rows [OF assms])
  show "ts_buffer (fst (TimescaleSink_Flush copyFrom execSQL s)) = []"
    by (rule timescale_db.Flush_frame [OF timescale_db_trivial])
qed

lemma outage_writes:
  assumes "statements_fail copyFrom execSQL"
  shows "fixed_part (fold (\<lambda>e s. fst (TimescaleSink_Write copyFrom execSQL s e)) es s) = fixed_part s"
proof (induction es arbitrary: s)
  case (Cons e es)
  have "fixed_part (s\<lparr>ts_buffer := b\<rparr>) = fixed_part s" for b by (simp add: fixed_part_def)
  then have "fixed_part (fst (TimescaleSink_Write copyFrom execSQL s e)) = fixed_part s"
    by (simp add: TimescaleSink_Write_def Let_def outage_Flush(1) [OF assms])
  with Cons.IH show ?case by simp
qed simp

section \<open>Properties\<close>

text \<open>
  A round that ran on the buffered sink with a dead-letter topic whose broker acknowledges has
  dealt with every record of the poll when it commits: a record that does not decode is in the
  dead-letter log with its cause and origin; for a record that does, either its key was already
  known to the deduper, or an event of the batch with that key is in the table or in the
  dead-letter log.
\<close>

theorem committed_round_accounts_for_every_record:
  assumes db: "timescale_db copyFrom execSQL holds"
    and rd: "redis setnx (redis_exec env) live"
    and kl: "kafka_log (dlq_produce env) holdsq"
    and acks: "always_acks (dlq_produce env)"
    and ops: "ops env = timescale_sink_ops copyFrom execSQL"
    and retries: "0 \<le> ts_maxRetries (csink c)"
    and dt: "dlq_topic_of c = Some dt"
    and r: "r \<in> set records"
  shows "case DecodeRecord (pb_unmarshal env) (RecValue r) of
       Inl err \<Rightarrow> dead_lettered holdsq (run_round env c records)
         (dlq_record dt (Topic r) (Partition r) (Offset r) (Key r) (RecValue r) err)
     | Inr e \<Rightarrow> IdempotencyKey e \<in> known_keys live c \<or>
         (\<exists>e'. e' \<in> dr_event ` set (decodable (pb_unmarshal env) records) \<and>
            IdempotencyKey e' = IdempotencyKey e \<and>
            event_settled holds holdsq dt env (run_round env c records) e')"
proof (cases "DecodeRecord (pb_unmarshal env) (RecValue r)")
  case (Inl err)
  with r have "(r, err) \<in> set (malformed (pb_unmarshal env) records)" by (simp add: malformed_iff)
  with round_dead_letters_malformed [OF db kl acks ops retries dt] Inl show ?thesis by simp
next
  case (Inr e)
  let ?ds = "decodable (pb_unmarshal env) records"
  have d: "\<lparr>dr_record = r, dr_event = e\<rparr> \<in> set ?ds" using r Inr by (simp add: decodable_iff)
  show ?thesis
    using redis.some_record_passes [OF rd refl d, of c] passed_subset
      round_settles_passed [OF db kl acks ops retries dt _ refl] Inr
    by fastforce
qed

theorem committed_round_accounts_for_every_record_witness:
  "ex_record [] \<in> set [ex_record ''a'', ex_record []] \<and>
   dead_lettered broker_holds (run_round ex_env ex_consumer [ex_record ''a'', ex_record []])
     (dlq_record ''dlq'' ''t'' 3 7 [] [] (ErrorText ''proto: cannot parse''))"
  using committed_round_accounts_for_every_record [of pg_copy pg_exec pg_holds k_setnx ex_env k_live
      broker_holds ex_consumer "''dlq''" "ex_record []" "[ex_record ''a'', ex_record []]"]
    pg.timescale_db_axioms kr.redis_axioms ack_produce_log ack_produce_acks
  by (simp add: ex_env_def ex_consumer_def ex_sink_def dlq_topic_of_def DecodeRecord_def
      ex_unmarshal_def ex_record_def)

text \<open>
  A batch is never counted short: with a dead-letter topic whose broker acknowledges, the
  three counters together grow by exactly the number of records of the batch (in 64-bit
  arithmetic), whatever the sink, the deduper and the decoder answer.
\<close>

theorem batch_counters_add_up:
  assumes "always_acks (dlq_produce env)" and "dlq c \<noteq> None"
  shows "consumed (handleBatch env c records) + deduped (handleBatch env c records)
      + dlqSent (handleBatch env c records) =
    consumed c + deduped c + dlqSent c + of_nat (length records)"
  using handleBatch_counts [OF assms, of records] by (simp add: handled_total_def)

theorem batch_counters_add_up_witness:
  "consumed (handleBatch ex_env ex_consumer [ex_record ''a'', ex_record [], ex_record ''a''])
     + deduped (handleBatch ex_env ex_consumer [ex_record ''a'', ex_record [], ex_record ''a''])
     + dlqSent (handleBatch ex_env ex_consumer [ex_record ''a'', ex_record [], ex_record ''a'']) = 3"
  using batch_counters_add_up [of ex_env ex_consumer "[ex_record ''a'', ex_record [], ex_record ''a'']"]
    ack_produce_acks
  by (simp add: ex_env_def ex_consumer_def)

lemma ex_feed_run: "metrics (fst (Run ex_feed 2 ex_consumer)) = Some ex_feed_metrics"
  by code_simp

text \<open>
  For any number of polls, from a consumer as \<^verbatim>\<open>New\<close> returns it with fresh metrics, the three
  counters are the numbers of increments made on the metrics of the same name.
\<close>

theorem counters_match_metrics:
  assumes "consumer_New newClient cfg s d q (Some []) = Inr c"
    and "metrics (fst (Run env n c)) = Some ms"
  shows "consumed (fst (Run env n c)) = of_nat (count_list ms ConsumedTotal_Inc) \<and>
    deduped (fst (Run env n c)) = of_nat (count_list ms DedupDroppedTotal_Inc) \<and>
    dlqSent (fst (Run env n c)) = of_nat (count_list ms DLQTotal_Inc)"
proof -
  have "metrics_agree c"
    using assms(1) by (auto simp: consumer_New_def metrics_agree_def split: sum.splits)
  from agree_Run [OF this, of env n] assms(2) show ?thesis by (simp add: metrics_agree_def)
qed

theorem counters_match_metrics_witness:
  "consumed (fst (Run ex_feed 2 ex_consumer)) = of_nat (count_list ex_feed_metrics ConsumedTotal_Inc) \<and>
   deduped (fst (Run ex_feed 2 ex_consumer)) = of_nat (count_list ex_feed_metrics DedupDroppedTotal_Inc) \<and>
   dlqSent (fst (Run ex_feed 2 ex_consumer)) = of_nat (count_list ex_feed_metrics DLQTotal_Inc)"
  by (rule counters_match_metrics [of "\<lambda>_ _ _. Inr 0"
        "\<lparr>Brokers = [], CfgTopic = ''t'', Group = ''g'', MaxRetries = 1\<rparr>" "csink ex_consumer"
        "dedup ex_consumer" "dlq ex_consumer", OF _ ex_feed_run])
    (simp add: consumer_New_def ex_consumer_def)



text \<open>
  C30. The duplicate check marks keys before anything is stored.  If the process dies after a batch
  was handled but before its flush, the broker redelivers the batch, the deduper reports all of it
  as seen, and the round commits with the table exactly as it was before the first delivery: the
  batch is lost.
\<close>

theorem crash_before_flush_loses_batch:
  assumes rd: "redis setnx (redis_exec env) live"
    and ops: "ops env = timescale_sink_ops copyFrom execSQL"
    and d: "dedup c = Some d"
    and ds: "ds = decodable (pb_unmarshal env) records"
    and first: "Deduper_SeenBatch (redis_exec env) d (map (\<lambda>x. IdempotencyKey (dr_event x)) ds) = (d1, Inr bs1)"
    and again: "Deduper_SeenBatch (redis_exec env) d1 (map (\<lambda>x. IdempotencyKey (dr_event x)) ds) = (d2, Inr bs2)"
    and small: "int (length (ts_buffer (csink c)) + length ds) < ts_batchSize (csink c)"
  defines "c' \<equiv> run_round env (restart (handleBatch env c records)) records"
  shows "csink c' = (csink c)\<lparr>ts_buffer := [], ts_poisoned := []\<rparr> \<and>
    client c' = fst (commit env (client c))"
proof -
  let ?h = "handleBatch env c records"
  have po: "DrainPoisoned (ops env) \<noteq> None" by (simp add: ops timescale_sink_ops_def)
  have "csink ?h = fold (\<lambda>e s. fst (TimescaleSink_Write copyFrom execSQL s e))
      (map dr_event (passed ds (seen_flags env c ds))) (csink c)"
    using handleBatch_poison(1) [OF po, of c records] by (simp add: ds ops timescale_sink_ops_def)
  also have "\<dots> = (csink c)\<lparr>ts_buffer := ts_buffer (csink c) @
      map dr_event (passed ds (seen_flags env c ds))\<rparr>"
    by (rule writes_only_buffer) (use small length_passed_le [of ds "seen_flags env c ds"] in simp)
  finally have r: "csink (restart ?h) = (csink c)\<lparr>ts_buffer := [], ts_poisoned := []\<rparr>"
    by (simp add: restart_def)
  have dd: "dedup (restart ?h) = Some d1"
    using handleBatch_dedup [OF d] first by (simp add: restart_def ds)
  have "seen_flags env (restart ?h) ds = replicate (length ds) True"
    using redis.known_batch_passes_nothing [OF rd refl dd again]
      redis.SeenBatch_flags [OF rd first] by simp
  then show ?thesis
    unfolding c'_def
    using timescale_round_sink [OF ops ds, of "restart ?h"] r handleBatch_poison(6) [OF po, of c records]
    by (simp add: TimescaleSink_Flush_def drainBuffer_def TimescaleSink_DrainPoisoned_def restart_def)
qed

theorem crash_before_flush_loses_batch_witness:
  "let c' = run_round ex_env (restart (handleBatch ex_env ex_consumer [ex_record ''a''])) [ex_record ''a'']
   in client c' = 1 \<and> pg_rows (ts_pool (csink c')) = [] \<and> ts_buffer (csink c') = []"
  using crash_before_flush_loses_batch [of k_setnx ex_env k_live pg_copy pg_exec ex_consumer
      ex_unmarked "[\<lparr>dr_record = ex_record ''a'', dr_event = ex_event ''a''\<rparr>]" "[ex_record ''a'']"
      ex_marked "[False]" ex_marked "[True]"]
    kr.redis_axioms ex_check_first ex_check_again ex_decodes
  by (simp add: ex_env_def ex_consumer_def ex_event_def ex_unmarked_def ex_sink_def Let_def)

text \<open>
  C31. \<^verbatim>\<open>TimescaleSink.Flush\<close> never reports a failure, so a database that is down does not withhold
  the commit: with no dead-letter topic configured, a round leaves the table unchanged, the buffer
  and the poison list empty, and the offsets of the whole batch committed.
\<close>

theorem outage_without_dlq_commits_and_drops:
  assumes "statements_fail copyFrom execSQL"
    and "ops env = timescale_sink_ops copyFrom execSQL" and "dlq c = None"
  shows "csink (run_round env c records) = (csink c)\<lparr>ts_buffer := [], ts_poisoned := []\<rparr> \<and>
    client (run_round env c records) = fst (commit env (client c)) \<and>
    dlq (run_round env c records) = None"
proof -
  let ?s = "csink (run_round env c records)"
  note r = timescale_round_sink [OF assms(2) refl, of c records]
  have "fixed_part ?s = fixed_part (csink c)" and "ts_buffer ?s = []" and "ts_poisoned ?s = []"
    using outage_Flush [OF assms(1)] outage_writes [OF assms(1)]
    by (simp_all add: r TimescaleSink_DrainPoisoned_def fixed_part_def)
  then have "?s = (csink c)\<lparr>ts_buffer := [], ts_poisoned := []\<rparr>" by (simp add: fixed_part_def)
  with r(2) round_without_dlq [OF assms(3)] show ?thesis by simp
qed

theorem outage_without_dlq_commits_and_drops_witness:
  "let env = ex_env\<lparr>ops := timescale_sink_ops
         (\<lambda>db t cols rs. (db, Some (ErrorText ''connection refused'')))
         (\<lambda>db q r. (db, Some (ErrorText ''connection refused'')))\<rparr>;
       c' = run_round env (ex_consumer\<lparr>dlq := None\<rparr>) [ex_record ''a'']
   in csink c' = ex_sink \<and> client c' = 1 \<and> dlq c' = None"
  using outage_without_dlq_commits_and_drops
    [of "\<lambda>db t cols rs. (db, Some (ErrorText ''connection refused''))"
      "\<lambda>db q r. (db, Some (ErrorText ''connection refused''))"
      "ex_env\<lparr>ops := timescale_sink_ops
         (\<lambda>db t cols rs. (db, Some (ErrorText ''connection refused'')))
         (\<lambda>db q r. (db, Some (ErrorText ''connection refused'')))\<rparr>"
      "ex_consumer\<lparr>dlq := None\<rparr>" "[ex_record ''a'']"]
  by (simp add: statements_fail_def ex_env_def ex_consumer_def ex_sink_def Let_def)

text \<open>
  The commit is withheld in one case only: a sink whose flush returns an error.  Then the
  offsets stay as they were after the poll, and what the sink set aside is not drained.
\<close>

theorem flush_error_withholds_commit:
  assumes "Flush (ops env) = Some f" and "snd (f (csink (handleBatch env c records))) = Some err"
  shows "client (run_round env c records) = client c \<and>
    csink (run_round env c records) = fst (f (csink (handleBatch env c records)))"
proof -
  obtain s' where "f (csink (handleBatch env c records)) = (s', Some err)"
    using assms(2) by (metis prod.collapse)
  then show ?thesis
    using assms(1) by (simp add: run_round_def flush_sink_def handleBatch_client)
qed

theorem flush_error_withholds_commit_witness:
  "let env = ex_env\<lparr>ops := (ops ex_env)\<lparr>Flush := Some (\<lambda>s. (s, Some DeadlineExceeded))\<rparr>\<rparr>
   in client (run_round env ex_consumer [ex_record ''a'']) = 0"
  using flush_error_withholds_commit
    [of "ex_env\<lparr>ops := (ops ex_env)\<lparr>Flush := Some (\<lambda>s. (s, Some DeadlineExceeded))\<rparr>\<rparr>"
      "\<lambda>s. (s, Some DeadlineExceeded)" ex_consumer "[ex_record ''a'']" DeadlineExceeded]
  by (simp add: ex_consumer_def Let_def)

text \<open>
  The loop returns: when the context is cancelled, the next poll ends \<^verbatim>\<open>Run\<close> with the context's
  error, no record is handled and nothing is committed; and once \<^verbatim>\<open>Run\<close> has returned, a larger bound
  on the number of polls changes nothing.
\<close>

theorem cancelled_run_returns:
  assumes "f_ctxErr (snd (poll env (client c))) = Some err"
  shows "Run env (Suc n) c = (c\<lparr>client := fst (poll env (client c))\<rparr>, Some (Some err)) \<and>
    (\<forall>m k c1 c2 r. Run env m c1 = (c2, Some r) \<longrightarrow> Run env (m + k) c1 = (c2, Some r))"
  using assms Run_more_fuel by (auto simp: Let_def split: prod.split)

theorem cancelled_run_returns_witness:
  "Run ex_env 5 ex_consumer = (ex_consumer, Some (Some Canceled))"
  using cancelled_run_returns [of ex_env ex_consumer Canceled 4]
  by (simp add: ex_env_def ex_consumer_def)

end
