(* ===== verification/Sink_Properties.thy ===== *)
theory Sink_Properties
  imports Schema Dedup Dlq
begin

text \<open>
  Properties of the components below the consumer: the Timescale sink, the Kafka sink, the memory
  sink, the deduper and the dead-letter producer, each with a concrete run.
\<close>

section \<open>Fixtures\<close>

definition ex_row_event :: "string \<Rightarrow> Event" where
  "ex_row_event k =
     \<lparr>DeviceID = ''d'', IdempotencyKey = k, EventTimeUnixNanos = 1000, Metric = ''m'', Value = 0\<rparr>"

definition ex_buffered :: "pg \<Rightarrow> Event list \<Rightarrow> pg TimescaleSink" where
  "ex_buffered db es =
     \<lparr>ts_pool = db, ts_batchSize = 10, ts_flushInterval = 2000000000, ts_maxRetries = 1, ts_buffer = es, ts_poisoned = []\<rparr>"

text \<open>A zero byte in a text column: the row the database will never take.\<close>

definition ex_bad :: Event where
  "ex_bad = ex_row_event [CHR 0x00]"

section \<open>Lemmas on the row loop\<close>

lemma insert_row_step_poison:
  assumes "\<And>db. snd (execSQL db insert_sql (row_of_event e)) = (if bad then Some err else None)"
    and "0 \<le> ts_maxRetries s"
  shows "ts_poisoned (insert_row_step execSQL e s) =
    ts_poisoned s @ (if bad then [\<lparr>PoisonEvent = e, PoisonErr = err\<rparr>] else [])"
proof -
  have i: "snd (insertOne execSQL t e) = (if bad then Some err else None)" for t
    using assms(1) [of "ts_pool t"] by (auto simp: insertOne_def split: prod.split)
  obtain s' out where r: "retry (ts_maxRetries s) (\<lambda>s. insertOne execSQL s e) s = (s', out)"
    by (cases "retry (ts_maxRetries s) (\<lambda>s. insertOne execSQL s e) s")
  have "ts_poisoned s' = ts_poisoned s"
    using retry_insertOne_local [of "ts_maxRetries s" execSQL e s] r
    by (simp add: local_part_def)
  moreover have "out = (if bad then Exhausted (Some err) else Done)"
    using retry_always_fails [of "\<lambda>s. insertOne execSQL s e" err "ts_maxRetries s" s]
      retry_always_succeeds [of "\<lambda>s. insertOne execSQL s e" "ts_maxRetries s" s] i assms(2) r
    by (auto split: if_splits)
  ultimately show ?thesis by (simp add: insert_row_step_def r)
qed

lemma flush_rows_poison:
  assumes "\<And>db e. e \<in> set es \<Longrightarrow>
      snd (execSQL db insert_sql (row_of_event e)) = (if bad e then Some (why e) else None)"
    and "0 \<le> ts_maxRetries s"
  shows "ts_poisoned (flush_rows execSQL s es) =
    ts_poisoned s @ map (\<lambda>e. \<lparr>PoisonEvent = e, PoisonErr = why e\<rparr>) (filter bad es)"
  using assms
proof (induction es arbitrary: s)
  case (Cons e es)
  have "ts_poisoned (insert_row_step execSQL e s) =
      ts_poisoned s @ (if bad e then [\<lparr>PoisonEvent = e, PoisonErr = why e\<rparr>] else [])"
    by (rule insert_row_step_poison) (use Cons.prems in auto)
  moreover have "ts_poisoned (flush_rows execSQL (insert_row_step execSQL e s) es) =
      ts_poisoned (insert_row_step execSQL e s) @
      map (\<lambda>e. \<lparr>PoisonEvent = e, PoisonErr = why e\<rparr>) (filter bad es)"
    by (rule Cons.IH) (use Cons.prems in auto)
  ultimately show ?case by (simp add: flush_rows_fold)
qed simp

text \<open>Counting statements: each call of the database adds one to \<open>calls\<close>.\<close>

lemma flush_rows_calls:
  assumes "\<And>db q r. calls (fst (execSQL db q r)) \<le> calls db + (1 :: nat)"
  shows "calls (ts_pool (flush_rows execSQL s es)) \<le>
    calls (ts_pool s) + length es * nat (ts_maxRetries s + 1)"
proof (induction es arbitrary: s)
  case (Cons e es)
  have "calls (ts_pool (fst (insertOne execSQL t e))) \<le> calls (ts_pool t) + 1" for t
    using assms [of "ts_pool t" insert_sql "row_of_event e"]
    by (auto simp: insertOne_def split: prod.split)
  then have "calls (ts_pool (fst (retry (ts_maxRetries s) (\<lambda>s. insertOne execSQL s e) s))) \<le>
      calls (ts_pool s) + nat (ts_maxRetries s + 1)"
    by (rule retry_cost [where cost = "\<lambda>s. calls (ts_pool s)"])
  then have "calls (ts_pool (insert_row_step execSQL e s)) \<le>
      calls (ts_pool s) + nat (ts_maxRetries s + 1)"
    by (auto simp: insert_row_step_def split: prod.split option.split)
  with Cons.IH [of "insert_row_step execSQL e s"] show ?case
    by (simp add: flush_rows_fold algebra_simps)
qed simp

lemma flush_rows_negative:
  "ts_maxRetries s < 0 \<Longrightarrow> flush_rows execSQL s es = s"
  by (induction es) (simp_all add: retry_negative)

section \<open>Lemmas on the flush\<close>

lemma Flush_batchSize: "ts_batchSize (fst (TimescaleSink_Flush c x s)) = ts_batchSize s"
  using retry_copyBatch_local [of "ts_maxRetries s" c "ts_buffer s" "fst (drainBuffer s)"]
  by (cases rule: Flush_cases [of s c x]) (auto simp: local_part_def)

lemma Flush_empties_buffer: "ts_buffer (fst (TimescaleSink_Flush c x s)) = []"
  using retry_copyBatch_local [of "ts_maxRetries s" c "ts_buffer s" "fst (drainBuffer s)"]
  by (cases rule: Flush_cases [of s c x]) (auto simp: local_part_def)

lemma copyBatch_unique:
  "pg_unique (ts_pool s) \<Longrightarrow> pg_unique (ts_pool (fst (copyBatch pg_copy s b)))"
  using pg_copy_unique [of "ts_pool s" telemetry_table telemetry_columns "map row_of_event b"]
  by (cases "pg_copy (ts_pool s) telemetry_table telemetry_columns (map row_of_event b)")
    (simp add: copyBatch_def)

lemma insert_row_step_unique:
  assumes "pg_unique (ts_pool s)" shows "pg_unique (ts_pool (insert_row_step pg_exec e s))"
proof -
  have "pg_unique (ts_pool (fst (insertOne pg_exec t e)))" if "pg_unique (ts_pool t)" for t
    using pg_exec_unique [OF that, of insert_sql "row_of_event e"]
    by (cases "pg_exec (ts_pool t) insert_sql (row_of_event e)") (simp add: insertOne_def)
  with assms have "pg_unique (ts_pool (fst (retry m (\<lambda>s. insertOne pg_exec s e) s)))" for m
    by (intro retry_inv [where I = "\<lambda>s. pg_unique (ts_pool s)"])
  from this [of "ts_maxRetries s"] show ?thesis
    by (auto simp: insert_row_step_def split: prod.split option.split)
qed

lemma Flush_unique:
  assumes "pg_unique (ts_pool s)"
  shows "pg_unique (ts_pool (fst (TimescaleSink_Flush pg_copy pg_exec s)))"
proof -
  let ?r = "retry (ts_maxRetries s) (\<lambda>t. copyBatch pg_copy t (ts_buffer s)) (fst (drainBuffer s))"
  have r: "pg_unique (ts_pool (fst ?r))"
    by (rule retry_inv [where I = "\<lambda>s. pg_unique (ts_pool s)"])
      (auto simp: assms intro: copyBatch_unique)
  have "pg_unique (ts_pool (flush_rows pg_exec t es))" if "pg_unique (ts_pool t)" for t es
    unfolding flush_rows_fold using that by (rule fold_invariant) (rule insert_row_step_unique)
  with r assms show ?thesis by (cases rule: Flush_cases [of s pg_copy pg_exec]) auto
qed

section \<open>Properties of the Timescale sink\<close>

text \<open>
  C9. A flush loses nothing: for any database that keeps the documented contract, whatever
  statements fail, each event that was in the buffer is afterwards in the table or in the poison
  list, the buffer is empty, and what the table held before it still holds.
\<close>

theorem flush_accounts_for_buffer:
  assumes "timescale_db copyFrom execSQL holds" and "0 \<le> ts_maxRetries s"
    and "TimescaleSink_Flush copyFrom execSQL s = (s', err)"
  shows "ts_buffer s' = [] \<and>
    (\<forall>e \<in> set (ts_buffer s). holds (ts_pool s') (row_of_event e) \<or>
       e \<in> PoisonEvent ` set (ts_poisoned s')) \<and>
    (\<forall>e. holds (ts_pool s) (row_of_event e) \<longrightarrow> holds (ts_pool s') (row_of_event e))"
  using timescale_db.Flush_settles [OF assms(1), of s] timescale_db.Flush_frame [OF assms(1), of s]
    timescale_db.Flush_stored [OF assms(1), of s] assms(2,3)
  by (auto simp: timescale_db.retries_ok_def [OF assms(1)] timescale_db.accounted_def [OF assms(1)]
      timescale_db.settled_def [OF assms(1)] timescale_db.stored_def [OF assms(1)])

theorem flush_accounts_for_buffer_witness:
  "pg_holds (ts_pool (fst (TimescaleSink_Flush pg_copy pg_exec
       (ex_buffered \<lparr>pg_rows = [], pg_faults = [True]\<rparr> [ex_row_event ''k'', ex_bad])))) (row_of_event ex_bad) \<or>
   ex_bad \<in> PoisonEvent ` set (ts_poisoned (fst (TimescaleSink_Flush pg_copy pg_exec
       (ex_buffered \<lparr>pg_rows = [], pg_faults = [True]\<rparr> [ex_row_event ''k'', ex_bad]))))"
  using flush_accounts_for_buffer [OF pg.timescale_db_axioms,
      of "ex_buffered \<lparr>pg_rows = [], pg_faults = [True]\<rparr> [ex_row_event ''k'', ex_bad]"]
  by (simp add: ex_buffered_def prod_eq_iff)

text \<open>
  C20. The two-tier retry isolates poison rows: when the batch copy keeps failing and the insert of
  a row fails exactly for the bad ones, the flush poisons exactly the bad events of the buffer, in
  their order and with the error of their insert, and stores all the others.
\<close>

theorem flush_isolates_poison_rows:
  assumes "timescale_db copyFrom execSQL holds" and "0 \<le> ts_maxRetries s" and "ts_poisoned s = []"
    and copy: "\<And>db. snd (copyFrom db telemetry_table telemetry_columns
        (map row_of_event (ts_buffer s))) \<noteq> None"
    and insert: "\<And>db e. e \<in> set (ts_buffer s) \<Longrightarrow>
        snd (execSQL db insert_sql (row_of_event e)) = (if bad e then Some (why e) else None)"
  shows "ts_poisoned (fst (TimescaleSink_Flush copyFrom execSQL s)) =
      map (\<lambda>e. \<lparr>PoisonEvent = e, PoisonErr = why e\<rparr>) (filter bad (ts_buffer s)) \<and>
    (\<forall>e \<in> set (ts_buffer s). \<not> bad e \<longrightarrow>
       holds (ts_pool (fst (TimescaleSink_Flush copyFrom execSQL s))) (row_of_event e))"
proof -
  have po: "ts_poisoned (fst (TimescaleSink_Flush copyFrom execSQL s)) =
      map (\<lambda>e. \<lparr>PoisonEvent = e, PoisonErr = why e\<rparr>) (filter bad (ts_buffer s))"
  proof (cases rule: Flush_cases [of s copyFrom execSQL])
    case empty
    with assms(3) show ?thesis by simp
  next
    case (copied s2)
    have "\<not> (\<exists>t t'. copyBatch copyFrom t (ts_buffer s) = (t', None))"
      using copy by (auto simp: copyBatch_def split: prod.splits) (metis snd_conv)
    with retry_done [OF copied(2), of "\<lambda>_. False"] show ?thesis by blast
  next
    case (rows s2 err)
    have "local_part s2 = local_part (fst (drainBuffer s))"
      using rows(2) retry_copyBatch_local by (metis fst_conv)
    note f = local_part_fields [OF this]
    show ?thesis
      using flush_rows_poison [of "ts_buffer s" execSQL bad why s2] insert f assms(2,3) rows(3) by simp
  qed
  have "holds (ts_pool (fst (TimescaleSink_Flush copyFrom execSQL s))) (row_of_event e)"
    if "e \<in> set (ts_buffer s)" "\<not> bad e" for e
    using timescale_db.Flush_settles [OF assms(1), of s e] that po assms(2)
    by (auto simp: timescale_db.retries_ok_def [OF assms(1)] timescale_db.accounted_def [OF assms(1)]
        timescale_db.settled_def [OF assms(1)] timescale_db.stored_def [OF assms(1)])
  with po show ?thesis by blast
qed

text \<open>A database without a fault schedule: only the row itself decides.\<close>

definition sound_copy :: "pg copy_from" where
  "sound_copy db = pg_copy (db\<lparr>pg_faults := []\<rparr>)"

definition sound_exec :: "pg exec_sql" where
  "sound_exec db = pg_exec (db\<lparr>pg_faults := []\<rparr>)"

lemma pg_holds_faults [simp]: "pg_holds (db\<lparr>pg_faults := fs\<rparr>) r = pg_holds db r"
  by (simp add: pg_holds_def pg_keys_def)

lemma sound_db: "timescale_db sound_copy sound_exec pg_holds"
  unfolding sound_copy_def sound_exec_def
  by unfold_locales (auto intro: pg.copy_ok pg.copy_keeps pg.insert_ok pg.insert_keeps)

theorem flush_isolates_poison_rows_witness:
  "ts_poisoned (fst (TimescaleSink_Flush sound_copy sound_exec
     (ex_buffered \<lparr>pg_rows = [], pg_faults = []\<rparr> [ex_row_event ''k'', ex_bad, ex_row_event ''l'']))) =
   [\<lparr>PoisonEvent = ex_bad, PoisonErr = ErrorText ''invalid input''\<rparr>]"
proof -
  let ?s = "ex_buffered \<lparr>pg_rows = [], pg_faults = []\<rparr> [ex_row_event ''k'', ex_bad, ex_row_event ''l'']"
  have "ts_poisoned (fst (TimescaleSink_Flush sound_copy sound_exec ?s)) =
      map (\<lambda>e. \<lparr>PoisonEvent = e, PoisonErr = ErrorText ''invalid input''\<rparr>)
        (filter (\<lambda>e. e = ex_bad) (ts_buffer ?s))"
    by (rule flush_isolates_poison_rows [OF sound_db, THEN conjunct1])
      (auto simp: ex_buffered_def sound_copy_def sound_exec_def pg_copy_def pg_exec_def pg_fault_def
        row_ok_def row_of_event_def ex_bad_def ex_row_event_def)
  then show ?thesis by (simp add: ex_buffered_def ex_bad_def ex_row_event_def)
qed

text \<open>
  A flush is bounded work: whatever fails, it issues at most \<open>(maxRetries + 1) * (n + 1)\<close>
  statements for a buffer of \<open>n\<close> events.
\<close>

theorem flush_statement_bound:
  assumes copy: "\<And>db t cols rs. calls (fst (copyFrom db t cols rs)) \<le> calls db + (1 :: nat)"
    and insert: "\<And>db q r. calls (fst (execSQL db q r)) \<le> calls db + (1 :: nat)"
  shows "calls (ts_pool (fst (TimescaleSink_Flush copyFrom execSQL s))) \<le>
    calls (ts_pool s) + (length (ts_buffer s) + 1) * nat (ts_maxRetries s + 1)"
proof -
  let ?r = "retry (ts_maxRetries s) (\<lambda>t. copyBatch copyFrom t (ts_buffer s)) (fst (drainBuffer s))"
  have "calls (ts_pool (fst (copyBatch copyFrom t b))) \<le> calls (ts_pool t) + 1" for t b
    using copy [of "ts_pool t" telemetry_table telemetry_columns "map row_of_event b"]
    by (auto simp: copyBatch_def split: prod.split)
  then have r: "calls (ts_pool (fst ?r)) \<le> calls (ts_pool s) + nat (ts_maxRetries s + 1)"
    using retry_cost [of "\<lambda>s. calls (ts_pool s)" "\<lambda>t. copyBatch copyFrom t (ts_buffer s)"
        "ts_maxRetries s" "fst (drainBuffer s)"] by simp
  have m: "ts_maxRetries (fst ?r) = ts_maxRetries s"
    using retry_copyBatch_local [of "ts_maxRetries s" copyFrom "ts_buffer s" "fst (drainBuffer s)"]
    by (simp add: local_part_def)
  show ?thesis
  proof (cases rule: Flush_cases [of s copyFrom execSQL])
    case (rows s2 err)
    with flush_rows_calls [of calls execSQL s2 "ts_buffer s", OF insert] r m show ?thesis
      by (simp add: algebra_simps)
  qed (use r in simp_all)
qed

theorem flush_statement_bound_witness:
  "fst (ts_pool (fst (TimescaleSink_Flush
       (\<lambda>db t cols rs. ((fst db + 1, snd db), Some DeadlineExceeded))
       (\<lambda>db q r. ((fst db + 1, snd db), Some DeadlineExceeded))
       \<lparr>ts_pool = (0 :: nat, ()), ts_batchSize = 10, ts_flushInterval = 2000000000, ts_maxRetries = 1,
        ts_buffer = [ex_bad], ts_poisoned = []\<rparr>))) \<le> 4"
  using flush_statement_bound [of fst "\<lambda>db t cols rs. ((fst db + 1, snd db), Some DeadlineExceeded)"
      "\<lambda>db q r. ((fst db + 1, snd db), Some DeadlineExceeded)"
      "\<lparr>ts_pool = (0 :: nat, ()), ts_batchSize = 10, ts_flushInterval = 2000000000, ts_maxRetries = 1,
        ts_buffer = [ex_bad], ts_poisoned = []\<rparr>"]
  by simp

text \<open>
  C32. With a negative retry bound no loop body runs: a flush empties the buffer, asks the database
  nothing, poisons nothing and reports success.
\<close>

theorem negative_retry_bound_drops_buffer:
  assumes "ts_maxRetries s < 0"
  shows "TimescaleSink_Flush copyFrom execSQL s = (s\<lparr>ts_buffer := []\<rparr>, None)"
  using assms
  by (simp add: TimescaleSink_Flush_def drainBuffer_def retry_negative flush_rows_negative)

theorem negative_retry_bound_drops_buffer_witness:
  "TimescaleSink_Flush pg_copy pg_exec
     ((ex_buffered \<lparr>pg_rows = [], pg_faults = []\<rparr> [ex_row_event ''k''])\<lparr>ts_maxRetries := -1\<rparr>) =
   ((ex_buffered \<lparr>pg_rows = [], pg_faults = []\<rparr> [])\<lparr>ts_maxRetries := -1\<rparr>, None)"
  using negative_retry_bound_drops_buffer
    [of "(ex_buffered \<lparr>pg_rows = [], pg_faults = []\<rparr> [ex_row_event ''k''])\<lparr>ts_maxRetries := -1\<rparr>"
      pg_copy pg_exec]
  by (simp add: ex_buffered_def)

text \<open>
  The buffer is bounded: with a positive batch size, no run of writes ever leaves the batch
  size or more events in memory.
\<close>

theorem buffer_stays_below_batch_size:
  assumes "0 < ts_batchSize s" and "int (length (ts_buffer s)) < ts_batchSize s"
  shows "int (length (ts_buffer (fold (\<lambda>e s. fst (TimescaleSink_Write copyFrom execSQL s e)) es s)))
    < ts_batchSize s"
proof -
  let ?I = "\<lambda>t. ts_batchSize t = ts_batchSize s \<and> int (length (ts_buffer t)) < ts_batchSize s"
  have "?I (fold (\<lambda>e s. fst (TimescaleSink_Write copyFrom execSQL s e)) es s)"
    using assms(2) by (intro fold_invariant [where I = ?I])
      (auto simp: TimescaleSink_Write_def Let_def Flush_batchSize Flush_empties_buffer assms(1))
  then show ?thesis by simp
qed

theorem buffer_stays_below_batch_size_witness:
  "length (ts_buffer (fold (\<lambda>e s. fst (TimescaleSink_Write pg_copy pg_exec s e))
     (replicate 25 (ex_row_event ''k'')) (ex_buffered \<lparr>pg_rows = [], pg_faults = []\<rparr> []))) < 10"
  using buffer_stays_below_batch_size [of "ex_buffered \<lparr>pg_rows = [], pg_faults = []\<rparr> []"
      pg_copy pg_exec "replicate 25 (ex_row_event ''k'')"]
  by (simp add: ex_buffered_def)

text \<open>
  The table of the schema never holds two rows with the same idempotency key and time, however
  often an event is written and whichever statements fail: redelivery cannot duplicate a row.
\<close>

theorem table_keys_stay_unique:
  assumes "pg_unique (ts_pool s)"
  shows "pg_unique (ts_pool (fst (TimescaleSink_Flush pg_copy pg_exec
    (fold (\<lambda>e s. fst (TimescaleSink_Write pg_copy pg_exec s e)) es s))))"
proof -
  have w: "pg_unique (ts_pool (fst (TimescaleSink_Write pg_copy pg_exec t e)))"
    if "pg_unique (ts_pool t)" for t e
    using that Flush_unique [of "t\<lparr>ts_buffer := ts_buffer t @ [e]\<rparr>"]
    by (simp add: TimescaleSink_Write_def Let_def)
  have "pg_unique (ts_pool (fold (\<lambda>e s. fst (TimescaleSink_Write pg_copy pg_exec s e)) es s))"
    using assms by (rule fold_invariant) (rule w)
  then show ?thesis by (rule Flush_unique)
qed

theorem table_keys_stay_unique_witness:
  "pg_unique (ts_pool (fst (TimescaleSink_Flush pg_copy pg_exec
    (fold (\<lambda>e s. fst (TimescaleSink_Write pg_copy pg_exec s e)) [ex_row_event ''k'', ex_row_event ''k'']
      (ex_buffered \<lparr>pg_rows = [], pg_faults = []\<rparr> [])))))"
  by (rule table_keys_stay_unique) (simp add: ex_buffered_def pg_unique_def pg_keys_def)

section \<open>Properties of the other components\<close>

text \<open>
  What the gateway's Kafka sink wrote, the consumer reads: an acknowledged write leaves a record
  in the log that is keyed by the device and whose value decodes to the very event.
\<close>

theorem kafka_write_then_decode:
  assumes "kafka_log produce holds" and "codec_roundtrip marshal unmarshal"
    and "KafkaSink_Write marshal produce s e = (s', None)"
  shows "\<exists>r. holds (ks_client s') r \<and> Topic r = ks_topic s \<and> Key r = DeviceID e \<and>
    DecodeRecord unmarshal (RecValue r) = Inr e"
proof -
  from kafka_log.write_logs [OF assms(1,3)] obtain val
    where v: "marshal (telemetry_of_event e) = Inr val"
      and h: "holds (ks_client s') (KafkaSink_record (ks_topic s') e val)"
    by (auto simp: kafka_log.logged_def [OF assms(1)])
  have "ks_topic s' = ks_topic s"
    using assms(3) by (auto simp: KafkaSink_Write_def split: sum.splits prod.splits)
  with h DecodeRecord_marshal [OF assms(2) v] show ?thesis
    by (intro exI [of _ "KafkaSink_record (ks_topic s') e val"]) (simp add: KafkaSink_record_def)
qed

definition ex_codec :: marshal where
  "ex_codec m = (if m = telemetry_of_event (ex_row_event ''k'') then Inr ''x'' else Inl Canceled)"

definition ex_decodec :: unmarshal where
  "ex_decodec b = (if b = ''x'' then Inr (telemetry_of_event (ex_row_event ''k'')) else Inl Canceled)"

theorem kafka_write_then_decode_witness:
  "\<exists>r. broker_holds (ks_client (fst (KafkaSink_Write ex_codec broker_produce
        \<lparr>ks_client = \<lparr>b_log = [], b_faults = []\<rparr>, ks_topic = ''t''\<rparr> (ex_row_event ''k'')))) r \<and>
     Topic r = ''t'' \<and> Key r = ''d'' \<and> DecodeRecord ex_decodec (RecValue r) = Inr (ex_row_event ''k'')"
proof -
  let ?s = "\<lparr>ks_client = \<lparr>b_log = [], b_faults = []\<rparr>, ks_topic = ''t''\<rparr>"
  have w: "KafkaSink_Write ex_codec broker_produce ?s (ex_row_event ''k'') =
      (fst (KafkaSink_Write ex_codec broker_produce ?s (ex_row_event ''k'')), None)"
    by (simp add: KafkaSink_Write_def ex_codec_def broker_produce_def)
  have "codec_roundtrip ex_codec ex_decodec"
    by (auto simp: codec_roundtrip_def ex_codec_def ex_decodec_def)
  from kafka_write_then_decode [OF bl.kafka_log_axioms this w] show ?thesis
    by (simp add: ex_row_event_def)
qed

text \<open>
  The pipelined duplicate check is the per-key check: when it answers, it answers what one
  \<^verbatim>\<open>Seen\<close> call after another would have answered, and leaves Redis in the same state.
\<close>

theorem seen_batch_refines_seen:
  assumes "redis setnx exec live" and "Deduper_SeenBatch exec d keys = (d', Inr bs)"
  shows "seen_each setnx d keys = (d', map Inr bs)"
proof (cases "keys = []")
  case True
  with assms(2) show ?thesis by (simp add: Deduper_SeenBatch_def)
next
  case False
  let ?cs = "map (\<lambda>k. SetNX k ''1'' (rd_ttl d)) keys"
  from assms(2) False obtain r' res where e: "exec (rd_client d) ?cs = (r', None, res)"
    and d': "d' = d\<lparr>rd_client := r'\<rparr>" and c: "collect_seen (map res [0..<length keys]) = Inr bs"
    by (auto simp: Deduper_SeenBatch_def split: prod.splits option.splits)
  from redis.collect_seen_Inr [OF assms(1) c] redis.exec_ok [OF assms(1) e]
  have "pipeline_seq setnx (rd_client d) ?cs = (r', map Inr (map Not bs))" by simp
  from seen_each_pipeline [OF this] d' show ?thesis by (simp add: comp_def)
qed

theorem seen_batch_refines_seen_witness:
  "seen_each k_setnx \<lparr>rd_client = \<lparr>k_entries = [(''b'', None)], k_now = 0, k_faults = []\<rparr>, rd_ttl = 5\<rparr>
      [''a'', ''b'', ''a''] =
   (\<lparr>rd_client = \<lparr>k_entries = [(''a'', Some 5), (''b'', None)], k_now = 0, k_faults = []\<rparr>, rd_ttl = 5\<rparr>,
    map Inr [False, True, True])"
  by (rule seen_batch_refines_seen [OF kr.redis_axioms])
    (simp add: Deduper_SeenBatch_def k_exec_def k_setnx_def k_set_def k_live_def)

text \<open>
  A dead-lettered record identifies its source: two sends that produce the same record came
  from the same topic, partition and offset, with the same key, value and error text.
\<close>

theorem dlq_record_identifies_source:
  assumes "dlq_record d t part off k v c = dlq_record d' t' part' off' k' v' c'"
  shows "t = t' \<and> part = part' \<and> off = off' \<and> k = k' \<and> v = v' \<and> Error c = Error c'"
  using dlq_record_inject [OF assms] by blast

theorem dlq_record_identifies_source_witness:
  "Error (Wrapped ''a'' (ErrorText ''b'')) = Error (ErrorText ''ab'')"
  using dlq_record_identifies_source [of "''q''" "''t''" "-1" 7 "''k''" "''v''"
      "Wrapped ''a'' (ErrorText ''b'')" "''q''" "''t''" "-1" 7 "''k''" "''v''" "ErrorText ''ab''"]
  by (simp add: dlq_record_def)

text \<open>
  The memory sink counts: from a new sink, any \<open>n\<close> writes (fewer than two to the 64th) leave the
  counter at \<open>n\<close>, in whatever order concurrent workers issue them.
\<close>

lemma memory_sink_counts_writes:
  assumes "length es < 2 ^ 64" and "mset es' = mset es"
  shows "unat (MemorySink_Accepted (fold (\<lambda>e s. fst (MemorySink_Write s e)) es' NewMemorySink)) =
    length es"
  using assms mset_eq_length [OF assms(2)]
  by (simp add: MemorySink_Accepted_def MemorySink_writes_count NewMemorySink_def unat_of_nat_u64)

end
