(* ===== verification/Transitions.thy ===== *)
theory Transitions
  imports Prelude
begin

text \<open>
  Interleavings of goroutines as labelled transition systems.  A component gives the function
  \<open>nxt\<close> that runs one atomic step: it returns the next state, waits, or panics.  The locales state
  what a component has to show of its single steps; the lemmas inside lift that to every schedule.
\<close>

datatype 'a run = Returns 'a | Blocks | Panics string

text \<open>A schedule is a list of labels; a label whose step waits or panics ends it.\<close>

fun exec :: "('l \<Rightarrow> 'p \<Rightarrow> 'p run) \<Rightarrow> 'l list \<Rightarrow> 'p \<Rightarrow> 'p option" where
  "exec nxt [] p = Some p"
| "exec nxt (l # ls) p = (case nxt l p of Returns p' \<Rightarrow> exec nxt ls p' | _ \<Rightarrow> None)"

lemma exec_append: "exec nxt (ls @ ls') p = Option.bind (exec nxt ls p) (exec nxt ls')"
  by (induction ls arbitrary: p) (auto split: run.split)

lemma exec_Cons_iff:
  "exec nxt (l # ls) p = Some p' \<longleftrightarrow> (\<exists>p1. nxt l p = Returns p1 \<and> exec nxt ls p1 = Some p')"
  by (auto split: run.split)

declare exec.simps(2) [simp del]

lemma exec_single: "nxt l p = Returns p' \<Longrightarrow> exec nxt [l] p = Some p'"
  by (simp add: exec_Cons_iff)

text \<open>An invariant of the single steps.\<close>

locale invariant_lts =
  fixes nxt :: "'l \<Rightarrow> 'p \<Rightarrow> 'p run"
    and ok :: "'p \<Rightarrow> bool"
  assumes step_ok: "ok p \<Longrightarrow> nxt l p = Returns p' \<Longrightarrow> ok p'"
begin

lemma exec_ok: "exec nxt ls p = Some p' \<Longrightarrow> ok p \<Longrightarrow> ok p'"
  by (induction ls arbitrary: p) (auto simp: exec_Cons_iff intro: step_ok)

text \<open>A fact that every step keeps while the invariant holds.\<close>

lemma exec_keeps:
  assumes "exec nxt ls p = Some p'" and "ok p" and "Q p"
    and "\<And>p l p'. ok p \<Longrightarrow> Q p \<Longrightarrow> nxt l p = Returns p' \<Longrightarrow> Q p'"
  shows "Q p'"
  using assms(1-3)
  by (induction ls arbitrary: p) (auto simp: exec_Cons_iff intro: step_ok assms(4))

end

text \<open>
  Conservation: a step takes items in, gives items out, and what the state holds changes by
  exactly that.
\<close>

locale conserving_lts = invariant_lts nxt ok
  for nxt :: "'l \<Rightarrow> 'p \<Rightarrow> 'p run" and ok :: "'p \<Rightarrow> bool" +
  fixes held :: "'p \<Rightarrow> 'i multiset"
    and ins :: "'l \<Rightarrow> 'i list"
    and outs :: "'l \<Rightarrow> 'i list"
  assumes step_conserves:
    "ok p \<Longrightarrow> nxt l p = Returns p' \<Longrightarrow> held p' + mset (outs l) = held p + mset (ins l)"
begin

lemma exec_conserves:
  assumes "exec nxt ls p = Some p'" and "ok p"
  shows "held p' + mset (concat (map outs ls)) = held p + mset (concat (map ins ls))"
  using assms
proof (induction ls arbitrary: p)
  case (Cons l ls)
  from Cons.prems(1) obtain p1 where s: "nxt l p = Returns p1" and r: "exec nxt ls p1 = Some p'"
    unfolding exec_Cons_iff by blast
  from Cons.IH [OF r step_ok [OF Cons.prems(2) s]] step_conserves [OF Cons.prems(2) s]
  show ?case by simp (metis union_assoc union_commute)
qed simp

end

text \<open>
  A phase that ends: in it every step lowers a rank, the phase is never left, and a state that is
  not final has an enabled step.  Then every schedule is bounded by the rank, a schedule that
  cannot be extended has reached a final state, and a final state can be reached.
\<close>

locale draining_lts = invariant_lts nxt ok
  for nxt :: "'l \<Rightarrow> 'p \<Rightarrow> 'p run" and ok :: "'p \<Rightarrow> bool" +
  fixes phase :: "'p \<Rightarrow> bool"
    and final :: "'p \<Rightarrow> bool"
    and rank :: "'p \<Rightarrow> nat"
  assumes phase_stays: "ok p \<Longrightarrow> phase p \<Longrightarrow> nxt l p = Returns p' \<Longrightarrow> phase p'"
    and rank_falls: "ok p \<Longrightarrow> phase p \<Longrightarrow> nxt l p = Returns p' \<Longrightarrow> rank p' < rank p"
    and progress: "ok p \<Longrightarrow> phase p \<Longrightarrow> \<not> final p \<Longrightarrow> \<exists>l p'. nxt l p = Returns p'"
begin

lemma exec_rank:
  assumes "exec nxt ls p = Some p'" and "ok p" and "phase p"
  shows "length ls + rank p' \<le> rank p \<and> ok p' \<and> phase p'"
  using assms
proof (induction ls arbitrary: p)
  case (Cons l ls)
  from Cons.prems(1) obtain p1 where s: "nxt l p = Returns p1" and r: "exec nxt ls p1 = Some p'"
    unfolding exec_Cons_iff by blast
  note ok1 = step_ok [OF Cons.prems(2) s] and ph1 = phase_stays [OF Cons.prems(2,3) s]
  from Cons.IH [OF r ok1 ph1] rank_falls [OF Cons.prems(2,3) s] show ?case by simp
qed simp

lemma maximal_is_final:
  assumes "exec nxt ls p = Some p'" and "ok p" and "phase p"
    and "\<And>l. exec nxt (ls @ [l]) p = None"
  shows "final p'"
proof (rule ccontr)
  assume "\<not> final p'"
  with exec_rank [OF assms(1-3)] progress obtain l p'' where "nxt l p' = Returns p''" by blast
  with assms(1) have "exec nxt (ls @ [l]) p = Some p''" by (simp add: exec_append exec_single)
  with assms(4) show False by simp
qed

lemma final_reachable:
  assumes "ok p" and "phase p"
  shows "\<exists>ls p'. exec nxt ls p = Some p' \<and> final p'"
  using assms
proof (induction "rank p" arbitrary: p rule: less_induct)
  case less
  show ?case
  proof (cases "final p")
    case True
    then show ?thesis by (intro exI [of _ "[]"]) simp
  next
    case False
    with less.prems progress obtain l p1 where s: "nxt l p = Returns p1" by blast
    from less.hyps [OF rank_falls [OF less.prems s] step_ok [OF less.prems(1) s] phase_stays [OF less.prems s]]
    obtain ls p' where "exec nxt ls p1 = Some p'" "final p'" by blast
    with s have "exec nxt (l # ls) p = Some p'" by (auto simp: exec_Cons_iff)
    with \<open>final p'\<close> show ?thesis by blast
  qed
qed

end

end
