(* ===== verification/Pool.thy ===== *)
theory Pool
  imports Sink Transitions
begin

text \<open>
  \<^verbatim>\<open>internal/pool\<close>: the bounded queue in front of a sink and the worker goroutines that drain it.

  The queue is a Go channel: a buffer of fixed capacity, the queue of the goroutines parked in a
  receive, and the closed flag.  A send hands its value to a parked receiver when there is one,
  goes to the buffer when there is room, panics on a closed channel, and blocks otherwise.  A
  worker is where its loop \<^verbatim>\<open>for e := range p.queue\<close> stands.  Goroutines interleave between these
  atomic steps, so the pool is a labelled transition system: \<open>pool_step\<close> is the relation and
  \<open>pool_next\<close> its executable form.  A sender that waits is a send that is not enabled yet.
  \<^verbatim>\<open>sink.Write\<close> takes effect at one moment of the call.
\<close>

section \<open>State\<close>

datatype worker = Ready | Parked | Writing Event | Exited

record ('s, 'h) Pool =
  queue :: "Event list"
  queue_cap :: int
  queue_closed :: bool
  recvq :: "nat list"
  workers :: "worker list"
  wg :: int
  psink :: 's
  errFn :: "go_error \<Rightarrow> 'h \<Rightarrow> 'h"
  handler :: 'h

text \<open>
  \<^verbatim>\<open>New\<close>: a nil \<^verbatim>\<open>errFn\<close> becomes one that does nothing; \<^verbatim>\<open>make\<close> panics on a negative size and
  \<^verbatim>\<open>wg.Add\<close> on a negative count.
\<close>

definition pool_New ::
  "int \<Rightarrow> int \<Rightarrow> 's \<Rightarrow> (go_error \<Rightarrow> 'h \<Rightarrow> 'h) option \<Rightarrow> 'h \<Rightarrow> ('s, 'h) Pool run" where
  "pool_New n queueSize s f h =
     (if queueSize < 0 then Panics ''makechan: size out of range''
      else if n < 0 then Panics ''sync: negative WaitGroup counter''
      else Returns \<lparr>queue = [], queue_cap = queueSize, queue_closed = False, recvq = [],
             workers = replicate (nat n) Ready, wg = n, psink = s,
             errFn = (case f of None \<Rightarrow> (\<lambda>err h. h) | Some g \<Rightarrow> g), handler = h\<rparr>)"

section \<open>Channel operations\<close>

definition chan_send :: "Event \<Rightarrow> ('s, 'h) Pool \<Rightarrow> ('s, 'h) Pool run" where
  "chan_send e p =
     (if queue_closed p then Panics ''send on closed channel''
      else case recvq p of
        w # ws \<Rightarrow> Returns (p\<lparr>recvq := ws, workers := (workers p)[w := Writing e]\<rparr>)
      | [] \<Rightarrow>
          (if int (length (queue p)) < queue_cap p then Returns (p\<lparr>queue := queue p @ [e]\<rparr>) else Blocks))"

text \<open>A worker at the head of its loop receives: the oldest event, the end of a closed queue, or it parks.\<close>

definition worker_receive :: "nat \<Rightarrow> ('s, 'h) Pool \<Rightarrow> ('s, 'h) Pool" where
  "worker_receive w p =
     (case queue p of
        e # q \<Rightarrow> p\<lparr>queue := q, workers := (workers p)[w := Writing e]\<rparr>
      | [] \<Rightarrow>
          (if queue_closed p then p\<lparr>workers := (workers p)[w := Exited], wg := wg p - 1\<rparr>
           else p\<lparr>recvq := recvq p @ [w], workers := (workers p)[w := Parked]\<rparr>))"

text \<open>The body of the loop: write, report the error if there is one, and go round.\<close>

definition worker_write :: "'s sink_ops \<Rightarrow> nat \<Rightarrow> Event \<Rightarrow> ('s, 'h) Pool \<Rightarrow> ('s, 'h) Pool" where
  "worker_write ops w e p =
     (case Write ops (psink p) e of
        (s', err) \<Rightarrow>
          p\<lparr>psink := s', workers := (workers p)[w := Ready],
            handler := (case err of None \<Rightarrow> handler p | Some x \<Rightarrow> errFn p x (handler p))\<rparr>)"

text \<open>\<^verbatim>\<open>close\<close> wakes the parked receivers, which find the queue closed and empty.\<close>

definition unpark :: "worker \<Rightarrow> worker" where
  "unpark w = (if w = Parked then Ready else w)"

definition chan_close :: "('s, 'h) Pool \<Rightarrow> ('s, 'h) Pool run" where
  "chan_close p =
     (if queue_closed p then Panics ''close of closed channel''
      else Returns (p\<lparr>queue_closed := True, recvq := [], workers := map unpark (workers p)\<rparr>))"

section \<open>The exported operations\<close>

text \<open>
  \<^verbatim>\<open>TrySubmit\<close> is a select with a default.  \<^verbatim>\<open>Submit\<close> selects between the send and
  \<^verbatim>\<open>ctx.Done()\<close>: \<open>ctxErr\<close> is the error of a context that is done, and when both cases are ready
  Go chooses one, \<open>pick\<close> standing for the choice of the send.
\<close>

definition TrySubmit :: "Event \<Rightarrow> ('s, 'h) Pool \<Rightarrow> (('s, 'h) Pool \<times> bool) run" where
  "TrySubmit e p =
     (case chan_send e p of
        Returns p' \<Rightarrow> Returns (p', True)
      | Blocks \<Rightarrow> Returns (p, False)
      | Panics m \<Rightarrow> Panics m)"

definition Submit ::
  "go_error option \<Rightarrow> bool \<Rightarrow> Event \<Rightarrow> ('s, 'h) Pool \<Rightarrow> (('s, 'h) Pool \<times> go_error option) run" where
  "Submit ctxErr pick e p =
     (case chan_send e p of
        Returns p' \<Rightarrow> if ctxErr \<noteq> None \<and> \<not> pick then Returns (p, ctxErr) else Returns (p', None)
      | Blocks \<Rightarrow> if ctxErr \<noteq> None then Returns (p, ctxErr) else Blocks
      | Panics m \<Rightarrow> if ctxErr \<noteq> None \<and> \<not> pick then Returns (p, ctxErr) else Panics m)"

definition QueueDepth :: "('s, 'h) Pool \<Rightarrow> int" where
  "QueueDepth p = int (length (queue p))"

definition QueueCap :: "('s, 'h) Pool \<Rightarrow> int" where
  "QueueCap p = queue_cap p"

text \<open>\<^verbatim>\<open>Close\<close> closes the queue (\<open>chan_close\<close>) and then waits until the wait group is at zero.\<close>

definition Close_returns :: "('s, 'h) Pool \<Rightarrow> bool" where
  "Close_returns p \<longleftrightarrow> queue_closed p \<and> wg p = 0"

section \<open>Steps and executions\<close>

datatype pool_label = LSend Event | LReceive nat | LWrite nat Event | LClose

definition at_worker :: "('s, 'h) Pool \<Rightarrow> nat \<Rightarrow> worker \<Rightarrow> bool" where
  "at_worker p w x \<longleftrightarrow> w < length (workers p) \<and> workers p ! w = x"

inductive pool_step ::
  "'s sink_ops \<Rightarrow> ('s, 'h) Pool \<Rightarrow> pool_label \<Rightarrow> ('s, 'h) Pool \<Rightarrow> bool" for ops where
  send: "chan_send e p = Returns p' \<Longrightarrow> pool_step ops p (LSend e) p'"
| receive: "at_worker p w Ready \<Longrightarrow> pool_step ops p (LReceive w) (worker_receive w p)"
| finish: "at_worker p w (Writing e) \<Longrightarrow> pool_step ops p (LWrite w e) (worker_write ops w e p)"
| close: "chan_close p = Returns p' \<Longrightarrow> pool_step ops p LClose p'"

inductive_cases pool_step_sendE: "pool_step ops p (LSend e) p'"
inductive_simps pool_step_simps:
  "pool_step ops p (LSend e) p'" "pool_step ops p (LReceive w) p'"
  "pool_step ops p (LWrite w e) p'" "pool_step ops p LClose p'"

fun pool_next :: "'s sink_ops \<Rightarrow> pool_label \<Rightarrow> ('s, 'h) Pool \<Rightarrow> ('s, 'h) Pool run" where
  "pool_next ops (LSend e) p = chan_send e p"
| "pool_next ops (LReceive w) p = (if at_worker p w Ready then Returns (worker_receive w p) else Blocks)"
| "pool_next ops (LWrite w e) p =
     (if at_worker p w (Writing e) then Returns (worker_write ops w e p) else Blocks)"
| "pool_next ops LClose p = chan_close p"

lemma pool_step_iff_next: "pool_step ops p l p' \<longleftrightarrow> pool_next ops l p = Returns p'"
  by (cases l) (auto simp: pool_step_simps)

section \<open>Well-formedness\<close>

definition unfinished :: "worker \<Rightarrow> int" where
  "unfinished w = (if w = Exited then 0 else 1)"

text \<open>
  The buffer never exceeds its capacity; the receive queue holds exactly the parked workers, each
  once, and only while the queue is open and empty; the wait group counts the workers that have
  not left; a worker leaves only a closed and empty queue.
\<close>

definition pool_wf :: "('s, 'h) Pool \<Rightarrow> bool" where
  "pool_wf p \<longleftrightarrow>
     int (length (queue p)) \<le> queue_cap p \<and>
     (recvq p \<noteq> [] \<longrightarrow> queue p = [] \<and> \<not> queue_closed p) \<and>
     distinct (recvq p) \<and>
     (\<forall>w. w \<in> set (recvq p) \<longleftrightarrow> at_worker p w Parked) \<and>
     wg p = sum_list (map unfinished (workers p)) \<and>
     (Exited \<in> set (workers p) \<longrightarrow> queue_closed p \<and> queue p = [])"

lemma pool_wfI:
  assumes "int (length (queue p)) \<le> queue_cap p"
    and "recvq p \<noteq> [] \<Longrightarrow> queue p = [] \<and> \<not> queue_closed p"
    and "distinct (recvq p)"
    and "\<And>w. w \<in> set (recvq p) \<longleftrightarrow> at_worker p w Parked"
    and "wg p = sum_list (map unfinished (workers p))"
    and "Exited \<in> set (workers p) \<Longrightarrow> queue_closed p \<and> queue p = []"
  shows "pool_wf p"
  using assms by (simp add: pool_wf_def)

lemma pool_wfD:
  assumes "pool_wf p"
  shows wf_cap: "int (length (queue p)) \<le> queue_cap p"
    and wf_parked_idle: "recvq p \<noteq> [] \<Longrightarrow> queue p = [] \<and> \<not> queue_closed p"
    and wf_recvq_distinct: "distinct (recvq p)"
    and wf_recvq_parked: "w \<in> set (recvq p) \<longleftrightarrow> at_worker p w Parked"
    and wf_wg: "wg p = sum_list (map unfinished (workers p))"
    and wf_exited: "Exited \<in> set (workers p) \<Longrightarrow> queue_closed p \<and> queue p = []"
  using assms by (simp_all add: pool_wf_def)

lemma unfinished_update:
  assumes "w < length ws" and "unfinished x = unfinished (ws ! w)"
  shows "sum_list (map unfinished (ws[w := x])) = sum_list (map unfinished ws)"
  using sum_list_update_add [of w ws unfinished x] assms by simp

lemma at_worker_update:
  assumes "w < length (workers p)" and "workers p' = (workers p)[w := x]"
  shows "at_worker p' v y \<longleftrightarrow> (if v = w then x = y else at_worker p v y)"
  using assms by (auto simp: at_worker_def nth_list_update)

lemma set_update_Exited:
  "x \<noteq> Exited \<Longrightarrow> Exited \<in> set (ws[w := x]) \<Longrightarrow> Exited \<in> set ws"
  using set_update_subset_insert [of ws w x] by auto

lemma New_wf:
  assumes "pool_New n c s f h = Returns p" shows "pool_wf p"
proof -
  have "sum_list (map unfinished (replicate k Ready)) = int k" for k
    by (induction k) (auto simp: unfinished_def)
  with assms show ?thesis
    by (auto simp: pool_New_def pool_wf_def at_worker_def split: if_splits)
qed

lemma not_parked: "Parked \<notin> set (workers p) \<Longrightarrow> \<not> at_worker p w Parked"
  by (auto simp: at_worker_def in_set_conv_nth)

lemma busy_pool_wf:
  assumes "recvq p = []" and "Parked \<notin> set (workers p)" and "Exited \<notin> set (workers p)"
    and "int (length (queue p)) \<le> queue_cap p" and "wg p = sum_list (map unfinished (workers p))"
  shows "pool_wf p"
  using assms by (simp add: pool_wf_def not_parked)

lemma chan_send_wf:
  assumes "pool_wf p" and "chan_send e p = Returns p'" shows "pool_wf p'"
proof (cases "recvq p")
  case Nil
  with assms show ?thesis
    by (auto simp: chan_send_def pool_wf_def at_worker_def split: if_splits)
next
  case (Cons w ws)
  with assms(2) have p': "p' = p\<lparr>recvq := ws, workers := (workers p)[w := Writing e]\<rparr>" and o: "\<not> queue_closed p"
    by (auto simp: chan_send_def split: if_splits)
  from wf_recvq_parked [OF assms(1), of w] Cons have w: "w < length (workers p)" "workers p ! w = Parked"
    by (auto simp: at_worker_def)
  show ?thesis
  proof (rule pool_wfI)
    show "v \<in> set (recvq p') \<longleftrightarrow> at_worker p' v Parked" for v
      using wf_recvq_parked [OF assms(1), of v] wf_recvq_distinct [OF assms(1)] Cons
        at_worker_update [OF w(1), of p' "Writing e" v Parked] p' by auto
    show "wg p' = sum_list (map unfinished (workers p'))"
      using wf_wg [OF assms(1)] w p' by (simp add: unfinished_update unfinished_def)
    show "queue_closed p' \<and> queue p' = []" if "Exited \<in> set (workers p')"
      using wf_exited [OF assms(1)] set_update_Exited [of "Writing e" "workers p" w] that p' by auto
  qed (use assms(1) Cons p' in \<open>auto simp: pool_wf_def\<close>)
qed

text \<open>A worker that is not parked moves to a state that is neither parked nor left.\<close>

lemma move_worker_wf:
  assumes "pool_wf p" and "at_worker p w x" and "x \<noteq> Parked" and "x \<noteq> Exited"
    and "y \<noteq> Parked" and "y \<noteq> Exited"
    and "workers p' = (workers p)[w := y]" and "recvq p' = recvq p" and "wg p' = wg p"
    and "queue_closed p' = queue_closed p" and "queue_cap p' = queue_cap p"
    and "queue p' = queue p \<or> queue p' = tl (queue p)"
  shows "pool_wf p'"
proof (rule pool_wfI)
  have w: "w < length (workers p)" "workers p ! w = x" using assms(2) by (auto simp: at_worker_def)
  show "int (length (queue p')) \<le> queue_cap p'"
    using wf_cap [OF assms(1)] assms(11,12) by auto
  show "queue p' = [] \<and> \<not> queue_closed p'" if "recvq p' \<noteq> []"
    using wf_parked_idle [OF assms(1)] that assms(8,10,12) by auto
  show "distinct (recvq p')" using wf_recvq_distinct [OF assms(1)] assms(8) by simp
  show "v \<in> set (recvq p') \<longleftrightarrow> at_worker p' v Parked" for v
    using wf_recvq_parked [OF assms(1), of v] at_worker_update [OF w(1) assms(7), of v Parked]
      assms(2,3,5,8) by (auto simp: at_worker_def)
  show "wg p' = sum_list (map unfinished (workers p'))"
    using wf_wg [OF assms(1)] w assms(4,6,7,9) by (simp add: unfinished_update unfinished_def)
  show "queue_closed p' \<and> queue p' = []" if "Exited \<in> set (workers p')"
    using wf_exited [OF assms(1)] set_update_Exited [OF assms(6), of "workers p" w] that assms(7,10,12)
    by auto
qed

lemma worker_write_frame:
  "queue (worker_write ops w e p) = queue p" "queue_cap (worker_write ops w e p) = queue_cap p"
  "queue_closed (worker_write ops w e p) = queue_closed p" "recvq (worker_write ops w e p) = recvq p"
  "wg (worker_write ops w e p) = wg p" "workers (worker_write ops w e p) = (workers p)[w := Ready]"
  "psink (worker_write ops w e p) = fst (Write ops (psink p) e)" "errFn (worker_write ops w e p) = errFn p"
  by (simp_all add: worker_write_def split: prod.split)

lemma worker_write_wf:
  "pool_wf p \<Longrightarrow> at_worker p w (Writing e) \<Longrightarrow> pool_wf (worker_write ops w e p)"
  by (rule move_worker_wf [where x = "Writing e" and y = Ready and w = w and p = p]) (simp_all add: worker_write_frame)

lemma worker_receive_wf:
  assumes "pool_wf p" and "at_worker p w Ready" shows "pool_wf (worker_receive w p)"
proof (cases "queue p")
  case (Cons e q)
  show ?thesis
    by (rule move_worker_wf [OF assms, where y = "Writing e"]) (simp_all add: worker_receive_def Cons)
next
  case Nil
  have w: "w < length (workers p)" "workers p ! w = Ready" using assms(2) by (auto simp: at_worker_def)
  show ?thesis
  proof (cases "queue_closed p")
    case True
    let ?p = "p\<lparr>workers := (workers p)[w := Exited], wg := wg p - 1\<rparr>"
    have "pool_wf ?p"
    proof (rule pool_wfI)
      show "v \<in> set (recvq ?p) \<longleftrightarrow> at_worker ?p v Parked" for v
        using wf_recvq_parked [OF assms(1), of v] at_worker_update [OF w(1), of ?p Exited v Parked] assms(2)
        by (auto simp: at_worker_def)
      show "wg ?p = sum_list (map unfinished (workers ?p))"
        using wf_wg [OF assms(1)] sum_list_update_add [OF w(1), of unfinished Exited] w(2) by (simp add: unfinished_def)
    qed (use assms(1) Nil True in \<open>auto simp: pool_wf_def\<close>)
    with Nil True show ?thesis by (simp add: worker_receive_def)
  next
    case False
    let ?p = "p\<lparr>recvq := recvq p @ [w], workers := (workers p)[w := Parked]\<rparr>"
    have new: "w \<notin> set (recvq p)" using wf_recvq_parked [OF assms(1), of w] w by (auto simp: at_worker_def)
    have "pool_wf ?p"
    proof (rule pool_wfI)
      show "v \<in> set (recvq ?p) \<longleftrightarrow> at_worker ?p v Parked" for v
        using wf_recvq_parked [OF assms(1), of v] at_worker_update [OF w(1), of ?p Parked v Parked] by auto
      show "wg ?p = sum_list (map unfinished (workers ?p))"
        using wf_wg [OF assms(1)] w by (simp add: unfinished_update unfinished_def)
      show "queue_closed ?p \<and> queue ?p = []" if "Exited \<in> set (workers ?p)"
        using wf_exited [OF assms(1)] set_update_Exited [of Parked "workers p" w] that by auto
    qed (use assms(1) Nil False new in \<open>auto simp: pool_wf_def\<close>)
    with Nil False show ?thesis by (simp add: worker_receive_def)
  qed
qed

lemma chan_close_wf:
  assumes "pool_wf p" and "chan_close p = Returns p'" shows "pool_wf p'"
proof (rule pool_wfI)
  from assms(2) have p': "p' = p\<lparr>queue_closed := True, recvq := [], workers := map unpark (workers p)\<rparr>"
    and o: "\<not> queue_closed p" by (auto simp: chan_close_def split: if_splits)
  show "int (length (queue p')) \<le> queue_cap p'" using wf_cap [OF assms(1)] p' by simp
  show "v \<in> set (recvq p') \<longleftrightarrow> at_worker p' v Parked" for v
    using p' by (auto simp: at_worker_def unpark_def)
  have "unfinished (unpark w) = unfinished w" for w by (simp add: unfinished_def unpark_def)
  then show "wg p' = sum_list (map unfinished (workers p'))"
    using wf_wg [OF assms(1)] p' by (simp add: comp_def)
  show "queue_closed p' \<and> queue p' = []" if "Exited \<in> set (workers p')"
    using wf_exited [OF assms(1)] that o p' by (auto simp: unpark_def split: if_splits)
qed (use assms in \<open>auto simp: chan_close_def split: if_splits\<close>)

lemma pool_step_wf [keeps_rules]: "pool_step ops p l p' \<Longrightarrow> pool_wf p \<Longrightarrow> pool_wf p'"
  by (induction rule: pool_step.induct)
    (auto intro: chan_send_wf worker_receive_wf worker_write_wf chan_close_wf)

section \<open>Conservation of events\<close>

fun task :: "worker \<Rightarrow> Event multiset" where
  "task (Writing e) = {#e#}"
| "task w = {#}"

text \<open>The events the pool holds: those in the buffer and those a worker is writing.\<close>

definition held :: "('s, 'h) Pool \<Rightarrow> Event multiset" where
  "held p = mset (queue p) + sum_list (map task (workers p))"

fun sent_of :: "pool_label \<Rightarrow> Event list" where
  "sent_of (LSend e) = [e]"
| "sent_of l = []"

fun written_of :: "pool_label \<Rightarrow> Event list" where
  "written_of (LWrite w e) = [e]"
| "written_of l = []"

definition sent :: "pool_label list \<Rightarrow> Event list" where
  "sent ls = concat (map sent_of ls)"

definition written :: "pool_label list \<Rightarrow> Event list" where
  "written ls = concat (map written_of ls)"

lemma sent_simps [simp]: "sent [] = []" "sent (l # ls) = sent_of l @ sent ls" "sent (ls @ ls') = sent ls @ sent ls'"
  by (simp_all add: sent_def)

lemma written_simps [simp]:
  "written [] = []" "written (l # ls) = written_of l @ written ls" "written (ls @ ls') = written ls @ written ls'"
  by (simp_all add: written_def)

lemma task_update:
  assumes "w < length ws" and "task (ws ! w) = {#}"
  shows "sum_list (map task (ws[w := x])) = sum_list (map task ws) + task x"
  using sum_list_update_add [of w ws task x] assms by simp

lemma chan_send_held:
  assumes "pool_wf p" and "chan_send e p = Returns p'" shows "held p' = held p + {#e#}"
proof (cases "recvq p")
  case (Cons w ws)
  with wf_recvq_parked [OF assms(1), of w] have "w < length (workers p)" "task (workers p ! w) = {#}"
    by (auto simp: at_worker_def)
  with assms(2) Cons show ?thesis
    by (auto simp: chan_send_def held_def task_update split: if_splits)
qed (use assms(2) in \<open>auto simp: chan_send_def held_def split: if_splits\<close>)

lemma worker_receive_held: "at_worker p w Ready \<Longrightarrow> held (worker_receive w p) = held p"
  by (auto simp: worker_receive_def held_def at_worker_def task_update split: list.split)

lemma worker_write_held: "at_worker p w (Writing e) \<Longrightarrow> add_mset e (held (worker_write ops w e p)) = held p"
  using sum_list_update_add [of w "workers p" task Ready]
  by (auto simp: worker_write_frame held_def at_worker_def)

lemma chan_close_held: "chan_close p = Returns p' \<Longrightarrow> held p' = held p"
proof -
  have "task (unpark w) = task w" for w by (cases w) (auto simp: unpark_def)
  then show "chan_close p = Returns p' \<Longrightarrow> held p' = held p"
    by (auto simp: chan_close_def held_def comp_def split: if_splits)
qed

lemma pool_step_conserves:
  assumes "pool_step ops p l p'" and "pool_wf p"
  shows "held p' + mset (written_of l) = held p + mset (sent_of l)"
  using assms
  by (induction rule: pool_step.induct)
    (auto simp: chan_send_held worker_receive_held worker_write_held chan_close_held)

interpretation pl: conserving_lts "pool_next ops" pool_wf held sent_of written_of for ops
  by unfold_locales
    (auto simp: pool_step_conserves pool_step_iff_next [symmetric] intro: keeps_rules)

lemma New_holds_nothing:
  assumes "pool_New n c s f h = Returns p" shows "held p = {#}"
proof -
  have "sum_list (map task (replicate k Ready)) = {#}" for k by (induction k) auto
  with assms show ?thesis by (auto simp: pool_New_def held_def split: if_splits)
qed

lemma New_conserves:
  assumes "pool_New n c s f h = Returns p" and "exec (pool_next ops) ls p = Some p'"
  shows "mset (sent ls) = held p' + mset (written ls)"
  using pl.exec_conserves [OF assms(2) New_wf [OF assms(1)]] New_holds_nothing [OF assms(1)]
  by (simp add: sent_def written_def)

text \<open>What the sink and the error handler have seen is determined by the order of the writes.\<close>

fun pool_writes :: "'s sink_ops \<Rightarrow> (go_error \<Rightarrow> 'h \<Rightarrow> 'h) \<Rightarrow> Event list \<Rightarrow> 's \<times> 'h \<Rightarrow> 's \<times> 'h" where
  "pool_writes ops f [] sh = sh"
| "pool_writes ops f (e # es) (s, h) =
     (case Write ops s e of
        (s', err) \<Rightarrow> pool_writes ops f es (s', case err of None \<Rightarrow> h | Some x \<Rightarrow> f x h))"

lemma pool_next_sink:
  assumes "pool_next ops l p = Returns p'"
  shows "errFn p' = errFn p \<and>
    (psink p', handler p') = pool_writes ops (errFn p) (written_of l) (psink p, handler p)"
  using assms
  by (cases l) (auto simp: chan_send_def chan_close_def worker_receive_def worker_write_def
      split: if_splits list.splits prod.splits)

lemma pool_writes_append:
  "pool_writes ops f (es @ es') sh = pool_writes ops f es' (pool_writes ops f es sh)"
  by (induction ops f es sh rule: pool_writes.induct) (auto split: prod.split)

lemma exec_sink:
  assumes "exec (pool_next ops) ls p = Some p'"
  shows "errFn p' = errFn p \<and>
    (psink p', handler p') = pool_writes ops (errFn p) (written ls) (psink p, handler p)"
  using assms
proof (induction ls arbitrary: p)
  case (Cons l ls)
  from Cons.prems obtain p1 where s: "pool_next ops l p = Returns p1"
    and r: "exec (pool_next ops) ls p1 = Some p'" unfolding exec_Cons_iff by blast
  from Cons.IH [OF r] pool_next_sink [OF s] show ?case by (simp add: pool_writes_append)
qed simp

lemma next_frame:
  assumes "pool_next ops l p = Returns p'"
  shows "queue_cap p' = queue_cap p \<and> length (workers p') = length (workers p)"
  using assms
  by (cases l) (auto simp: chan_send_def chan_close_def worker_receive_def worker_write_frame
      split: if_splits list.splits)

section \<open>Closing\<close>

fun load :: "worker \<Rightarrow> nat" where
  "load Ready = 1"
| "load (Writing e) = 2"
| "load _ = 0"

text \<open>Every step after the close brings the end nearer.\<close>

definition backlog :: "('s, 'h) Pool \<Rightarrow> nat" where
  "backlog p = 2 * length (queue p) + sum_list (map load (workers p))"

lemma load_update:
  "w < length ws \<Longrightarrow> sum_list (map load (ws[w := x])) + load (ws ! w) = sum_list (map load ws) + load x"
  by (rule sum_list_update_add)

lemma closed_step:
  assumes "pool_wf p" and "queue_closed p" and "pool_next ops l p = Returns p'"
  shows "queue_closed p' \<and> backlog p' < backlog p"
proof (cases l)
  case (LReceive w)
  with assms(3) have w: "w < length (workers p)" "workers p ! w = Ready" and p': "p' = worker_receive w p"
    by (auto simp: at_worker_def split: if_splits)
  show ?thesis
    using load_update [OF w(1), of Exited] load_update [OF w(1), of "Writing (hd (queue p))"] w(2) assms(2)
    by (cases "queue p") (auto simp: p' worker_receive_def backlog_def)
next
  case (LWrite w e)
  with assms(3) have w: "w < length (workers p)" "workers p ! w = Writing e" and p': "p' = worker_write ops w e p"
    by (auto simp: at_worker_def split: if_splits)
  show ?thesis
    using load_update [OF w(1), of Ready] w(2) assms(2) unfolding p'
    by (simp add: backlog_def worker_write_frame)
qed (use assms in \<open>auto simp: chan_send_def chan_close_def\<close>)

lemma all_exited_iff: "sum_list (map unfinished ws) = 0 \<longleftrightarrow> set ws \<subseteq> {Exited}"
proof (induction ws)
  case (Cons w ws)
  have "0 \<le> sum_list (map unfinished ws)" by (induction ws) (auto simp: unfinished_def)
  with Cons show ?case by (cases "w = Exited") (auto simp: unfinished_def [of w] unfinished_def [of Exited])
qed simp

lemma closed_progress:
  assumes "pool_wf p" and "queue_closed p" and "wg p \<noteq> 0"
  shows "\<exists>l p'. pool_next ops l p = Returns p'"
proof -
  from wf_wg [OF assms(1)] assms(3) obtain x where "x \<in> set (workers p)" "x \<noteq> Exited"
    using all_exited_iff [of "workers p"] by auto
  then obtain w where w: "at_worker p w x" unfolding at_worker_def in_set_conv_nth by blast
  have "recvq p = []" using wf_parked_idle [OF assms(1)] assms(2) by blast
  with wf_recvq_parked [OF assms(1), of w] w \<open>x \<noteq> Exited\<close>
  consider "at_worker p w Ready" | e where "at_worker p w (Writing e)" by (cases x) auto
  then show ?thesis
  proof cases
    case 1
    then show ?thesis by (intro exI [of _ "LReceive w"]) simp
  next
    case (2 e)
    then show ?thesis by (intro exI [of _ "LWrite w e"]) simp
  qed
qed

interpretation pc: draining_lts "pool_next ops" pool_wf queue_closed "\<lambda>p. wg p = 0" backlog for ops
  by unfold_locales (auto simp: closed_step intro: closed_progress)

lemma exited_pool_is_empty:
  assumes "pool_wf p" and "wg p = 0" and "workers p \<noteq> []"
  shows "held p = {#}"
proof -
  have s: "set (workers p) \<subseteq> {Exited}" using wf_wg [OF assms(1)] assms(2) all_exited_iff by simp
  with assms(3) have "Exited \<in> set (workers p)" by (cases "workers p") auto
  moreover have "sum_list (map task ws) = {#}" if "set ws \<subseteq> {Exited}" for ws
    using that by (induction ws) auto
  ultimately show ?thesis using wf_exited [OF assms(1)] s by (simp add: held_def)
qed

section \<open>Backpressure\<close>

lemma held_bound: "pool_wf p \<Longrightarrow> int (size (held p)) \<le> queue_cap p + int (length (workers p))"
proof -
  have "size (sum_list (map task ws)) \<le> length ws" for ws
  proof (induction ws)
    case (Cons w ws)
    then show ?case by (cases w) auto
  qed simp
  from this [of "workers p"] show "pool_wf p \<Longrightarrow> ?thesis" using wf_cap [of p] by (simp add: held_def)
qed

text \<open>A send that waits is released by at most two steps of some worker.\<close>

lemma blocked_send_ready_worker:
  assumes "pool_wf p" and "chan_send e p = Blocks" and "at_worker p w Ready"
  shows "\<exists>p'. chan_send e (worker_receive w p) = Returns p'"
proof -
  from assms(2) have c: "\<not> queue_closed p" "recvq p = []" "queue_cap p \<le> int (length (queue p))"
    by (auto simp: chan_send_def split: if_splits list.splits)
  with wf_cap [OF assms(1)] show ?thesis
    by (cases "queue p") (auto simp: chan_send_def worker_receive_def)
qed

lemma blocked_send_released:
  assumes "pool_wf p" and "chan_send e p = Blocks" and "workers p \<noteq> []"
  shows "\<exists>ls p' p''. exec (pool_next ops) ls p = Some p' \<and> sent ls = [] \<and> length ls \<le> 2 \<and>
    chan_send e p' = Returns p''"
proof -
  from assms(2) have c: "\<not> queue_closed p" "recvq p = []" "queue_cap p \<le> int (length (queue p))"
    by (auto simp: chan_send_def split: if_splits list.splits)
  obtain x where w: "at_worker p 0 x" and m: "x \<in> set (workers p)"
    using assms(3) by (cases "workers p") (auto simp: at_worker_def)
  from wf_exited [OF assms(1)] c(1) m have "x \<noteq> Exited" by auto
  moreover from wf_recvq_parked [OF assms(1), of 0] c(2) w have "x \<noteq> Parked" by (auto simp: at_worker_def)
  ultimately consider "x = Ready" | v where "x = Writing v" by (cases x) auto
  then show ?thesis
  proof cases
    case 1
    with blocked_send_ready_worker [OF assms(1,2)] w show ?thesis
      by (intro exI [of _ "[LReceive 0]"]) (auto simp: exec_Cons_iff)
  next
    case (2 v)
    let ?p = "worker_write ops 0 v p"
    have r: "at_worker ?p 0 Ready" using w by (auto simp: at_worker_def worker_write_frame)
    have "chan_send e ?p = Blocks"
      using c wf_cap [OF assms(1)] by (simp add: chan_send_def worker_write_frame)
    from blocked_send_ready_worker [OF worker_write_wf this r] assms(1) w 2 obtain p''
      where "chan_send e (worker_receive 0 ?p) = Returns p''" by blast
    with w 2 r show ?thesis
      by (intro exI [of _ "[LWrite 0 v, LReceive 0]"]) (auto simp: exec_Cons_iff)
  qed
qed

section \<open>Order\<close>

text \<open>With one worker the pool is a pipeline: what it holds, oldest first.\<close>

definition pipeline :: "('s, 'h) Pool \<Rightarrow> Event list" where
  "pipeline p = (case workers p of [Writing e] \<Rightarrow> [e] | _ \<Rightarrow> []) @ queue p"

lemma single_worker_cases:
  assumes "length (workers p) = 1"
  obtains "workers p = [Ready]" | "workers p = [Parked]" | e where "workers p = [Writing e]" | "workers p = [Exited]"
proof -
  from assms obtain x where "workers p = [x]" by (auto simp: length_Suc_conv)
  then show ?thesis using that by (cases x) auto
qed

lemma single_step_fifo:
  assumes "pool_wf p" and "length (workers p) = 1" and "pool_next ops l p = Returns p'"
  shows "pipeline p @ sent_of l = written_of l @ pipeline p'"
proof (cases l)
  case (LSend e)
  show ?thesis
  proof (cases "recvq p")
    case Nil
    with LSend assms(3) show ?thesis by (auto simp: chan_send_def pipeline_def split: if_splits)
  next
    case (Cons w ws)
    with wf_recvq_parked [OF assms(1), of w] assms(2) have "w = 0" "workers p = [Parked]"
      by (auto simp: at_worker_def length_Suc_conv)
    with Cons LSend assms(3) wf_parked_idle [OF assms(1)] show ?thesis
      by (auto simp: chan_send_def pipeline_def split: if_splits)
  qed
next
  case (LReceive w)
  with assms(2,3) have "w = 0" "workers p = [Ready]" "p' = worker_receive w p"
    by (auto simp: at_worker_def length_Suc_conv split: if_splits)
  with LReceive show ?thesis by (auto simp: worker_receive_def pipeline_def split: list.split)
next
  case (LWrite w e)
  with assms(2,3) have "w = 0" "workers p = [Writing e]" "p' = worker_write ops w e p"
    by (auto simp: at_worker_def length_Suc_conv split: if_splits)
  with LWrite show ?thesis by (simp add: pipeline_def worker_write_frame)
next
  case LClose
  with assms(3) show ?thesis
    by (cases rule: single_worker_cases [OF assms(2)])
      (auto simp: chan_close_def pipeline_def unpark_def split: if_splits)
qed

lemma single_worker_fifo:
  assumes "exec (pool_next ops) ls p = Some p'" and "pool_wf p" and "length (workers p) = 1"
  shows "pipeline p @ sent ls = written ls @ pipeline p'"
  using assms
proof (induction ls arbitrary: p)
  case (Cons l ls)
  from Cons.prems(1) obtain p1 where s: "pool_next ops l p = Returns p1"
    and r: "exec (pool_next ops) ls p1 = Some p'" unfolding exec_Cons_iff by blast
  from Cons.IH [OF r pl.step_ok [OF Cons.prems(2) s]] next_frame [OF s]
    single_step_fifo [OF Cons.prems(2,3) s] Cons.prems(3)
  show ?case by simp (metis append_assoc)
qed simp

end
