(* ===== verification/Gateway.thy ===== *)
theory Gateway
  imports Pool "HOL-Library.Sublist"
begin

text \<open>
  \<^verbatim>\<open>internal/gateway\<close>: the gRPC handler \<^verbatim>\<open>Push\<close> in front of the pool, in its two modes.  With
  \<^verbatim>\<open>Shed\<close> an event that finds the queue full is rejected at once; without it the handler waits,
  until the context of the request is done.

  The pool is shared with the workers and with other requests, so a run of \<^verbatim>\<open>Push\<close> is given with
  what happens around it: for each event a \<open>moment\<close>, the pool steps of other goroutines before
  the submission takes effect, the error of the request's context if it is done by then, and Go's choice
  when both cases of the select are ready.  A label of another goroutine that is not enabled is
  skipped.  \<open>g_trace\<close> is a history variable: the pool steps performed so far.
\<close>

section \<open>State\<close>

datatype gateway_metric =
    IngestTotal_Inc
  | ShedTotal_Inc
  | SubmitBlockSeconds_Observe
  | RequestLatencySeconds_Observe

record ('s, 'h) Server =
  srv_Pool :: "('s, 'h) Pool"
  Shed :: bool
  Metrics :: "gateway_metric list option"
  g_trace :: "pool_label list"

definition gateway_New ::
  "('s, 'h) Pool \<Rightarrow> bool \<Rightarrow> gateway_metric list option \<Rightarrow> ('s, 'h) Server" where
  "gateway_New p shed m = \<lparr>srv_Pool = p, Shed = shed, Metrics = m, g_trace = []\<rparr>"

record moment =
  m_moves :: "pool_label list"
  m_ctxErr :: "go_error option"
  m_pick :: bool

text \<open>A metrics call under the guard \<^verbatim>\<open>s.Metrics != nil\<close>.\<close>

definition observe :: "gateway_metric \<Rightarrow> ('s, 'h) Server \<Rightarrow> ('s, 'h) Server" where
  "observe m s = s\<lparr>Metrics := map_option (\<lambda>ms. ms @ [m]) (Metrics s)\<rparr>"

fun others :: "'s sink_ops \<Rightarrow> pool_label list \<Rightarrow> ('s, 'h) Server \<Rightarrow> ('s, 'h) Server" where
  "others ops [] s = s"
| "others ops (l # ls) s =
     (case pool_next ops l (srv_Pool s) of
        Returns p' \<Rightarrow> others ops ls (s\<lparr>srv_Pool := p', g_trace := g_trace s @ [l]\<rparr>)
      | _ \<Rightarrow> others ops ls s)"

section \<open>Push\<close>

text \<open>The two ways one event is handled, the body of the loop in \<^verbatim>\<open>Push\<close>.\<close>

definition push_shed ::
  "Event \<Rightarrow> ('s, 'h) Server \<times> IngestResponse \<Rightarrow> (('s, 'h) Server \<times> IngestResponse) run" where
  "push_shed e st =
     (case st of (s, resp) \<Rightarrow>
       (case TrySubmit e (srv_Pool s) of
          Returns (p', okay) \<Rightarrow>
            if \<not> okay
            then Returns (observe ShedTotal_Inc (s\<lparr>srv_Pool := p'\<rparr>), resp\<lparr>Rejected := Rejected resp + 1\<rparr>)
            else Returns (observe IngestTotal_Inc (s\<lparr>srv_Pool := p', g_trace := g_trace s @ [LSend e]\<rparr>),
                   resp\<lparr>Accepted := Accepted resp + 1\<rparr>)
        | Blocks \<Rightarrow> Blocks
        | Panics m \<Rightarrow> Panics m))"

definition push_block ::
  "go_error option \<Rightarrow> bool \<Rightarrow> Event \<Rightarrow> ('s, 'h) Server \<times> IngestResponse \<Rightarrow>
     (('s, 'h) Server \<times> IngestResponse) run" where
  "push_block ctxErr pick e st =
     (case st of (s, resp) \<Rightarrow>
       (case Submit ctxErr pick e (srv_Pool s) of
          Returns (p', err) \<Rightarrow>
            (let s1 = observe SubmitBlockSeconds_Observe (s\<lparr>srv_Pool := p'\<rparr>)
             in if err \<noteq> None
                then Returns (s1, resp\<lparr>Rejected := Rejected resp + 1\<rparr>)
                else Returns (observe IngestTotal_Inc (s1\<lparr>g_trace := g_trace s1 @ [LSend e]\<rparr>),
                       resp\<lparr>Accepted := Accepted resp + 1\<rparr>))
        | Blocks \<Rightarrow> Blocks
        | Panics m \<Rightarrow> Panics m))"

definition push_event ::
  "'s sink_ops \<Rightarrow> moment \<Rightarrow> TelemetryEvent option \<Rightarrow> ('s, 'h) Server \<times> IngestResponse \<Rightarrow>
     (('s, 'h) Server \<times> IngestResponse) run" where
  "push_event ops m ev st =
     (let e = event_of_telemetry ev; st1 = (others ops (m_moves m) (fst st), snd st)
      in if Shed (fst st1) then push_shed e st1 else push_block (m_ctxErr m) (m_pick m) e st1)"

text \<open>The loop over the events of a request, \<open>sched i\<close> being what happens around the \<open>i\<close>-th.\<close>

fun push_loop ::
  "'s sink_ops \<Rightarrow> (nat \<Rightarrow> moment) \<Rightarrow> nat \<Rightarrow> TelemetryEvent option list \<Rightarrow>
     ('s, 'h) Server \<times> IngestResponse \<Rightarrow> (('s, 'h) Server \<times> IngestResponse) run" where
  "push_loop ops sched i [] st = Returns st"
| "push_loop ops sched i (ev # evs) st =
     (case push_event ops (sched i) ev st of
        Returns st' \<Rightarrow> push_loop ops sched (Suc i) evs st'
      | Blocks \<Rightarrow> Blocks
      | Panics msg \<Rightarrow> Panics msg)"

definition Push ::
  "'s sink_ops \<Rightarrow> (nat \<Rightarrow> moment) \<Rightarrow> IngestRequest option \<Rightarrow> ('s, 'h) Server \<Rightarrow>
     (('s, 'h) Server \<times> IngestResponse) run" where
  "Push ops sched req s =
     (case push_loop ops sched 0 (GetEvents req) (s, \<lparr>Accepted = 0, Rejected = 0\<rparr>) of
        Returns (s', resp) \<Rightarrow> Returns (observe RequestLatencySeconds_Observe s', resp)
      | Blocks \<Rightarrow> Blocks
      | Panics m \<Rightarrow> Panics m)"

section \<open>One event\<close>

lemma observe_simps [simp]:
  "srv_Pool (observe m s) = srv_Pool s" "Shed (observe m s) = Shed s" "g_trace (observe m s) = g_trace s"
  "Metrics (observe m s) = map_option (\<lambda>ms. ms @ [m]) (Metrics s)"
  by (simp_all add: observe_def)

lemma others_frame [simp]:
  "Shed (others ops ls s) = Shed s" "Metrics (others ops ls s) = Metrics s"
  by (induction ops ls s rule: others.induct) (simp_all split: run.split)

lemma others_trace:
  "\<exists>tr. g_trace (others ops ls s) = g_trace s @ tr \<and>
     exec (pool_next ops) tr (srv_Pool s) = Some (srv_Pool (others ops ls s))"
proof (induction ops ls s rule: others.induct)
  case (2 ops l ls s)
  show ?case
  proof (cases "pool_next ops l (srv_Pool s)")
    case (Returns p')
    with "2.IH"(1) [OF Returns] obtain tr where
      "g_trace (others ops (l # ls) s) = g_trace s @ l # tr" and
      "exec (pool_next ops) tr p' = Some (srv_Pool (others ops (l # ls) s))" by auto
    with Returns show ?thesis by (intro exI [of _ "l # tr"]) (simp add: exec_Cons_iff)
  qed (use "2.IH" in simp_all)
qed simp

text \<open>
  Every event of a request is answered in one of two ways: it is sent to the pool and counted as
  accepted, or the pool is left as it was and the event is counted as rejected, because the
  queue was full (shedding) or the context was done (waiting).
\<close>

lemma push_event_cases:
  assumes "push_event ops m ev (s, resp) = Returns (s', resp')"
  obtains
    (accepted) s1 where "s1 = others ops (m_moves m) s"
      "chan_send (event_of_telemetry ev) (srv_Pool s1) = Returns (srv_Pool s')"
      "g_trace s' = g_trace s1 @ [LSend (event_of_telemetry ev)]"
      "resp' = resp\<lparr>Accepted := Accepted resp + 1\<rparr>" "Shed s' = Shed s"
      "Metrics s' = map_option (\<lambda>ms. ms @ (if Shed s then [] else [SubmitBlockSeconds_Observe]) @ [IngestTotal_Inc]) (Metrics s)"
  | (rejected) s1 where "s1 = others ops (m_moves m) s" "srv_Pool s' = srv_Pool s1" "g_trace s' = g_trace s1"
      "resp' = resp\<lparr>Rejected := Rejected resp + 1\<rparr>" "Shed s' = Shed s"
      "if Shed s then chan_send (event_of_telemetry ev) (srv_Pool s1) = Blocks else m_ctxErr m \<noteq> None"
      "Metrics s' = map_option (\<lambda>ms. ms @ [if Shed s then ShedTotal_Inc else SubmitBlockSeconds_Observe]) (Metrics s)"
proof -
  let ?s = "others ops (m_moves m) s" and ?e = "event_of_telemetry ev"
  show ?thesis
  proof (cases "Shed s")
    case True
    with assms have p: "push_shed ?e (?s, resp) = Returns (s', resp')" by (simp add: push_event_def Let_def)
    then show ?thesis
      by (cases "chan_send ?e (srv_Pool ?s)"; cases "Metrics s")
        (auto simp: push_shed_def TrySubmit_def True intro: accepted [OF refl] rejected [OF refl])
  next
    case False
    with assms have p: "push_block (m_ctxErr m) (m_pick m) ?e (?s, resp) = Returns (s', resp')"
      by (simp add: push_event_def Let_def)
    then show ?thesis
      by (cases "chan_send ?e (srv_Pool ?s)"; cases "Metrics s")
        (auto simp: push_block_def Submit_def False Let_def split: if_splits
          intro: accepted [OF refl] rejected [OF refl])
  qed
qed

section \<open>One request\<close>

text \<open>The events of a request with verdict true, and what a verdict records in the metrics.\<close>

definition accepted_of :: "TelemetryEvent option list \<Rightarrow> bool list \<Rightarrow> Event list" where
  "accepted_of evs vs = map (event_of_telemetry \<circ> fst) (filter snd (zip evs vs))"

fun verdict_metrics :: "bool \<Rightarrow> bool \<Rightarrow> gateway_metric list" where
  "verdict_metrics True True = [IngestTotal_Inc]"
| "verdict_metrics True False = [ShedTotal_Inc]"
| "verdict_metrics False True = [SubmitBlockSeconds_Observe, IngestTotal_Inc]"
| "verdict_metrics False False = [SubmitBlockSeconds_Observe]"

text \<open>
  What a run of the loop did: one verdict per event, the counters grown by the numbers of
  verdicts, a schedule of pool steps that contains the accepted events in their order, the metrics of the
  verdicts, and no rejection without a reason.
\<close>

definition push_result ::
  "'s sink_ops \<Rightarrow> (nat \<Rightarrow> moment) \<Rightarrow> TelemetryEvent option list \<Rightarrow> ('s, 'h) Server \<times> IngestResponse \<Rightarrow>
     ('s, 'h) Server \<times> IngestResponse \<Rightarrow> bool list \<Rightarrow> pool_label list \<Rightarrow> bool" where
  "push_result ops sched evs st st' vs tr \<longleftrightarrow>
     length vs = length evs \<and>
     Accepted (snd st') = Accepted (snd st) + of_nat (count_list vs True) \<and>
     Rejected (snd st') = Rejected (snd st) + of_nat (count_list vs False) \<and>
     g_trace (fst st') = g_trace (fst st) @ tr \<and>
     exec (pool_next ops) tr (srv_Pool (fst st)) = Some (srv_Pool (fst st')) \<and>
     subseq (accepted_of evs vs) (sent tr) \<and>
     Shed (fst st') = Shed (fst st) \<and>
     Metrics (fst st') =
       map_option (\<lambda>ms. ms @ concat (map (verdict_metrics (Shed (fst st))) vs)) (Metrics (fst st)) \<and>
     (\<not> Shed (fst st) \<and> (\<forall>j. m_ctxErr (sched j) = None) \<longrightarrow> False \<notin> set vs)"

lemma push_result_Nil: "push_result ops sched [] st st [] []"
  by (simp add: push_result_def accepted_of_def option.map_ident)

lemma push_event_result:
  assumes "push_event ops (sched i) ev (s, resp) = Returns (s', resp')"
  shows "\<exists>v tr. push_result ops sched [ev] (s, resp) (s', resp') [v] tr"
  using assms
proof (cases rule: push_event_cases)
  case (accepted s1)
  from others_trace [of ops "m_moves (sched i)" s] accepted(1) obtain tr where
    "g_trace s1 = g_trace s @ tr" "exec (pool_next ops) tr (srv_Pool s) = Some (srv_Pool s1)" by auto
  with accepted(2-) have "push_result ops sched [ev] (s, resp) (s', resp') [True] (tr @ [LSend (event_of_telemetry ev)])"
    by (auto simp: push_result_def accepted_of_def exec_append exec_single)
  then show ?thesis by blast
next
  case (rejected s1)
  from others_trace [of ops "m_moves (sched i)" s] rejected(1) obtain tr where
    "g_trace s1 = g_trace s @ tr" "exec (pool_next ops) tr (srv_Pool s) = Some (srv_Pool s1)" by auto
  with rejected(2-) have "push_result ops sched [ev] (s, resp) (s', resp') [False] tr"
    by (auto simp: push_result_def accepted_of_def)
  then show ?thesis by blast
qed

lemma push_result_step:
  assumes "push_result ops sched [ev] st st1 [v] tr1" and "push_result ops sched evs st1 st' vs tr"
  shows "push_result ops sched (ev # evs) st st' (v # vs) (tr1 @ tr)"
proof -
  have "accepted_of (ev # evs) (v # vs) = accepted_of [ev] [v] @ accepted_of evs vs"
    by (simp add: accepted_of_def)
  moreover have "subseq (accepted_of [ev] [v] @ accepted_of evs vs) (sent tr1 @ sent tr)"
    using assms by (intro list_emb_append_mono) (auto simp: push_result_def)
  ultimately show ?thesis
    using assms by (cases v) (auto simp: push_result_def exec_append option.map_comp comp_def add.assoc)
qed

lemma push_loop_result:
  assumes "push_loop ops sched i evs st = Returns st'"
  shows "\<exists>vs tr. push_result ops sched evs st st' vs tr"
  using assms
proof (induction evs arbitrary: i st)
  case Nil
  then show ?case using push_result_Nil by fastforce
next
  case (Cons ev evs)
  from Cons.prems obtain st1 where e: "push_event ops (sched i) ev st = Returns st1"
    and l: "push_loop ops sched (Suc i) evs st1 = Returns st'" by (auto split: run.splits)
  from push_event_result [of ops sched i ev "fst st" "snd st" "fst st1" "snd st1"] e
  obtain v tr1 where "push_result ops sched [ev] st st1 [v] tr1" by auto
  moreover from Cons.IH [OF l] obtain vs tr where "push_result ops sched evs st1 st' vs tr" by blast
  ultimately show ?case using push_result_step by blast
qed

lemma Push_result:
  assumes "Push ops sched req s = Returns (s', resp)"
  obtains vs tr s1 where
    "push_result ops sched (GetEvents req) (s, \<lparr>Accepted = 0, Rejected = 0\<rparr>) (s1, resp) vs tr"
    "s' = observe RequestLatencySeconds_Observe s1"
  using assms push_loop_result [of ops sched 0 "GetEvents req" "(s, \<lparr>Accepted = 0, Rejected = 0\<rparr>)"]
  by (fastforce simp: Push_def split: run.splits prod.splits)

lemma count_bools: "count_list vs True + count_list vs False = length vs"
  by (induction vs) auto

section \<open>Waiting and closing\<close>

lemma chan_send_open: "\<not> queue_closed p \<Longrightarrow> chan_send e p \<noteq> Panics m"
  by (simp add: chan_send_def split: list.split)

lemma next_open:
  "pool_next ops l p = Returns p' \<Longrightarrow> l \<noteq> LClose \<Longrightarrow> queue_closed p' = queue_closed p"
  by (cases l) (auto simp: chan_send_def worker_receive_def worker_write_frame
      split: if_splits list.splits)

lemma others_open:
  "LClose \<notin> set ls \<Longrightarrow> queue_closed (srv_Pool (others ops ls s)) = queue_closed (srv_Pool s)"
proof (induction ops ls s rule: others.induct)
  case (2 ops l ls s)
  then show ?case by (cases "pool_next ops l (srv_Pool s)") (auto dest: next_open)
qed simp

lemma send_keeps_open: "chan_send e p = Returns p' \<Longrightarrow> \<not> queue_closed p \<and> \<not> queue_closed p'"
  by (auto simp: chan_send_def split: if_splits list.splits)

lemma shed_event_returns:
  assumes "Shed s" and "\<not> queue_closed (srv_Pool s)" and "LClose \<notin> set (m_moves m)"
  shows "\<exists>s' resp'. push_event ops m ev (s, resp) = Returns (s', resp') \<and> Shed s' \<and>
    \<not> queue_closed (srv_Pool s')"
  using assms others_open [OF assms(3), of ops s] chan_send_open [of "srv_Pool (others ops (m_moves m) s)"]
  by (cases "chan_send (event_of_telemetry ev) (srv_Pool (others ops (m_moves m) s))")
    (auto simp: push_event_def push_shed_def TrySubmit_def Let_def dest: send_keeps_open)

lemma shed_loop_returns:
  assumes "Shed s" and "\<not> queue_closed (srv_Pool s)" and "\<And>i. LClose \<notin> set (m_moves (sched i))"
  shows "\<exists>st'. push_loop ops sched i evs (s, resp) = Returns st'"
  using assms(1,2)
proof (induction evs arbitrary: i s resp)
  case (Cons ev evs)
  from shed_event_returns [OF Cons.prems assms(3) [of i], of ops ev resp] obtain s' resp' where
    "push_event ops (sched i) ev (s, resp) = Returns (s', resp')" "Shed s'" "\<not> queue_closed (srv_Pool s')"
    by blast
  with Cons.IH show ?case by simp
qed simp

end
