(* ===== verification/Gateway_Properties.thy ===== *)
theory Gateway_Properties
  imports Gateway
begin

text \<open>
  The properties of the ingestion side: the pool (\<^verbatim>\<open>internal/pool\<close>) under every schedule of its
  senders and workers, and the handler (\<^verbatim>\<open>internal/gateway\<close>) on top of it.
\<close>

section \<open>Fixtures for the concrete runs\<close>

definition ex_ev :: "string \<Rightarrow> Event" where
  "ex_ev k = \<lparr>DeviceID = ''d'', IdempotencyKey = k, EventTimeUnixNanos = 42, Metric = ''m'', Value = 0\<rparr>"

definition ex_tele :: "string \<Rightarrow> TelemetryEvent option" where
  "ex_tele k = Some (telemetry_of_event (ex_ev k))"

text \<open>A sink that refuses one key and counts the rest, and an error handler that counts.\<close>

definition picky_ops :: "nat sink_ops" where
  "picky_ops = \<lparr>Write = (\<lambda>n e. if IdempotencyKey e = ''bad'' then (n, Some DeadlineExceeded) else (Suc n, None)),
     Flush = None, DrainPoisoned = None\<rparr>"

definition ex_pool :: "nat \<Rightarrow> int \<Rightarrow> (nat, nat) Pool" where
  "ex_pool n c = \<lparr>queue = [], queue_cap = c, queue_closed = False, recvq = [], workers = replicate n Ready,
     wg = int n, psink = 0, errFn = (\<lambda>err k. Suc k), handler = 0\<rparr>"

lemma ex_pool_New: "0 \<le> c \<Longrightarrow> pool_New (int n) c (0 :: nat) (Some (\<lambda>err k. Suc k)) (0 :: nat) = Returns (ex_pool n c)"
  by (simp add: pool_New_def ex_pool_def)

definition ex_schedule :: "pool_label list" where
  "ex_schedule = [LSend (ex_ev ''a''), LReceive 0, LSend (ex_ev ''bad''), LReceive 1, LWrite 1 (ex_ev ''bad''),
     LClose, LWrite 0 (ex_ev ''a''), LReceive 0, LReceive 1]"

lemma ex_schedule_runs:
  "exec (pool_next picky_ops) ex_schedule (ex_pool 2 1) =
     Some ((ex_pool 2 1)\<lparr>queue_closed := True, workers := [Exited, Exited], wg := 0, psink := 1, handler := 1\<rparr>)"
  by (simp add: ex_schedule_def exec_Cons_iff ex_pool_def chan_send_def at_worker_def worker_receive_def
      worker_write_def picky_ops_def ex_ev_def chan_close_def unpark_def numeral_2_eq_2)

section \<open>Lemmas\<close>

lemma drained_conserves:
  assumes "pool_New n c s f h = Returns p" and "0 < n"
    and "exec (pool_next ops) ls p = Some p'" and "Close_returns p'"
  shows "mset (written ls) = mset (sent ls) \<and> queue p' = []"
proof -
  note wf = pl.exec_ok [OF assms(3) New_wf [OF assms(1)]]
  have "length (workers p) = nat n" using assms(1) by (auto simp: pool_New_def split: if_splits)
  moreover have "length (workers p') = length (workers p)"
    by (rule pl.exec_keeps [OF assms(3) New_wf [OF assms(1)]]) (auto dest: next_frame)
  ultimately have "workers p' \<noteq> []" using assms(2) by auto
  with exited_pool_is_empty [OF wf] assms(4) have "held p' = {#}" by (simp add: Close_returns_def)
  moreover note New_conserves [OF assms(1,3)]
  ultimately show ?thesis by (simp add: held_def)
qed

lemma subseq_mset_subset: "subseq xs ys \<Longrightarrow> mset xs \<subseteq># mset ys"
  by (induction rule: list_emb.induct) (auto intro: subset_mset.order_trans)

lemma verdict_counts:
  "count_list (concat (map (verdict_metrics shed) vs)) IngestTotal_Inc = count_list vs True"
  "count_list (concat (map (verdict_metrics shed) vs)) ShedTotal_Inc = (if shed then count_list vs False else 0)"
  "count_list (concat (map (verdict_metrics shed) vs)) SubmitBlockSeconds_Observe = (if shed then 0 else length vs)"
  "count_list (concat (map (verdict_metrics shed) vs)) RequestLatencySeconds_Observe = 0"
proof (induction vs)
  case (Cons v vs)
  { case 1 with Cons show ?case by (cases shed; cases v) auto }
  { case 2 with Cons show ?case by (cases shed; cases v) auto }
  { case 3 with Cons show ?case by (cases shed; cases v) auto }
  { case 4 with Cons show ?case by (cases shed; cases v) auto }
qed simp_all

section \<open>The pool\<close>

text \<open>
  C10. The pool neither loses nor invents events: from a new pool, under every schedule of senders,
  workers and close, the events sent so far are exactly those still held (queued or being
  written) and those written, as multisets; and the sink and the error handler are in the state
  the writes in their order put them in, the handler called once for each failed write.
\<close>

theorem pool_conserves_events:
  assumes "pool_New n c s f h = Returns p" and "exec (pool_next ops) ls p = Some p'"
  shows "mset (sent ls) = held p' + mset (written ls) \<and>
    (psink p', handler p') =
      pool_writes ops (case f of None \<Rightarrow> (\<lambda>err h. h) | Some g \<Rightarrow> g) (written ls) (s, h)"
proof -
  have "psink p = s" "handler p = h" "errFn p = (case f of None \<Rightarrow> (\<lambda>err h. h) | Some g \<Rightarrow> g)"
    using assms(1) by (auto simp: pool_New_def split: if_splits)
  with New_conserves [OF assms] exec_sink [OF assms(2)] show ?thesis by simp
qed

theorem pool_conserves_events_witness:
  "(1, 1) = pool_writes picky_ops (\<lambda>err k. Suc k) (written ex_schedule) (0, 0)"
  using pool_conserves_events [OF ex_pool_New [of 1 2] ex_schedule_runs [simplified]] ex_schedule_runs
  by simp

text \<open>
  C15. \<^verbatim>\<open>Close\<close> terminates: once the queue is closed no schedule is longer than the backlog, at most two
  steps for each event in the queue or being written and for each worker; while the wait group is
  not at zero some worker can move; so every schedule that cannot be extended has
  \<^verbatim>\<open>Close\<close> returning at its end, and one exists.
\<close>

theorem close_terminates:
  assumes "pool_wf p" and "queue_closed p"
  shows "(\<forall>ls p'. exec (pool_next ops) ls p = Some p' \<longrightarrow>
        length ls \<le> 2 * length (queue p) + 2 * length (workers p) \<and>
        ((\<forall>l. exec (pool_next ops) (ls @ [l]) p = None) \<longrightarrow> Close_returns p')) \<and>
    (\<exists>ls p'. exec (pool_next ops) ls p = Some p' \<and> Close_returns p')"
proof -
  have "load w \<le> 2" for w by (cases w) auto
  then have "sum_list (map load ws) \<le> 2 * length ws" for ws
    by (induction ws) (auto, metis add_le_mono numeral_2_eq_2 add_2_eq_Suc)
  then have b: "backlog p \<le> 2 * length (queue p) + 2 * length (workers p)" by (simp add: backlog_def)
  have "length ls \<le> 2 * length (queue p) + 2 * length (workers p)" "queue_closed p'"
    if "exec (pool_next ops) ls p = Some p'" for ls p'
    using pc.exec_rank [OF that assms] b by auto
  moreover have "wg p' = 0"
    if "exec (pool_next ops) ls p = Some p'" "\<forall>l. exec (pool_next ops) (ls @ [l]) p = None" for ls p'
    using pc.maximal_is_final [OF that(1) assms] that(2) by blast
  moreover from pc.final_reachable [OF assms] obtain ls p' where
    "exec (pool_next ops) ls p = Some p'" "wg p' = 0" by blast
  ultimately show ?thesis unfolding Close_returns_def by metis
qed

theorem close_terminates_witness:
  "\<exists>ls p'. exec (pool_next picky_ops) ls
     ((ex_pool 2 5)\<lparr>queue_closed := True, queue := [ex_ev ''a'', ex_ev ''bad'']\<rparr>) = Some p' \<and> Close_returns p'"
  by (rule close_terminates [THEN conjunct2])
    (auto simp: ex_pool_def unfinished_def numeral_2_eq_2 intro!: busy_pool_wf)

text \<open>
  C34. Memory is bounded: under every schedule the queue stays within its capacity, which never
  changes, and the pool holds at most one event more per worker.
\<close>

theorem pool_is_bounded:
  assumes "pool_New n c s f h = Returns p" and "exec (pool_next ops) ls p = Some p'"
  shows "QueueCap p' = c \<and> QueueDepth p' \<le> QueueCap p' \<and> int (size (held p')) \<le> c + n"
proof -
  have "queue_cap p = c \<and> int (length (workers p)) = n" using assms(1) by (auto simp: pool_New_def split: if_splits)
  then have "queue_cap p' = c \<and> int (length (workers p')) = n"
    by (rule pl.exec_keeps [OF assms(2) New_wf [OF assms(1)]]) (auto dest: next_frame)
  with pl.exec_ok [OF assms(2) New_wf [OF assms(1)]] held_bound [of p'] wf_cap [of p'] show ?thesis
    by (simp add: QueueCap_def QueueDepth_def)
qed

theorem pool_is_bounded_witness:
  "int (size (held ((ex_pool 2 1)\<lparr>queue_closed := True, workers := [Exited, Exited], wg := 0, psink := 1, handler := 1\<rparr>))) \<le> 3"
  using pool_is_bounded [OF ex_pool_New [of 1 2] ex_schedule_runs [simplified]] by simp

text \<open>
  C33. \<^verbatim>\<open>TrySubmit\<close> never waits; it refuses exactly when the queue is full and no worker is idle, and then the pool
  is unchanged.  A sender that \<^verbatim>\<open>Submit\<close> keeps waiting is released: whatever the state of a
  pool with workers, at most two worker steps make its send possible, and with a context that is
  done it returns the context's error at once.
\<close>

theorem waiting_submit_is_released:
  assumes "pool_wf p" and "workers p \<noteq> []" and "\<not> queue_closed p"
  shows "TrySubmit e p \<noteq> Blocks \<and>
    (TrySubmit e p = Returns (p, False) \<longleftrightarrow>
       QueueDepth p = QueueCap p \<and> (\<forall>w. \<not> at_worker p w Parked)) \<and>
    (Submit None pick e p = Blocks \<longrightarrow>
       (\<exists>ls p' p''. exec (pool_next ops) ls p = Some p' \<and> length ls \<le> 2 \<and> sent ls = [] \<and>
          Submit None pick e p' = Returns (p'', None)) \<and>
       (\<forall>err. Submit (Some err) pick e p = Returns (p, Some err)))"
proof -
  have parked: "(\<forall>w. \<not> at_worker p w Parked) \<longleftrightarrow> recvq p = []"
    using wf_recvq_parked [OF assms(1)] by (cases "recvq p") auto
  have "TrySubmit e p \<noteq> Blocks" by (simp add: TrySubmit_def split: run.split)
  moreover have "TrySubmit e p = Returns (p, False) \<longleftrightarrow> QueueDepth p = QueueCap p \<and> recvq p = []"
    using assms(3) wf_cap [OF assms(1)]
    by (auto simp: TrySubmit_def chan_send_def QueueDepth_def QueueCap_def split: list.split)
  moreover have "chan_send e p = Blocks" if "Submit None pick e p = Blocks"
    using that by (auto simp: Submit_def split: run.splits)
  ultimately show ?thesis
    using blocked_send_released [OF assms(1) _ assms(2), of e ops] parked by (fastforce simp: Submit_def)
qed

theorem waiting_submit_is_released_witness:
  "TrySubmit (ex_ev ''c'') ((ex_pool 1 1)\<lparr>queue := [ex_ev ''b''], workers := [Writing (ex_ev ''a'')]\<rparr>) =
     Returns ((ex_pool 1 1)\<lparr>queue := [ex_ev ''b''], workers := [Writing (ex_ev ''a'')]\<rparr>, False)"
  using waiting_submit_is_released [of "(ex_pool 1 1)\<lparr>queue := [ex_ev ''b''], workers := [Writing (ex_ev ''a'')]\<rparr>"
      "ex_ev ''c''" True picky_ops, OF busy_pool_wf]
  by (simp add: ex_pool_def not_parked unfinished_def QueueDepth_def QueueCap_def)

text \<open>
  A pool with one worker keeps the order: at any moment the events sent are the events written,
  followed by the one being written and the queue, in that order.
\<close>

theorem single_worker_keeps_order:
  assumes "pool_New 1 c s f h = Returns p" and "exec (pool_next ops) ls p = Some p'"
  shows "sent ls = written ls @ pipeline p'"
proof -
  have "length (workers p) = 1 \<and> pipeline p = []"
    using assms(1) by (auto simp: pool_New_def pipeline_def split: if_splits)
  with single_worker_fifo [OF assms(2) New_wf [OF assms(1)]] show ?thesis by simp
qed

theorem single_worker_keeps_order_witness:
  "sent [LSend (ex_ev ''a''), LReceive 0, LSend (ex_ev ''b'')] =
   written [LSend (ex_ev ''a''), LReceive 0, LSend (ex_ev ''b'')] @
     pipeline ((ex_pool 1 1)\<lparr>queue := [ex_ev ''b''], workers := [Writing (ex_ev ''a'')]\<rparr>)"
  by (rule single_worker_keeps_order [of 1 0 "Some (\<lambda>err k. Suc k)" 0 "ex_pool 1 1" picky_ops])
    (simp_all add: pool_New_def ex_pool_def exec_Cons_iff chan_send_def at_worker_def worker_receive_def)

section \<open>The handler\<close>

definition calm :: "nat \<Rightarrow> moment" where
  "calm i = \<lparr>m_moves = [], m_ctxErr = None, m_pick = True\<rparr>"

definition ex_request :: "IngestRequest option" where
  "ex_request = Some \<lparr>Events = [ex_tele ''a'', ex_tele ''b'', ex_tele ''bad'']\<rparr>"

text \<open>Three events meet an empty queue of two places before any worker moves.\<close>

lemma ex_shed_push:
  "Push picky_ops calm ex_request (gateway_New (ex_pool 1 2) True (Some [])) =
     Returns (\<lparr>srv_Pool = (ex_pool 1 2)\<lparr>queue := [ex_ev ''a'', ex_ev ''b'']\<rparr>, Shed = True,
        Metrics = Some [IngestTotal_Inc, IngestTotal_Inc, ShedTotal_Inc, RequestLatencySeconds_Observe],
        g_trace = [LSend (ex_ev ''a''), LSend (ex_ev ''b'')]\<rparr>,
      \<lparr>Accepted = 2, Rejected = 1\<rparr>)"
  by (simp add: Push_def ex_request_def GetEvents_def gateway_New_def push_event_def calm_def push_shed_def
      TrySubmit_def chan_send_def ex_pool_def ex_tele_def observe_def Let_def)

text \<open>
  C18. Every event of a request is answered once: when \<^verbatim>\<open>Push\<close> returns there is a verdict for each
  event such that \<^verbatim>\<open>Accepted\<close> and \<^verbatim>\<open>Rejected\<close> are the numbers of the two verdicts and add up to the
  number of events, and the accepted events are, in their order, among the events sent to the pool during
  the call.
\<close>

theorem push_answers_every_event:
  assumes "Push ops sched req s = Returns (s', resp)" and "length (GetEvents req) < 2 ^ 64"
  shows "unat (Accepted resp) + unat (Rejected resp) = length (GetEvents req) \<and>
    (\<exists>vs tr. length vs = length (GetEvents req) \<and> unat (Accepted resp) = count_list vs True \<and>
       exec (pool_next ops) tr (srv_Pool s) = Some (srv_Pool s') \<and>
       subseq (accepted_of (GetEvents req) vs) (sent tr))"
proof -
  from Push_result [OF assms(1)] obtain vs tr s1 where
    r: "push_result ops sched (GetEvents req) (s, \<lparr>Accepted = 0, Rejected = 0\<rparr>) (s1, resp) vs tr"
    and s': "s' = observe RequestLatencySeconds_Observe s1" .
  from r count_bools [of vs] assms(2) have "count_list vs True < 2 ^ 64" "count_list vs False < 2 ^ 64"
    by (auto simp: push_result_def)
  with r s' count_bools [of vs] show ?thesis
    by (intro conjI exI [of _ vs] exI [of _ tr]) (auto simp: push_result_def counter_simps)
qed

theorem push_answers_every_event_witness:
  "unat (2 :: u64) + unat (1 :: u64) = length (GetEvents ex_request)"
  using push_answers_every_event [OF ex_shed_push] by (simp add: ex_request_def GetEvents_def)

text \<open>
  Shedding never blocks: with \<^verbatim>\<open>Shed\<close> set, as long as the pool is open, \<^verbatim>\<open>Push\<close> returns whatever
  the other goroutines do and however full the queue is.
\<close>

theorem shedding_push_returns:
  assumes "Shed s" and "\<not> queue_closed (srv_Pool s)" and "\<And>i. LClose \<notin> set (m_moves (sched i))"
  shows "\<exists>s' resp. Push ops sched req s = Returns (s', resp)"
  using shed_loop_returns [OF assms(1,2), of sched ops 0 "GetEvents req" "\<lparr>Accepted = 0, Rejected = 0\<rparr>"] assms(3)
  by (auto simp: Push_def split: prod.split)

theorem shedding_push_returns_witness:
  "\<exists>s' resp. Push picky_ops calm ex_request (gateway_New (ex_pool 0 0) True (None)) = Returns (s', resp)"
  by (rule shedding_push_returns) (simp_all add: gateway_New_def ex_pool_def calm_def)

text \<open>
  Backpressure does not reject: without \<^verbatim>\<open>Shed\<close>, a request whose context is never done is either still
  waiting or has every one of its events accepted.
\<close>

theorem waiting_push_accepts_all:
  assumes "\<not> Shed s" and "\<And>i. m_ctxErr (sched i) = None"
    and "Push ops sched req s = Returns (s', resp)"
  shows "Accepted resp = of_nat (length (GetEvents req)) \<and> Rejected resp = 0"
proof -
  from Push_result [OF assms(3)] obtain vs tr s1 where
    r: "push_result ops sched (GetEvents req) (s, \<lparr>Accepted = 0, Rejected = 0\<rparr>) (s1, resp) vs tr" by metis
  with assms(1,2) have "False \<notin> set vs" by (simp add: push_result_def)
  then have "count_list vs False = 0" by simp
  with r count_bools [of vs] show ?thesis by (simp add: push_result_def)
qed

definition busy :: "nat \<Rightarrow> moment" where
  "busy i = \<lparr>m_moves = (if i = 2 then [LReceive 0, LWrite 0 (ex_ev ''a'')] else []), m_ctxErr = None, m_pick = True\<rparr>"

lemma ex_wait_push:
  "Push picky_ops busy ex_request (gateway_New (ex_pool 1 2) False None) =
     Returns (\<lparr>srv_Pool = (ex_pool 1 2)\<lparr>queue := [ex_ev ''b'', ex_ev ''bad''], psink := 1\<rparr>, Shed = False,
        Metrics = None,
        g_trace = [LSend (ex_ev ''a''), LSend (ex_ev ''b''), LReceive 0, LWrite 0 (ex_ev ''a''), LSend (ex_ev ''bad'')]\<rparr>,
      \<lparr>Accepted = 3, Rejected = 0\<rparr>)"
  by (simp add: Push_def ex_request_def GetEvents_def gateway_New_def push_event_def busy_def push_block_def
      Submit_def chan_send_def ex_pool_def ex_tele_def observe_def at_worker_def worker_receive_def
      worker_write_def picky_ops_def Let_def) (simp add: ex_ev_def)

theorem waiting_push_accepts_all_witness:
  "(3 :: u64) = of_nat (length (GetEvents ex_request))"
  using waiting_push_accepts_all [OF _ _ ex_wait_push] by (simp add: gateway_New_def busy_def)

text \<open>
  The gateway's counters tell the truth: over one request \<^verbatim>\<open>IngestTotal\<close> grows by \<^verbatim>\<open>Accepted\<close>, in
  shedding mode \<^verbatim>\<open>ShedTotal\<close> grows by \<^verbatim>\<open>Rejected\<close>, in waiting mode it does not grow and the time of
  every submission is observed, and one request latency is observed.
\<close>

theorem push_metrics_match_response:
  assumes "Push ops sched req s = Returns (s', resp)" and "Metrics s = Some ms"
  shows "\<exists>new. Metrics s' = Some (ms @ new) \<and>
    Accepted resp = of_nat (count_list new IngestTotal_Inc) \<and>
    (if Shed s
     then Rejected resp = of_nat (count_list new ShedTotal_Inc)
     else count_list new ShedTotal_Inc = 0 \<and>
       count_list new SubmitBlockSeconds_Observe = length (GetEvents req)) \<and>
    count_list new RequestLatencySeconds_Observe = 1"
proof -
  from Push_result [OF assms(1)] obtain vs tr s1 where
    r: "push_result ops sched (GetEvents req) (s, \<lparr>Accepted = 0, Rejected = 0\<rparr>) (s1, resp) vs tr"
    and s': "s' = observe RequestLatencySeconds_Observe s1" .
  then show ?thesis
    using assms(2)
    by (intro exI [of _ "concat (map (verdict_metrics (Shed s)) vs) @ [RequestLatencySeconds_Observe]"])
      (simp add: push_result_def verdict_counts)
qed

theorem push_metrics_match_response_witness:
  "\<exists>new. [IngestTotal_Inc, IngestTotal_Inc, ShedTotal_Inc, RequestLatencySeconds_Observe] = [] @ new \<and>
    (1 :: u64) = of_nat (count_list new ShedTotal_Inc)"
  using push_metrics_match_response [OF ex_shed_push, of "[]"] by (auto simp: gateway_New_def)

text \<open>
  The run of a gateway from its start to the return of \<^verbatim>\<open>Close\<close>: the accepted events are among those
  written, and sink and error handler are what those writes make of them.
\<close>

lemma gateway_run_writes:
  assumes "pool_New n c s0 f h = Returns p" and "0 < n"
    and "Push ops sched req (gateway_New p shed m) = Returns (s', resp)"
    and "exec (pool_next ops) after (srv_Pool s') = Some p'" and "Close_returns p'"
  obtains vs where "length vs = length (GetEvents req)" "Accepted resp = of_nat (count_list vs True)"
    "mset (accepted_of (GetEvents req) vs) \<subseteq># mset (written (g_trace s' @ after))"
    "(psink p', handler p') = pool_writes ops (errFn p) (written (g_trace s' @ after)) (s0, h)"
proof -
  from Push_result [OF assms(3)] obtain vs tr s1 where
    r: "push_result ops sched (GetEvents req) (gateway_New p shed m, \<lparr>Accepted = 0, Rejected = 0\<rparr>) (s1, resp) vs tr"
    and s': "s' = observe RequestLatencySeconds_Observe s1" .
  then have tr: "g_trace s' = tr" and e: "exec (pool_next ops) (tr @ after) p = Some p'"
    using assms(4) by (simp_all add: push_result_def gateway_New_def exec_append)
  have "psink p = s0" "handler p = h" using assms(1) by (auto simp: pool_New_def split: if_splits)
  moreover have "mset (written (tr @ after)) = mset (sent (tr @ after))"
    using drained_conserves [OF assms(1,2) e assms(5)] by simp
  moreover have "mset (accepted_of (GetEvents req) vs) \<subseteq># mset (sent tr)"
    using r by (intro subseq_mset_subset) (simp add: push_result_def)
  ultimately have "mset (accepted_of (GetEvents req) vs) \<subseteq># mset (written (tr @ after))"
    "(psink p', handler p') = pool_writes ops (errFn p) (written (tr @ after)) (s0, h)"
    using exec_sink [OF e] by (auto intro: subset_mset.add_increasing2)
  moreover have "length vs = length (GetEvents req)" "Accepted resp = of_nat (count_list vs True)"
    using r by (simp_all add: push_result_def)
  ultimately show ?thesis using that tr by blast
qed

text \<open>
  C19. From the answer to the sink: in a gateway that starts with an empty pool of at least one worker,
  once the pool has been closed and \<^verbatim>\<open>Close\<close> has returned, every event \<^verbatim>\<open>Push\<close> accepted has been
  written, once for each time it was accepted, or its failed write was reported to the error handler.
\<close>

theorem accepted_events_reach_the_sink:
  assumes "pool_New n c s0 f h = Returns p" and "0 < n"
    and "Push ops sched req (gateway_New p shed m) = Returns (s', resp)"
    and "exec (pool_next ops) after (srv_Pool s') = Some p'" and "Close_returns p'"
  shows "\<exists>vs ws. length vs = length (GetEvents req) \<and> Accepted resp = of_nat (count_list vs True) \<and>
    mset (accepted_of (GetEvents req) vs) \<subseteq># mset ws \<and>
    (psink p', handler p') = pool_writes ops (errFn p) ws (s0, h)"
  using gateway_run_writes [OF assms] by metis

lemma ex_wait_close:
  "exec (pool_next picky_ops)
     [LReceive 0, LWrite 0 (ex_ev ''b''), LClose, LReceive 0, LWrite 0 (ex_ev ''bad''), LReceive 0]
     ((ex_pool 1 2)\<lparr>queue := [ex_ev ''b'', ex_ev ''bad''], psink := 1\<rparr>) =
   Some ((ex_pool 1 2)\<lparr>queue_closed := True, workers := [Exited], wg := 0, psink := 2, handler := 1\<rparr>)"
  by (simp add: exec_Cons_iff ex_pool_def at_worker_def worker_receive_def
      worker_write_def picky_ops_def chan_close_def unpark_def) (simp add: ex_ev_def)

theorem accepted_events_reach_the_sink_witness:
  "\<exists>vs ws. length vs = 3 \<and> (3 :: u64) = of_nat (count_list vs True) \<and>
    mset (accepted_of (GetEvents ex_request) vs) \<subseteq># mset ws \<and>
    (2, 1) = pool_writes picky_ops (\<lambda>err k. Suc k) ws (0, 0)"
  using accepted_events_reach_the_sink [OF ex_pool_New [of 2 1] _ ex_wait_push [unfolded of_nat_1],
      of "[LReceive 0, LWrite 0 (ex_ev ''b''), LClose, LReceive 0, LWrite 0 (ex_ev ''bad''), LReceive 0]"]
    ex_wait_close
  by (simp add: Close_returns_def ex_request_def GetEvents_def) (simp add: ex_pool_def numeral_3_eq_3)

end
