(* ===== verification/Flush_Race.thy ===== *)
theory Flush_Race
  imports Timescale Transitions
begin

text \<open>
  The Timescale sink under concurrency.  \<^verbatim>\<open>NewTimescaleSink\<close> starts \<^verbatim>\<open>tickerLoop\<close>, so two goroutines
  run \<^verbatim>\<open>Flush\<close>: the ticker, and the caller (the consumer's loop, through \<^verbatim>\<open>Write\<close>, \<^verbatim>\<open>Flush\<close> and
  \<^verbatim>\<open>Close\<close>).  The mutex covers the buffer and the poison list only, so a flush is broken up here
  into its atomic steps: taking the buffer, each statement on the database, each entry in the
  poison list.  \<open>flush_step\<close> is one such step of a goroutine whose position inside \<^verbatim>\<open>Flush\<close> is a
  \<open>flush_pc\<close>; run without interruption it is \<open>TimescaleSink_Flush\<close>.
\<close>

section \<open>A flush in steps\<close>

text \<open>
  \<open>Copying k batch\<close>: in the first retry loop at attempt \<open>k\<close>; \<open>Rows k err es\<close>: in the second, at
  attempt \<open>k\<close> for the head of \<open>es\<close>, \<open>err\<close> being the variable \<^verbatim>\<open>rowErr\<close>; \<open>Idle\<close>: outside \<^verbatim>\<open>Flush\<close>.
\<close>

datatype flush_pc =
    Idle
  | Copying nat "Event list"
  | Rows nat "go_error option" "Event list"

definition flush_begin :: "'db TimescaleSink \<Rightarrow> 'db TimescaleSink \<times> flush_pc" where
  "flush_begin s =
     (case drainBuffer s of (s1, batch) \<Rightarrow> (s1, if length batch = 0 then Idle else Copying 0 batch))"

fun flush_step ::
  "'db copy_from \<Rightarrow> 'db exec_sql \<Rightarrow> 'db TimescaleSink \<Rightarrow> flush_pc \<Rightarrow> 'db TimescaleSink \<times> flush_pc" where
  "flush_step copyFrom execSQL s Idle = (s, Idle)"
| "flush_step copyFrom execSQL s (Copying k batch) =
     (if int k \<le> ts_maxRetries s
      then (case copyBatch copyFrom s batch of
              (s', None) \<Rightarrow> (s', Idle)
            | (s', Some err) \<Rightarrow> (s', Copying (Suc k) batch))
      else (s, Rows 0 None batch))"
| "flush_step copyFrom execSQL s (Rows k err []) = (s, Idle)"
| "flush_step copyFrom execSQL s (Rows k err (e # es)) =
     (if int k \<le> ts_maxRetries s
      then (case insertOne execSQL s e of
              (s', None) \<Rightarrow> (s', Rows 0 None es)
            | (s', Some x) \<Rightarrow> (s', Rows (Suc k) (Some x) (e # es)))
      else (case err of
              None \<Rightarrow> (s, Rows 0 None es)
            | Some x \<Rightarrow> (markPoisoned s e x, Rows 0 None es)))"

fun in_batch :: "flush_pc \<Rightarrow> Event list" where
  "in_batch Idle = []"
| "in_batch (Copying k batch) = batch"
| "in_batch (Rows k err es) = es"

section \<open>The two goroutines\<close>

text \<open>
  \<open>stop_closed\<close> and \<open>done_closed\<close> are the channels \<^verbatim>\<open>stop\<close> and \<^verbatim>\<open>done\<close>; \<open>drained\<close> collects what
  \<^verbatim>\<open>DrainPoisoned\<close> returned to the consumer, and \<open>commits\<close> counts its commits.
\<close>

record 'db race =
  rsink :: "'db TimescaleSink"
  ticker :: flush_pc
  caller :: flush_pc
  stop_closed :: bool
  done_closed :: bool
  drained :: "PoisonedEvent list"
  commits :: nat

datatype race_label =
    Tick | TickerStep | TickerStop
  | CallWrite Event | CallFlush | CallerStep | CallDrain | CallCommit | CallStop

text \<open>
  What \<^verbatim>\<open>time.NewTicker\<close> panics with when the interval is not positive: \<^verbatim>\<open>tickerLoop\<close> calls it before its
  loop, so with such an interval the first thing the ticker's goroutine does is to panic.
\<close>

definition bad_interval :: string where
  "bad_interval = ''non-positive interval for NewTicker''"

fun race_next ::
  "'db copy_from \<Rightarrow> 'db exec_sql \<Rightarrow> race_label \<Rightarrow> 'db race \<Rightarrow> 'db race run" where
  "race_next copyFrom execSQL Tick r =
     (if ticker r = Idle \<and> \<not> done_closed r
      then if ts_flushInterval (rsink r) \<le> 0 then Panics bad_interval
           else (case flush_begin (rsink r) of (s', pc) \<Rightarrow> Returns (r\<lparr>rsink := s', ticker := pc\<rparr>))
      else Blocks)"
| "race_next copyFrom execSQL TickerStep r =
     (if ticker r \<noteq> Idle
      then (case flush_step copyFrom execSQL (rsink r) (ticker r) of
              (s', pc) \<Rightarrow> Returns (r\<lparr>rsink := s', ticker := pc\<rparr>))
      else Blocks)"
| "race_next copyFrom execSQL TickerStop r =
     (if ticker r = Idle \<and> stop_closed r \<and> \<not> done_closed r
      then if ts_flushInterval (rsink r) \<le> 0 then Panics bad_interval
           else Returns (r\<lparr>done_closed := True\<rparr>)
      else Blocks)"
| "race_next copyFrom execSQL (CallWrite e) r =
     (if caller r = Idle
      then (let s1 = (rsink r)\<lparr>ts_buffer := ts_buffer (rsink r) @ [e]\<rparr>
            in if int (length (ts_buffer s1)) \<ge> ts_batchSize s1
               then (case flush_begin s1 of (s', pc) \<Rightarrow> Returns (r\<lparr>rsink := s', caller := pc\<rparr>))
               else Returns (r\<lparr>rsink := s1\<rparr>))
      else Blocks)"
| "race_next copyFrom execSQL CallFlush r =
     (if caller r = Idle \<and> (stop_closed r \<longrightarrow> done_closed r)
      then (case flush_begin (rsink r) of (s', pc) \<Rightarrow> Returns (r\<lparr>rsink := s', caller := pc\<rparr>))
      else Blocks)"
| "race_next copyFrom execSQL CallerStep r =
     (if caller r \<noteq> Idle
      then (case flush_step copyFrom execSQL (rsink r) (caller r) of
              (s', pc) \<Rightarrow> Returns (r\<lparr>rsink := s', caller := pc\<rparr>))
      else Blocks)"
| "race_next copyFrom execSQL CallDrain r =
     (if caller r = Idle
      then (case TimescaleSink_DrainPoisoned (rsink r) of
              (s', ps) \<Rightarrow> Returns (r\<lparr>rsink := s', drained := drained r @ ps\<rparr>))
      else Blocks)"
| "race_next copyFrom execSQL CallCommit r =
     (if caller r = Idle then Returns (r\<lparr>commits := Suc (commits r)\<rparr>) else Blocks)"
| "race_next copyFrom execSQL CallStop r =
     (if caller r \<noteq> Idle then Blocks
      else if stop_closed r then Panics ''close of closed channel''
      else Returns (r\<lparr>stop_closed := True\<rparr>))"

text \<open>The sink as \<^verbatim>\<open>NewTimescaleSink\<close> leaves it, with its ticker running.\<close>

definition race_start :: "'db TimescaleSink \<Rightarrow> 'db race" where
  "race_start s = \<lparr>rsink = s, ticker = Idle, caller = Idle, stop_closed = False, done_closed = False,
     drained = [], commits = 0\<rparr>"

section \<open>The steps of a flush amount to the flush\<close>

fun flush_run ::
  "'db copy_from \<Rightarrow> 'db exec_sql \<Rightarrow> nat \<Rightarrow> 'db TimescaleSink \<times> flush_pc \<Rightarrow> 'db TimescaleSink \<times> flush_pc" where
  "flush_run copyFrom execSQL 0 st = st"
| "flush_run copyFrom execSQL (Suc n) st = flush_run copyFrom execSQL n (flush_step copyFrom execSQL (fst st) (snd st))"

lemma flush_run_add:
  "flush_run c x (m + n) st = flush_run c x n (flush_run c x m st)"
  by (induction m arbitrary: st) simp_all

definition flush_ends ::
  "'db copy_from \<Rightarrow> 'db exec_sql \<Rightarrow> nat \<Rightarrow> 'db TimescaleSink \<times> flush_pc \<Rightarrow> 'db TimescaleSink \<Rightarrow> bool" where
  "flush_ends c x n st s' \<longleftrightarrow> (\<exists>k \<le> n. flush_run c x k st = (s', Idle))"

lemma flush_ends_step:
  "flush_ends c x n (flush_step c x s pc) s' \<Longrightarrow> flush_ends c x (Suc n) (s, pc) s'"
  by (force simp: flush_ends_def intro: exI [of _ "Suc _"])

lemma flush_ends_mono: "flush_ends c x n st s' \<Longrightarrow> n \<le> m \<Longrightarrow> flush_ends c x m st s'"
  unfolding flush_ends_def using le_trans by blast

text \<open>The second loop: \<open>j\<close> attempts left for the row at the head.\<close>

lemma rows_end:
  assumes "\<And>t. ts_maxRetries t = ts_maxRetries s \<Longrightarrow> flush_ends c x n (t, Rows 0 None es) (flush_rows x t es)"
    and "j = nat (ts_maxRetries s + 1 - int k)"
  shows "flush_ends c x (n + j + 1) (s, Rows k err (e # es))
    (case retry_loop j (\<lambda>s. insertOne x s e) s err of
       (s', out) \<Rightarrow> (case outcome_err out of
          None \<Rightarrow> flush_rows x s' es
        | Some rowErr \<Rightarrow> flush_rows x (markPoisoned s' e rowErr) es))"
  using assms
proof (induction j arbitrary: s k err)
  case 0
  then show ?case
    by (intro flush_ends_mono [OF flush_ends_step [where n = n]])
      (auto split: option.split)
next
  case (Suc j)
  obtain s1 r where i: "insertOne x s e = (s1, r)" by fastforce
  have m: "ts_maxRetries s1 = ts_maxRetries s" using i by (auto simp: insertOne_def split: prod.splits)
  have k: "int k \<le> ts_maxRetries s" using Suc.prems(2) by auto
  show ?case
  proof (cases r)
    case None
    with i k m Suc.prems(1) [of s1] show ?thesis
      by (intro flush_ends_mono [OF flush_ends_step [where n = n]]) auto
  next
    case (Some y)
    from Suc.prems(2) m have "j = nat (ts_maxRetries s1 + 1 - int (Suc k))" by auto
    with Suc.IH [of s1 "Suc k" "Some y"] Suc.prems(1) m
    have "flush_ends c x (n + j + 1) (flush_step c x s (Rows k err (e # es)))
      (case retry_loop (Suc j) (\<lambda>s. insertOne x s e) s err of
         (s', out) \<Rightarrow> (case outcome_err out of
            None \<Rightarrow> flush_rows x s' es
          | Some rowErr \<Rightarrow> flush_rows x (markPoisoned s' e rowErr) es))"
      using i k Some by simp
    from flush_ends_step [OF this] show ?thesis by simp
  qed
qed

lemma all_rows_end:
  "flush_ends c x (length es * (nat (ts_maxRetries s + 1) + 1) + 1) (s, Rows 0 None es) (flush_rows x s es)"
proof (induction es arbitrary: s)
  case Nil
  show ?case by (auto simp: flush_ends_def intro!: exI [of _ "Suc 0"])
next
  case (Cons e es)
  let ?j = "nat (ts_maxRetries s + 1)"
  have "flush_ends c x (length es * (?j + 1) + 1) (t, Rows 0 None es) (flush_rows x t es)"
    if "ts_maxRetries t = ts_maxRetries s" for t using Cons.IH [of t] that by simp
  from rows_end [OF this, where j = ?j and k = 0 and err = None and e = e]
  have "flush_ends c x (length es * (?j + 1) + 1 + ?j + 1) (s, Rows 0 None (e # es)) (flush_rows x s (e # es))"
    by (simp add: retry_def)
  then show ?case by (rule flush_ends_mono) simp
qed

lemma copying_ends:
  assumes "j = nat (ts_maxRetries s + 1 - int k)"
  shows "flush_ends c x (length b * (nat (ts_maxRetries s + 1) + 1) + j + 2) (s, Copying k b)
    (case retry_loop j (\<lambda>s. copyBatch c s b) s err of
       (s', Done) \<Rightarrow> s' | (s', Exhausted _) \<Rightarrow> flush_rows x s' b)"
  using assms
proof (induction j arbitrary: s k err)
  case 0
  then show ?case using all_rows_end [of c x b s]
    by (intro flush_ends_mono [OF flush_ends_step]) auto
next
  case (Suc j)
  obtain s1 r where i: "copyBatch c s b = (s1, r)" by fastforce
  have m: "ts_maxRetries s1 = ts_maxRetries s" using i by (auto simp: copyBatch_def split: prod.splits)
  have k: "int k \<le> ts_maxRetries s" using Suc.prems by auto
  show ?case
  proof (cases r)
    case None
    with i k show ?thesis
      by (auto simp: flush_ends_def intro!: exI [of _ "Suc 0"])
  next
    case (Some y)
    from Suc.prems m have "j = nat (ts_maxRetries s1 + 1 - int (Suc k))" by auto
    with Suc.IH [of s1 "Suc k" "Some y"] m
    have "flush_ends c x (length b * (nat (ts_maxRetries s + 1) + 1) + j + 2) (flush_step c x s (Copying k b))
      (case retry_loop (Suc j) (\<lambda>s. copyBatch c s b) s err of
         (s', Done) \<Rightarrow> s' | (s', Exhausted _) \<Rightarrow> flush_rows x s' b)"
      using i k Some by simp
    from flush_ends_step [OF this] show ?thesis by simp
  qed
qed

text \<open>Run to its end without interruption, a flush in steps is the flush, within a bounded number of steps.\<close>

lemma flush_in_steps:
  "flush_ends c x (length (ts_buffer s) * (nat (ts_maxRetries s + 1) + 1) + nat (ts_maxRetries s + 1) + 2)
     (flush_begin s) (fst (TimescaleSink_Flush c x s))"
proof (cases "ts_buffer s = []")
  case True
  then show ?thesis
    by (auto simp: flush_begin_def drainBuffer_def TimescaleSink_Flush_def flush_ends_def intro!: exI [of _ 0])
next
  case False
  let ?s = "s\<lparr>ts_buffer := []\<rparr>"
  from copying_ends [where s = ?s and k = 0 and c = c and x = x and b = "ts_buffer s" and err = None, OF refl] False
  show ?thesis
    by (simp add: flush_begin_def drainBuffer_def TimescaleSink_Flush_def retry_def if_distrib
        split: prod.splits outcome.splits)
qed

section \<open>What every interleaving keeps\<close>

text \<open>The events a state accounts for besides the table: pending, in a goroutine's batch, set aside, handed over.\<close>

definition in_process :: "'db race \<Rightarrow> Event set" where
  "in_process r =
     set (ts_buffer (rsink r)) \<union> set (in_batch (ticker r)) \<union> set (in_batch (caller r)) \<union>
     PoisonEvent ` set (ts_poisoned (rsink r)) \<union> PoisonEvent ` set (drained r)"

text \<open>
  The row loop poisons the row it gives up on only if the loop body ran at least once, so with a
  bound that is not negative an exhausted attempt counter comes with an error.
\<close>

fun pc_ok :: "flush_pc \<Rightarrow> bool" where
  "pc_ok (Rows k err es) \<longleftrightarrow> k = 0 \<or> err \<noteq> None"
| "pc_ok pc \<longleftrightarrow> True"

definition race_ok :: "'db race \<Rightarrow> bool" where
  "race_ok r \<longleftrightarrow> 0 \<le> ts_maxRetries (rsink r) \<and> pc_ok (ticker r) \<and> pc_ok (caller r) \<and>
     (done_closed r \<longrightarrow> ticker r = Idle)"

lemma flush_begin_frame:
  "flush_begin s = (s', pc) \<Longrightarrow>
     s' = s\<lparr>ts_buffer := []\<rparr> \<and> in_batch pc = ts_buffer s \<and> pc_ok pc"
  by (auto simp: flush_begin_def drainBuffer_def split: if_splits)

lemma copy_attempt_frame:
  "copyBatch c s b = (s', err) \<Longrightarrow> local_part s' = local_part s"
  by (auto simp: copyBatch_def local_part_def split: prod.splits)

lemma insert_attempt_frame:
  "insertOne x s e = (s', err) \<Longrightarrow> local_part s' = local_part s"
  by (auto simp: insertOne_def local_part_def split: prod.splits)

lemma flush_step_frame:
  assumes "flush_step c x s pc = (s', pc')" and "pc_ok pc"
  shows "ts_maxRetries s' = ts_maxRetries s \<and> ts_buffer s' = ts_buffer s \<and> pc_ok pc' \<and>
    set (ts_poisoned s) \<subseteq> set (ts_poisoned s')"
  using assms
  by (cases "(c, x, s, pc)" rule: flush_step.cases)
    (auto simp: local_part_def markPoisoned_def split: if_splits prod.splits option.splits
      dest!: copy_attempt_frame insert_attempt_frame)

lemma race_step_ok:
  assumes "race_ok r" and "race_next c x l r = Returns r'" shows "race_ok r'"
  using assms
  by (cases l) (auto simp: race_ok_def Let_def TimescaleSink_DrainPoisoned_def
      split: if_splits prod.splits dest: flush_begin_frame flush_step_frame)

interpretation rl: invariant_lts "race_next c x" race_ok for c x
  by unfold_locales (rule race_step_ok)

text \<open>The interleavings over a database that keeps its contract.\<close>

context timescale_db
begin

definition race_accounted :: "Event \<Rightarrow> 'db race \<Rightarrow> bool" where
  "race_accounted e r \<longleftrightarrow> stored (rsink r) e \<or> e \<in> in_process r"

lemma flush_step_accounts:
  assumes "flush_step copyFrom execSQL s pc = (s', pc')" and "pc_ok pc" and "0 \<le> ts_maxRetries s"
  shows "(stored s e \<longrightarrow> stored s' e) \<and>
    (e \<in> set (in_batch pc) \<longrightarrow>
       stored s' e \<or> e \<in> set (in_batch pc') \<or> e \<in> PoisonEvent ` set (ts_poisoned s'))"
  using assms
proof (cases "(copyFrom, execSQL, s, pc)" rule: flush_step.cases)
  case (2 c x t k b)
  with assms(1) copyBatch_keeps [of s e b] copyBatch_ok [of s b s' e] show ?thesis
    by (auto split: if_splits prod.splits option.splits)
next
  case (4 c x t k err f es)
  with assms(1,2,3) insertOne_keeps [of s e f] insertOne_ok [of s f s'] show ?thesis
    by (auto split: if_splits prod.splits option.splits simp: markPoisoned_def stored_def)
qed auto

lemma race_step_accounts:
  assumes "race_ok r" and "race_accounted e r" and "race_next copyFrom execSQL l r = Returns r'"
  shows "race_accounted e r'"
  using assms
proof (cases l)
  case TickerStep
  with assms obtain s' pc where "flush_step copyFrom execSQL (rsink r) (ticker r) = (s', pc)"
    "r' = r\<lparr>rsink := s', ticker := pc\<rparr>" "pc_ok (ticker r)" "0 \<le> ts_maxRetries (rsink r)"
    by (auto simp: race_ok_def split: if_splits prod.splits)
  with flush_step_accounts [of "rsink r" "ticker r" s' pc e] flush_step_frame [of copyFrom execSQL "rsink r" "ticker r" s' pc]
    assms(2) show ?thesis by (auto simp: race_accounted_def in_process_def)
next
  case CallerStep
  with assms obtain s' pc where "flush_step copyFrom execSQL (rsink r) (caller r) = (s', pc)"
    "r' = r\<lparr>rsink := s', caller := pc\<rparr>" "pc_ok (caller r)" "0 \<le> ts_maxRetries (rsink r)"
    by (auto simp: race_ok_def split: if_splits prod.splits)
  with flush_step_accounts [of "rsink r" "caller r" s' pc e] flush_step_frame [of copyFrom execSQL "rsink r" "caller r" s' pc]
    assms(2) show ?thesis by (auto simp: race_accounted_def in_process_def)
qed (auto simp: race_accounted_def in_process_def stored_def Let_def TimescaleSink_DrainPoisoned_def
    split: if_splits prod.splits dest!: flush_begin_frame)

lemma write_step_accounts:
  "race_next copyFrom execSQL (CallWrite e) r = Returns r' \<Longrightarrow> race_accounted e r'"
  by (auto simp: race_accounted_def in_process_def Let_def split: if_splits prod.splits dest!: flush_begin_frame)

lemma race_exec_accounts:
  assumes "exec (race_next copyFrom execSQL) ls r = Some r'" and "race_ok r" and "CallWrite e \<in> set ls"
  shows "race_accounted e r'"
proof -
  from assms(3) obtain ls1 ls2 where ls: "ls = ls1 @ CallWrite e # ls2" by (auto simp: in_set_conv_decomp)
  with assms(1) obtain r1 where r1: "exec (race_next copyFrom execSQL) ls1 r = Some r1"
    and "exec (race_next copyFrom execSQL) (CallWrite e # ls2) r1 = Some r'"
    by (auto simp: exec_append bind_eq_Some_conv)
  then obtain r2 where r2: "race_next copyFrom execSQL (CallWrite e) r1 = Returns r2"
    and e: "exec (race_next copyFrom execSQL) ls2 r2 = Some r'" unfolding exec_Cons_iff by blast
  note ok = rl.step_ok [OF rl.exec_ok [OF r1 assms(2)] r2]
  show ?thesis
    by (rule rl.exec_keeps [where Q = "race_accounted e", OF e ok write_step_accounts [OF r2]])
      (rule race_step_accounts)
qed

text \<open>When neither goroutine is inside a flush and the buffer is empty, accounted for means settled.\<close>

lemma quiet_settled:
  assumes "race_accounted e r" and "ticker r = Idle" and "caller r = Idle" and "ts_buffer (rsink r) = []"
  shows "stored (rsink r) e \<or> e \<in> PoisonEvent ` set (ts_poisoned (rsink r)) \<or> e \<in> PoisonEvent ` set (drained r)"
  using assms by (auto simp: race_accounted_def in_process_def)

end

section \<open>A flush ends\<close>

text \<open>The steps a flush still has to make, at most.\<close>

fun flush_rank :: "int \<Rightarrow> flush_pc \<Rightarrow> nat" where
  "flush_rank m Idle = 0"
| "flush_rank m (Copying k b) = length b * (nat (m + 1) + 1) + nat (m + 1 - int k) + 2"
| "flush_rank m (Rows k err es) =
     length es * (nat (m + 1) + 1) + 1 - (if es = [] then 0 else min k (nat (m + 1)))"

lemma flush_step_rank:
  assumes "flush_step c x s pc = (s', pc')" and "pc \<noteq> Idle"
  shows "ts_maxRetries s' = ts_maxRetries s \<and> flush_rank (ts_maxRetries s) pc' < flush_rank (ts_maxRetries s) pc"
  using assms
proof (cases "(c, x, s, pc)" rule: flush_step.cases)
  case (2 c' x' t k b)
  then show ?thesis
    using assms(1) by (auto simp: local_part_def split: if_splits prod.splits option.splits dest!: copy_attempt_frame)
next
  case (4 c' x' t k err e es)
  let ?M = "nat (ts_maxRetries s + 1)"
  have k: "int k \<le> ts_maxRetries s \<longleftrightarrow> k < ?M" by auto
  from 4 show ?thesis
    using assms(1) k by (auto simp: local_part_def min_def split: if_splits prod.splits option.splits dest!: insert_attempt_frame)
qed auto

text \<open>The ticker alone, whatever the caller has left behind: its flush comes to an end.\<close>

definition ticker_alone :: "'db copy_from \<Rightarrow> 'db exec_sql \<Rightarrow> unit \<Rightarrow> 'db race \<Rightarrow> 'db race run" where
  "ticker_alone c x u r = race_next c x TickerStep r"

lemma ticker_alone_step:
  assumes "ticker_alone c x u r = Returns r'"
  shows "flush_rank (ts_maxRetries (rsink r')) (ticker r') < flush_rank (ts_maxRetries (rsink r)) (ticker r)"
  using assms flush_step_rank [of c x "rsink r" "ticker r"]
  by (auto simp: ticker_alone_def split: if_splits prod.splits)

interpretation tk: draining_lts "ticker_alone c x" race_ok "\<lambda>_. True" "\<lambda>r. ticker r = Idle"
    "\<lambda>r. flush_rank (ts_maxRetries (rsink r)) (ticker r)" for c x
proof unfold_locales
  show "race_ok r'" if "race_ok r" "ticker_alone c x u r = Returns r'" for r u r'
    using race_step_ok that unfolding ticker_alone_def by blast
  show "\<exists>u r'. ticker_alone c x u r = Returns r'" if "ticker r \<noteq> Idle" for r
    using that by (auto simp: ticker_alone_def split: prod.split)
qed (use ticker_alone_step in blast)+

end
