(* ===== verification/Race_Properties.thy ===== *)
theory Race_Properties
  imports Flush_Race Schema
begin

text \<open>
  The properties of the Timescale sink shared by its ticker and its caller: what every
  interleaving keeps, what a commit is worth, and what \<^verbatim>\<open>Close\<close> guarantees.
\<close>

section \<open>Fixtures for the concrete runs\<close>

definition ex_reading :: "string \<Rightarrow> Event" where
  "ex_reading k = \<lparr>DeviceID = ''d'', IdempotencyKey = k, EventTimeUnixNanos = 42, Metric = ''m'', Value = 0\<rparr>"

definition ex_store :: "bool list \<Rightarrow> pg TimescaleSink" where
  "ex_store faults = \<lparr>ts_pool = \<lparr>pg_rows = [], pg_faults = faults\<rparr>, ts_batchSize = 10,
     ts_flushInterval = 2000000000, ts_maxRetries = 0,
     ts_buffer = [], ts_poisoned = []\<rparr>"

text \<open>The ticker takes the first event while the caller writes and flushes the second.\<close>

definition ex_interleaving :: "race_label list" where
  "ex_interleaving = [CallWrite (ex_reading ''a''), Tick, CallWrite (ex_reading ''b''), CallFlush, CallerStep,
     TickerStep, CallDrain, CallCommit]"

definition ex_outcome :: "pg race option" where
  "ex_outcome = exec (race_next pg_copy pg_exec) ex_interleaving (race_start (ex_store []))"

lemma ex_outcome_eq:
  "ex_outcome = Some ((race_start (ex_store []))\<lparr>rsink := (ex_store [])
     \<lparr>ts_pool := \<lparr>pg_rows = map (row_of_event \<circ> ex_reading) [''b'', ''a''], pg_faults = []\<rparr>\<rparr>, commits := 1\<rparr>)"
  by code_simp

section \<open>The properties\<close>


text \<open>
  C11. No interleaving loses an event: over a database that keeps its contract and with a retry bound that is
  not negative, whatever the ticker and the caller do in whatever order, each event written so far
  is in the table, in the buffer, in the batch of one of the two flushes, in the poison list, or
  was handed to the consumer by \<^verbatim>\<open>DrainPoisoned\<close>.
\<close>

theorem interleaved_writes_are_accounted:
  assumes "timescale_db copyFrom execSQL holds" and "0 \<le> ts_maxRetries s"
    and "exec (race_next copyFrom execSQL) ls (race_start s) = Some r" and "CallWrite e \<in> set ls"
  shows "holds (ts_pool (rsink r)) (row_of_event e) \<or> e \<in> in_process r"
proof -
  have "race_ok (race_start s)" using assms(2) by (simp add: race_ok_def race_start_def)
  from timescale_db.race_exec_accounts [OF assms(1,3) this assms(4)] show ?thesis
    by (simp add: timescale_db.race_accounted_def [OF assms(1)] timescale_db.stored_def [OF assms(1)])
qed

theorem interleaved_writes_are_accounted_witness:
  "\<exists>r. ex_outcome = Some r \<and>
     (pg_holds (ts_pool (rsink r)) (row_of_event (ex_reading ''a'')) \<or> ex_reading ''a'' \<in> in_process r)"
  using interleaved_writes_are_accounted [OF pg.timescale_db_axioms, of "ex_store []" ex_interleaving _ "ex_reading ''a''"]
    ex_outcome_eq unfolding ex_outcome_def
  by (auto simp: ex_store_def ex_interleaving_def)

text \<open>
  What a commit is worth: if the ticker is not inside a flush when the caller has flushed and drained,
  every event written before is in the table or was handed over for the dead-letter topic.
\<close>

theorem quiet_commit_is_safe:
  assumes "timescale_db copyFrom execSQL holds" and "0 \<le> ts_maxRetries s"
    and "exec (race_next copyFrom execSQL) ls (race_start s) = Some r" and "CallWrite e \<in> set ls"
    and "ticker r = Idle" and "caller r = Idle" and "ts_buffer (rsink r) = []" and "ts_poisoned (rsink r) = []"
  shows "holds (ts_pool (rsink r)) (row_of_event e) \<or> e \<in> PoisonEvent ` set (drained r)"
proof -
  have "race_ok (race_start s)" using assms(2) by (simp add: race_ok_def race_start_def)
  from timescale_db.quiet_settled [OF assms(1) timescale_db.race_exec_accounts [OF assms(1,3) this assms(4)] assms(5-7)]
    assms(8) show ?thesis by (simp add: timescale_db.stored_def [OF assms(1)])
qed

theorem quiet_commit_is_safe_witness:
  "\<exists>r. ex_outcome = Some r \<and>
     (pg_holds (ts_pool (rsink r)) (row_of_event (ex_reading ''b'')) \<or> ex_reading ''b'' \<in> PoisonEvent ` set (drained r))"
  using quiet_commit_is_safe [OF pg.timescale_db_axioms, of "ex_store []" ex_interleaving _ "ex_reading ''b''"]
    ex_outcome_eq unfolding ex_outcome_def
  by (auto simp: ex_store_def ex_interleaving_def race_start_def)

text \<open>
  C28. The race: a commit does not wait for the ticker.  From any sink with an empty
  buffer, a batch size above one and a running ticker, the ticker can take
  a written event out of the buffer so that the caller's \<^verbatim>\<open>Flush\<close> finds nothing and returns, the drain is empty and
  the offsets are committed while the event is neither in the table nor set aside: it exists only
  in the ticker's memory, and a crash at this point loses it.
\<close>

theorem commit_overtakes_ticker_flush:
  assumes "ts_buffer s = []" and "ts_poisoned s = []" and "1 < ts_batchSize s" and "0 < ts_flushInterval s"
  shows "\<exists>r. exec (race_next copyFrom execSQL) [CallWrite e, Tick, CallFlush, CallDrain, CallCommit] (race_start s) = Some r \<and>
    commits r = 1 \<and> ts_pool (rsink r) = ts_pool s \<and> ts_buffer (rsink r) = [] \<and>
    ts_poisoned (rsink r) = [] \<and> drained r = [] \<and> ticker r = Copying 0 [e]"
  using assms
  by (simp add: exec_Cons_iff race_start_def flush_begin_def drainBuffer_def TimescaleSink_DrainPoisoned_def)

theorem commit_overtakes_ticker_flush_witness:
  "\<exists>r. exec (race_next pg_copy pg_exec) [CallWrite (ex_reading ''a''), Tick, CallFlush, CallDrain, CallCommit]
       (race_start (ex_store [])) = Some r \<and>
     commits r = 1 \<and> pg_rows (ts_pool (rsink r)) = [] \<and> drained r = []"
  using commit_overtakes_ticker_flush [of "ex_store []" pg_copy pg_exec "ex_reading ''a''"]
  by (force simp: ex_store_def)

text \<open>
  An interval that is not positive stops the process: whenever the ticker's goroutine is scheduled, and it
  is at the latest when \<^verbatim>\<open>Close\<close> waits for it, it panics.
\<close>

lemma bad_interval_panics:
  assumes "ts_flushInterval s \<le> 0"
  shows "race_next copyFrom execSQL Tick (race_start s) = Panics bad_interval"
    and "race_next copyFrom execSQL TickerStop ((race_start s)\<lparr>stop_closed := True\<rparr>) = Panics bad_interval"
  using assms by (simp_all add: race_start_def)

text \<open>
  Closing is orderly: \<^verbatim>\<open>Close\<close> waits for the ticker, so once \<^verbatim>\<open>done\<close> is closed no flush of the ticker is
  under way and none can start; and when the final flush has returned, every event ever written
  is in the table, in the poison list or handed over.
\<close>

theorem closed_sink_has_settled:
  assumes "timescale_db copyFrom execSQL holds" and "0 \<le> ts_maxRetries s"
    and "exec (race_next copyFrom execSQL) ls (race_start s) = Some r" and "done_closed r"
  shows "ticker r = Idle \<and> race_next copyFrom execSQL Tick r = Blocks \<and>
    (caller r = Idle \<and> ts_buffer (rsink r) = [] \<and> CallWrite e \<in> set ls \<longrightarrow>
       holds (ts_pool (rsink r)) (row_of_event e) \<or> e \<in> PoisonEvent ` set (ts_poisoned (rsink r)) \<or>
       e \<in> PoisonEvent ` set (drained r))"
proof -
  have start: "race_ok (race_start s)" using assms(2) by (simp add: race_ok_def race_start_def)
  from rl.exec_ok [OF assms(3) this] assms(4) have t: "ticker r = Idle" by (simp add: race_ok_def)
  with timescale_db.quiet_settled [OF assms(1) timescale_db.race_exec_accounts [OF assms(1,3) start]] assms(4)
  show ?thesis by (simp add: timescale_db.stored_def [OF assms(1)])
qed

definition ex_closing :: "race_label list" where
  "ex_closing = [CallWrite (ex_reading ''a''), CallStop, Tick, TickerStep, TickerStep, TickerStep, TickerStep, TickerStep,
     TickerStop, CallFlush]"

lemma ex_closing_runs:
  "exec (race_next pg_copy pg_exec) ex_closing (race_start (ex_store [True, True])) =
     Some ((race_start (ex_store []))\<lparr>rsink := (ex_store [])\<lparr>ts_poisoned :=
       [\<lparr>PoisonEvent = ex_reading ''a'', PoisonErr = ErrorText ''connection refused''\<rparr>]\<rparr>,
       stop_closed := True, done_closed := True\<rparr>)"
  by code_simp

theorem closed_sink_has_settled_witness:
  "pg_holds \<lparr>pg_rows = [], pg_faults = []\<rparr> (row_of_event (ex_reading ''a'')) \<or>
   ex_reading ''a'' \<in> PoisonEvent ` set [\<lparr>PoisonEvent = ex_reading ''a'', PoisonErr = ErrorText ''connection refused''\<rparr>]"
  using closed_sink_has_settled [OF pg.timescale_db_axioms _ ex_closing_runs, of "ex_reading ''a''"]
  by (simp add: ex_store_def race_start_def ex_closing_def)

text \<open>
  A flush under way in the ticker ends: each of its steps lowers the number of steps left, so
  it makes at most that many, and when it can make none it is outside \<^verbatim>\<open>Flush\<close>.
\<close>

lemma ticker_flush_ends:
  assumes "race_ok r" and "exec (ticker_alone copyFrom execSQL) us r = Some r'"
  shows "length us \<le> flush_rank (ts_maxRetries (rsink r)) (ticker r) \<and>
    ((\<forall>u. exec (ticker_alone copyFrom execSQL) (us @ [u]) r = None) \<longrightarrow> ticker r' = Idle)"
  using tk.exec_rank [OF assms(2,1)] tk.maximal_is_final [OF assms(2,1)] by auto

end
