(* ===== verification/Json.thy ===== *)
theory Json
  imports Complex_Main Prelude "HOL-Library.Char_ord" "HOL-Library.List_Lexorder"
begin

text \<open>
  The part of Go's standard library the report generator works with: numbers that were read from
  JSON, the decoding of a JSON value into a struct by field names, fixed-point printing, substring
  search and the sorting of slices.

  A finite float64 is its exact value, a rational (the two zeros are one); \<open>round64\<close> is the rounding of IEEE 754 to the
  nearest one, ties to even.
\<close>

section \<open>Floating point\<close>

type_synonym num64 = rat

text \<open>Round to the nearest integer, ties to even.\<close>

definition round_even :: "rat \<Rightarrow> int" where
  "round_even x =
     (let f = \<lfloor>x\<rfloor>; d = x - of_int f
      in if d < 1 / 2 then f else if 1 / 2 < d then f + 1 else if even f then f else f + 1)"

text \<open>
  The exponent of the binade of a positive rational, \<open>2 ^ e \<le> x < 2 ^ (e + 1)\<close>, found from the
  lengths of numerator and denominator.
\<close>

fun bit_length :: "nat \<Rightarrow> nat" where
  "bit_length n = (if n = 0 then 0 else Suc (bit_length (n div 2)))"

declare bit_length.simps [simp del]

definition pow2 :: "int \<Rightarrow> rat" where
  "pow2 e = (if 0 \<le> e then 2 ^ nat e else 1 / 2 ^ nat (- e))"

definition binade :: "rat \<Rightarrow> int" where
  "binade x =
     (case quotient_of x of
        (n, d) \<Rightarrow>
          (let e = int (bit_length (nat n)) - int (bit_length (nat d))
           in if pow2 e \<le> x then e else e - 1))"

text \<open>
  Rounding to float64: 53 bits of significand, exponents down to the subnormal \<open>2 ^ (- 1074)\<close>;
  \<open>None\<close> when the magnitude overflows to an infinity.
\<close>

definition round64 :: "rat \<Rightarrow> num64 option" where
  "round64 x =
     (if x = 0 then Some 0
      else (let u = pow2 (max (binade \<bar>x\<bar> - 52) (- 1074)); y = of_int (round_even (x / u)) * u
            in if \<bar>y\<bar> \<ge> pow2 1024 then None else Some y))"

text \<open>\<^verbatim>\<open>float64(i)\<close> of an integer, which never overflows.\<close>

definition float_of_int :: "int \<Rightarrow> num64" where
  "float_of_int i = (case round64 (of_int i) of Some x \<Rightarrow> x | None \<Rightarrow> 0)"

text \<open>A float64 quotient with a divisor that is not zero; overflow cannot happen where this is used.\<close>

definition div64 :: "num64 \<Rightarrow> num64 \<Rightarrow> num64" where
  "div64 a b = (case round64 (a / b) of Some x \<Rightarrow> x | None \<Rightarrow> 0)"

text \<open>The verb \<^verbatim>\<open>%.df\<close>: the exact value rounded to \<open>d\<close> decimals, ties to even.\<close>

definition fixed :: "nat \<Rightarrow> rat \<Rightarrow> string" where
  "fixed d x =
     (let n = nat \<bar>round_even (\<bar>x\<bar> * 10 ^ d)\<bar>; s = dec_of_nat n;
          t = replicate (Suc d - length s) (CHR ''0'') @ s;
          sign = (if x < 0 then ''-'' else '''')
      in sign @ take (length t - d) t @ (if d = 0 then '''' else CHR ''.'' # drop (length t - d) t))"

text \<open>Integers of up to 53 bits are float64 values, which also gives a quick way to compute the rounding of one.\<close>

lemma bit_length_1: "bit_length (Suc 0) = Suc 0"
  by (simp add: bit_length.simps [of "Suc 0"] bit_length.simps [of 0])

lemma pow2_int: "pow2 (int k) = 2 ^ k"
  by (simp add: pow2_def)

lemma bit_length_bounds:
  "0 < n \<Longrightarrow> 2 ^ (bit_length n - 1) \<le> n \<and> n < 2 ^ bit_length n \<and> 0 < bit_length n"
proof (induction n rule: bit_length.induct)
  case (1 n)
  show ?case
  proof (cases "n = 1")
    case True
    then show ?thesis by (simp add: bit_length_1)
  next
    case False
    with "1.prems" have d: "0 < n div 2" by auto
    have b: "bit_length n = Suc (bit_length (n div 2))" using "1.prems" by (subst bit_length.simps) simp
    obtain k where k: "bit_length (n div 2) = Suc k" using "1.IH" d "1.prems" by (cases "bit_length (n div 2)") auto
    from "1.IH" d "1.prems" k have "2 ^ k \<le> n div 2" "n div 2 < 2 ^ Suc k" by auto
    then show ?thesis using b k by (auto simp: div_less_iff_less_mult less_eq_div_iff_mult_less_eq)
  qed
qed

lemma bit_length_le: "n < 2 ^ k \<Longrightarrow> 0 < n \<Longrightarrow> bit_length n \<le> k"
proof (rule ccontr)
  assume n: "n < 2 ^ k" "0 < n" and "\<not> bit_length n \<le> k"
  then have "(2 :: nat) ^ k \<le> 2 ^ (bit_length n - 1)" by (intro power_increasing) auto
  with bit_length_bounds [OF n(2)] n(1) show False by linarith
qed

lemma binade_of_nat:
  assumes "0 < n" shows "binade (of_nat n) = int (bit_length n) - 1"
proof -
  have q: "quotient_of (of_nat n) = (int n, 1)" using quotient_of_int [of "int n"] by simp
  have one: "bit_length 1 = 1" by (simp add: bit_length_1)
  from bit_length_bounds [OF assms] obtain k where k: "bit_length n = Suc k" and "2 ^ k \<le> n"
    by (cases "bit_length n") auto
  then have "(2 :: rat) ^ k \<le> of_nat n" by (metis of_nat_le_iff of_nat_numeral of_nat_power)
  then show ?thesis using k q one by (simp add: binade_def pow2_def Let_def)
qed

lemma round_even_of_int [simp]: "round_even (of_int i) = i"
  by (simp add: round_even_def)

lemma round64_small:
  assumes "\<bar>i\<bar> < 2 ^ 53" shows "round64 (of_int i) = Some (of_int i)"
proof (cases "i = 0")
  case False
  let ?n = "nat \<bar>i\<bar>" and ?l = "bit_length (nat \<bar>i\<bar>)"
  have n: "0 < ?n" "?n < 2 ^ 53" using False assms by auto
  have a: "\<bar>of_int i\<bar> = (of_nat ?n :: rat)" by simp
  have l: "?l \<le> 53" by (rule bit_length_le [OF n(2,1)])
  then obtain m where m: "53 = ?l + m" using le_Suc_ex by blast
  have "binade \<bar>of_int i\<bar> - 52 = - int m" unfolding a binade_of_nat [OF n(1)] using m by linarith
  moreover have "m \<le> 53" using m by linarith
  ultimately have "max (binade \<bar>of_int i\<bar> - 52) (- 1074) = - int m" by simp
  then have u: "pow2 (max (binade \<bar>of_int i\<bar> - 52) (- 1074)) = 1 / 2 ^ m" by (simp add: pow2_def)
  have "of_int i / (1 / 2 ^ m) = (of_int (i * 2 ^ m) :: rat)" by simp
  then have y: "of_int (round_even (of_int i / (1 / 2 ^ m))) * (1 / 2 ^ m) = (of_int i :: rat)"
    by (simp only: round_even_of_int) simp
  have "(of_nat ?n :: rat) < 2 ^ 53" using n(2) by (metis of_nat_less_iff of_nat_numeral of_nat_power)
  also have "(2 :: rat) ^ 53 \<le> 2 ^ 1024" by (rule power_increasing) simp_all
  also have "(2 :: rat) ^ 1024 = pow2 1024" using pow2_int [of 1024] unfolding of_nat_numeral by (rule sym)
  finally have "\<bar>of_int i\<bar> < pow2 1024" unfolding a .
  with False show ?thesis unfolding round64_def Let_def u y by simp
qed (simp add: round64_def)

lemma round64_code [code]:
  "round64 x =
     (if snd (quotient_of x) = 1 \<and> \<bar>fst (quotient_of x)\<bar> < 2 ^ 53 then Some x
      else (let u = pow2 (max (binade \<bar>x\<bar> - 52) (- 1074)); y = of_int (round_even (x / u)) * u
            in if \<bar>y\<bar> \<ge> pow2 1024 then None else Some y))"
proof -
  have "x = of_int (fst (quotient_of x))" if "snd (quotient_of x) = 1"
    using quotient_of_div [of x "fst (quotient_of x)" "snd (quotient_of x)"] that by (metis div_by_1 of_int_1 prod.collapse)
  then show ?thesis using round64_small [of "fst (quotient_of x)"] by (auto simp: round64_def)
qed
section \<open>JSON values\<close>

text \<open>
  A parsed document.  \<open>JInt\<close> is a number literal without fraction and exponent, the only kind an
  integer field takes; \<open>JDec\<close> any other number literal.
\<close>

datatype json =
    JNull
  | JBool bool
  | JInt int
  | JDec rat
  | JStr string
  | JArr "json list"
  | JObj "(string \<times> json) list"

text \<open>Keys match field names up to the case of ASCII letters.\<close>

definition fold_char :: "char \<Rightarrow> char" where
  "fold_char c = (if 65 \<le> (of_char c :: nat) \<and> (of_char c :: nat) \<le> 90 then char_of (of_char c + 32 :: nat) else c)"

definition key_matches :: "string \<Rightarrow> string \<Rightarrow> bool" where
  "key_matches k name \<longleftrightarrow> map fold_char k = map fold_char name"

text \<open>All values an object gives for a field, in order: each is decoded over the last.\<close>

definition field_values :: "string \<Rightarrow> (string \<times> json) list \<Rightarrow> json list" where
  "field_values name obj = map snd (filter (\<lambda>kv. key_matches (fst kv) name) obj)"

text \<open>
  Decoding one value into a field that holds \<open>old\<close>: null leaves it, a value of the wrong kind or
  out of range is an error.
\<close>

definition type_error :: "string \<Rightarrow> go_error" where
  "type_error name = ErrorText (''json: cannot unmarshal into Go struct field '' @ name)"

fun put_string :: "string \<Rightarrow> string \<Rightarrow> json \<Rightarrow> go_error + string" where
  "put_string name old JNull = Inr old"
| "put_string name old (JStr s) = Inr s"
| "put_string name old _ = Inl (type_error name)"

fun put_bool :: "string \<Rightarrow> bool \<Rightarrow> json \<Rightarrow> go_error + bool" where
  "put_bool name old JNull = Inr old"
| "put_bool name old (JBool b) = Inr b"
| "put_bool name old _ = Inl (type_error name)"

fun put_int :: "string \<Rightarrow> int \<Rightarrow> json \<Rightarrow> go_error + int" where
  "put_int name old JNull = Inr old"
| "put_int name old (JInt i) = (if - (2 ^ 63) \<le> i \<and> i < 2 ^ 63 then Inr i else Inl (type_error name))"
| "put_int name old _ = Inl (type_error name)"

fun put_float :: "string \<Rightarrow> num64 \<Rightarrow> json \<Rightarrow> go_error + num64" where
  "put_float name old JNull = Inr old"
| "put_float name old (JInt i) = (case round64 (of_int i) of Some x \<Rightarrow> Inr x | None \<Rightarrow> Inl (type_error name))"
| "put_float name old (JDec r) = (case round64 r of Some x \<Rightarrow> Inr x | None \<Rightarrow> Inl (type_error name))"
| "put_float name old _ = Inl (type_error name)"

fun decode_field :: "('a \<Rightarrow> json \<Rightarrow> go_error + 'a) \<Rightarrow> 'a \<Rightarrow> json list \<Rightarrow> go_error + 'a" where
  "decode_field put old [] = Inr old"
| "decode_field put old (v # vs) =
     (case put old v of Inl err \<Rightarrow> Inl err | Inr x \<Rightarrow> decode_field put x vs)"

definition get_string :: "string \<Rightarrow> (string \<times> json) list \<Rightarrow> go_error + string" where
  "get_string name obj = decode_field (put_string name) [] (field_values name obj)"

definition get_bool :: "string \<Rightarrow> (string \<times> json) list \<Rightarrow> go_error + bool" where
  "get_bool name obj = decode_field (put_bool name) False (field_values name obj)"

definition get_int :: "string \<Rightarrow> (string \<times> json) list \<Rightarrow> go_error + int" where
  "get_int name obj = decode_field (put_int name) 0 (field_values name obj)"

definition get_float :: "string \<Rightarrow> (string \<times> json) list \<Rightarrow> go_error + num64" where
  "get_float name obj = decode_field (put_float name) 0 (field_values name obj)"

text \<open>A nested struct: the entries of all its values together, null adding none.\<close>

fun entries_of :: "string \<Rightarrow> json \<Rightarrow> go_error + (string \<times> json) list" where
  "entries_of name JNull = Inr []"
| "entries_of name (JObj kvs) = Inr kvs"
| "entries_of name _ = Inl (type_error name)"

fun get_struct_of :: "string \<Rightarrow> json list \<Rightarrow> go_error + (string \<times> json) list" where
  "get_struct_of name [] = Inr []"
| "get_struct_of name (v # vs) =
     (case entries_of name v of
        Inl err \<Rightarrow> Inl err
      | Inr kvs \<Rightarrow> (case get_struct_of name vs of Inl err \<Rightarrow> Inl err | Inr rest \<Rightarrow> Inr (kvs @ rest)))"

definition get_struct :: "string \<Rightarrow> (string \<times> json) list \<Rightarrow> go_error + (string \<times> json) list" where
  "get_struct name obj = get_struct_of name (field_values name obj)"

text \<open>Sequencing of decoders.\<close>

definition andThen :: "go_error + 'a \<Rightarrow> ('a \<Rightarrow> go_error + 'b) \<Rightarrow> go_error + 'b" where
  "andThen r f = (case r of Inl err \<Rightarrow> Inl err | Inr x \<Rightarrow> f x)"

lemma andThen_simps [simp]: "andThen (Inl err) f = Inl err" "andThen (Inr x) f = f x"
  by (simp_all add: andThen_def)

lemma andThen_Inr_iff: "andThen r f = Inr y \<longleftrightarrow> (\<exists>x. r = Inr x \<and> f x = Inr y)"
  by (cases r) auto

section \<open>Strings\<close>

text \<open>\<^verbatim>\<open>strings.Index\<close>: the first position of a substring, \<open>None\<close> for -1.\<close>

fun str_index :: "string \<Rightarrow> string \<Rightarrow> nat option" where
  "str_index s sub =
     (if take (length sub) s = sub then Some 0
      else case s of [] \<Rightarrow> None | c # cs \<Rightarrow> map_option Suc (str_index cs sub))"

declare str_index.simps [simp del]

lemma str_index_Some_iff:
  "str_index s sub = Some i \<longleftrightarrow>
     (\<exists>a b. s = a @ sub @ b \<and> length a = i) \<and> (\<forall>a b. s = a @ sub @ b \<longrightarrow> i \<le> length a)"
proof (induction s sub arbitrary: i rule: str_index.induct)
  case (1 s sub)
  show ?case
  proof (cases "take (length sub) s = sub")
    case True
    then have "s = [] @ sub @ drop (length sub) s" by (metis append_Nil append_take_drop_id)
    then have "(\<exists>a b. s = a @ sub @ b \<and> length a = i) \<and> (\<forall>a b. s = a @ sub @ b \<longrightarrow> i \<le> length a) \<longleftrightarrow> i = 0"
      by (metis le_zero_eq length_0_conv list.size(3) zero_le)
    with True show ?thesis by (subst str_index.simps) auto
  next
    case False
    then have n: "s \<noteq> sub @ b" for b by auto
    show ?thesis
    proof (cases s)
      case Nil
      with False n show ?thesis by (subst str_index.simps) auto
    next
      case (Cons c cs)
      have split: "s = a @ sub @ b \<longleftrightarrow> (\<exists>a'. a = c # a' \<and> cs = a' @ sub @ b)" for a b
        using n Cons by (cases a) auto
      have "str_index s sub = Some i \<longleftrightarrow> (\<exists>j. i = Suc j \<and> str_index cs sub = Some j)"
        using False Cons by (subst str_index.simps) auto
      also have "\<dots> \<longleftrightarrow> (\<exists>j. i = Suc j \<and> (\<exists>a b. cs = a @ sub @ b \<and> length a = j) \<and>
          (\<forall>a b. cs = a @ sub @ b \<longrightarrow> j \<le> length a))"
        using "1.IH" [OF False Cons] by simp
      also have "\<dots> \<longleftrightarrow> (\<exists>a b. s = a @ sub @ b \<and> length a = i) \<and> (\<forall>a b. s = a @ sub @ b \<longrightarrow> i \<le> length a)"
        unfolding split by fastforce
      finally show ?thesis .
    qed
  qed
qed

text \<open>The same by positions: a word occurs at \<open>j\<close> when it is what starts there.\<close>

definition occurs :: "string \<Rightarrow> string \<Rightarrow> nat \<Rightarrow> bool" where
  "occurs s sub j \<longleftrightarrow> j \<le> length s \<and> take (length sub) (drop j s) = sub"

lemma occurs_iff: "occurs s sub j \<longleftrightarrow> (\<exists>a b. s = a @ sub @ b \<and> length a = j)"
proof
  assume o: "occurs s sub j"
  then have "s = take j s @ sub @ drop (length sub) (drop j s)"
    unfolding occurs_def by (metis append_take_drop_id)
  moreover from o have "length (take j s) = j" by (simp add: occurs_def)
  ultimately show "\<exists>a b. s = a @ sub @ b \<and> length a = j" by blast
qed (auto simp: occurs_def)

lemma str_index_occurs:
  "str_index s sub = Some i \<longleftrightarrow> occurs s sub i \<and> (\<forall>j < i. \<not> occurs s sub j)"
  unfolding str_index_Some_iff occurs_iff by (metis linorder_not_less)

lemma occurs_nth:
  assumes "occurs s sub j" and "k < length sub"
  shows "j + k < length s \<and> s ! (j + k) = sub ! k"
proof -
  from assms(1) obtain a b where "s = a @ sub @ b" "length a = j" unfolding occurs_iff by blast
  with assms(2) show ?thesis by (auto simp: nth_append)
qed

lemma occurs_prefix:
  "j + length sub \<le> length s \<Longrightarrow> occurs (s @ t) sub j \<longleftrightarrow> occurs s sub j"
  by (simp add: occurs_def)

section \<open>Sorting a slice\<close>

text \<open>
  \<^verbatim>\<open>sort.Slice\<close> is not stable, so of its result is known that it is a rearrangement in which no later
  element is less than an earlier one.
\<close>

definition sorts :: "('a \<Rightarrow> 'a \<Rightarrow> bool) \<Rightarrow> ('a list \<Rightarrow> 'a list) \<Rightarrow> bool" where
  "sorts lt f \<longleftrightarrow> (\<forall>xs. mset (f xs) = mset xs \<and> sorted_wrt (\<lambda>a b. \<not> lt b a) (f xs))"

text \<open>An instance: insertion sort.\<close>

fun insert_by :: "('a \<Rightarrow> 'a \<Rightarrow> bool) \<Rightarrow> 'a \<Rightarrow> 'a list \<Rightarrow> 'a list" where
  "insert_by lt x [] = [x]"
| "insert_by lt x (y # ys) = (if lt y x then y # insert_by lt x ys else x # y # ys)"

definition sort_by :: "('a \<Rightarrow> 'a \<Rightarrow> bool) \<Rightarrow> 'a list \<Rightarrow> 'a list" where
  "sort_by lt xs = foldr (insert_by lt) xs []"

lemma mset_insert_by: "mset (insert_by lt x xs) = add_mset x (mset xs)"
  by (induction xs) auto

lemma set_insert_by: "set (insert_by lt x xs) = insert x (set xs)"
  using mset_insert_by [of lt x xs] by (metis set_mset_add_mset_insert set_mset_mset)

lemma sorted_insert_by:
  assumes "\<And>a b c. \<not> lt a b \<Longrightarrow> \<not> lt b c \<Longrightarrow> \<not> lt a c" and "\<And>a b. lt a b \<Longrightarrow> \<not> lt b a"
    and "sorted_wrt (\<lambda>a b. \<not> lt b a) xs"
  shows "sorted_wrt (\<lambda>a b. \<not> lt b a) (insert_by lt x xs)"
  using assms(3)
proof (induction xs)
  case (Cons y ys)
  show ?case
  proof (cases "lt y x")
    case True
    with Cons assms(2) [OF True] show ?thesis by (simp add: set_insert_by)
  next
    case False
    have "\<not> lt z x" if "z \<in> set ys" for z
      using assms(1) [of z y x] False that Cons.prems by simp
    with False Cons.prems show ?thesis by simp
  qed
qed simp

lemma sort_by_sorts:
  assumes "\<And>a b c. \<not> lt a b \<Longrightarrow> \<not> lt b c \<Longrightarrow> \<not> lt a c" and "\<And>a b. lt a b \<Longrightarrow> \<not> lt b a"
  shows "sorts lt (sort_by lt)"
proof -
  have "mset (sort_by lt xs) = mset xs \<and> sorted_wrt (\<lambda>a b. \<not> lt b a) (sort_by lt xs)" for xs
  proof (induction xs)
    case (Cons x xs)
    have "sorted_wrt (\<lambda>a b. \<not> lt b a) (insert_by lt x (sort_by lt xs))"
      using Cons by (intro sorted_insert_by [of lt, OF assms]) auto
    with Cons show ?case by (simp add: sort_by_def mset_insert_by)
  qed (simp add: sort_by_def)
  then show ?thesis by (simp add: sorts_def)
qed

end
