(* ===== verification/Report.thy ===== *)
theory Report
  imports Json
begin

text \<open>
  \<^verbatim>\<open>internal/report/data.go\<close> and \<^verbatim>\<open>headlines.go\<close>: the loader that turns the result files of a
  benchmark run into a \<open>Report\<close>, and the headline numbers computed from it.

  The file system is an argument: what \<^verbatim>\<open>os.ReadDir\<close> and \<^verbatim>\<open>os.ReadFile\<close> return.  So is the syntax
  analysis of JSON text, \<open>parse\<close>; the decoding of a parsed value into the code's structs is that of
  the theory Json.  The two calls of \<^verbatim>\<open>sort.Slice\<close> are arguments as well, since ties may come out in any order.
\<close>

section \<open>Data\<close>

record SweepPoint =
  sp_Phase :: string
  sp_Concurrency :: int
  sp_Sink :: string
  sp_RealInfra :: bool
  sp_Throughput :: num64
  sp_P50 :: num64
  sp_P95 :: num64
  sp_P99 :: num64
  sp_Max :: num64
  sp_SourceFile :: string

record LossTest =
  lt_Produced :: int
  lt_Consumed :: int
  lt_Pass :: bool

record DedupTest =
  dt_DistinctKeys :: int
  dt_RowCount :: int
  dt_Pass :: bool

record DLQTest =
  qt_MalformedInjected :: int
  qt_DLQCountObserved :: int
  qt_ValidConsumedAfter :: int
  qt_Pass :: bool

record Backpressure =
  bp_BaselineRSSBytes :: num64
  bp_PeakRSSBytes :: num64
  bp_GrowthRatio :: string
  bp_PeakQueueDepth :: num64
  bp_Pass :: bool

record ScalingPoint =
  sc_Replicas :: int
  sc_Throughput :: num64

record Scaling =
  Blocked :: bool
  BlockedInfo :: string
  FreeDiskMB :: int
  RequiredMB :: int
  Points :: "ScalingPoint list"

record Report =
  Sweeps :: "SweepPoint list"
  rLossTest :: "LossTest option"
  rDedup :: "DedupTest option"
  rDLQ :: "DLQTest option"
  rBackpressure :: "Backpressure option"
  rScaling :: "Scaling option"
  rMachineTag :: string

definition empty_report :: Report where
  "empty_report = \<lparr>Sweeps = [], rLossTest = None, rDedup = None, rDLQ = None, rBackpressure = None,
     rScaling = None, rMachineTag = []\<rparr>"

section \<open>File names\<close>

definition matchPrefix :: "string \<Rightarrow> string \<Rightarrow> bool" where
  "matchPrefix s prefix \<longleftrightarrow> length s \<ge> length prefix \<and> take (length prefix) s = prefix"

definition matchSuffix :: "string \<Rightarrow> string \<Rightarrow> bool" where
  "matchSuffix s suffix \<longleftrightarrow> length s \<ge> length suffix \<and> drop (length s - length suffix) s = suffix"

definition strip_prefix :: "string \<Rightarrow> string \<Rightarrow> string option" where
  "strip_prefix prefix s = (if matchPrefix s prefix then Some (drop (length prefix) s) else None)"

text \<open>A group \<^verbatim>\<open>(\d+)\<close> followed by something that is not a digit.\<close>

definition re_number :: "string \<Rightarrow> (string \<times> string) option" where
  "re_number s =
     (let d = takeWhile is_digit s in if d = [] then None else Some (d, dropWhile is_digit s))"

text \<open>The common end of the two patterns, \<^verbatim>\<open>_\d{8}T\d{6}Z\.json$\<close>.\<close>

definition re_stamp :: "string \<Rightarrow> bool" where
  "re_stamp s \<longleftrightarrow>
     length s = 22 \<and> take 1 s = ''_'' \<and> list_all is_digit (take 8 (drop 1 s)) \<and> take 1 (drop 9 s) = ''T'' \<and>
     list_all is_digit (take 6 (drop 10 s)) \<and> drop 16 s = ''Z.json''"

text \<open>\<^verbatim>\<open>sweepFileRe\<close> with its two groups and \<^verbatim>\<open>scalingRealFileRe\<close> with its one.\<close>

definition sweepFileRe :: "string \<Rightarrow> (string \<times> string) option" where
  "sweepFileRe name =
     Option.bind (strip_prefix ''phase'' name) (\<lambda>s1.
     Option.bind (re_number s1) (\<lambda>(phase, s2).
     Option.bind (strip_prefix ''_c'' s2) (\<lambda>s3.
     Option.bind (re_number s3) (\<lambda>(conc, s4).
       if re_stamp s4 then Some (phase, conc) else None))))"

definition scalingRealFileRe :: "string \<Rightarrow> string option" where
  "scalingRealFileRe name =
     Option.bind (strip_prefix ''phase4_scaling_r'' name) (\<lambda>s1.
     Option.bind (re_number s1) (\<lambda>(r, s2). if re_stamp s2 then Some r else None))"

text \<open>\<^verbatim>\<open>strconv.Atoi\<close> on a digit string, its error ignored: the largest int when out of range.\<close>

definition atoi_digits :: "string \<Rightarrow> int" where
  "atoi_digits s = min (int (nat_of_dec s)) (2 ^ 63 - 1)"

section \<open>Paths\<close>

fun clean_step :: "bool \<Rightarrow> string list \<Rightarrow> string \<Rightarrow> string list" where
  "clean_step rooted acc w =
     (if w = '''' \<or> w = ''.'' then acc
      else if w = ''..'' then
        (if acc \<noteq> [] \<and> last acc \<noteq> ''..'' then butlast acc else if rooted then acc else acc @ [w])
      else acc @ [w])"

definition join_with :: "string \<Rightarrow> string list \<Rightarrow> string" where
  "join_with sep ws = (case ws of [] \<Rightarrow> [] | v # vs \<Rightarrow> v @ concat (map (\<lambda>w. sep @ w) vs))"

text \<open>\<^verbatim>\<open>filepath.Join\<close> of a directory and a name: joined and cleaned.\<close>

definition clean_path :: "string \<Rightarrow> string" where
  "clean_path p =
     (let rooted = (p \<noteq> [] \<and> hd p = CHR ''/'');
          body = join_with ''/'' (foldl (clean_step rooted) [] (split_on (CHR ''/'') p))
      in if rooted then CHR ''/'' # body else if body = [] then ''.'' else body)"

definition join_path :: "string \<Rightarrow> string \<Rightarrow> string" where
  "join_path dir name =
     (let ws = filter (\<lambda>w. w \<noteq> []) [dir, name] in if ws = [] then [] else clean_path (join_with ''/'' ws))"

section \<open>Reading a file\<close>

record dir_entry =
  de_Name :: string
  de_IsDir :: bool
  de_content :: "go_error + bytes"

text \<open>\<^verbatim>\<open>readJSON\<close> into a struct whose fields \<open>decode\<close> reads off the entries of the object.\<close>

definition readJSON ::
  "(bytes \<Rightarrow> go_error + json) \<Rightarrow> string \<Rightarrow> go_error + bytes \<Rightarrow>
     ((string \<times> json) list \<Rightarrow> go_error + 'a) \<Rightarrow> go_error + 'a" where
  "readJSON parse path content decode =
     (case content of
        Inl err \<Rightarrow> Inl (Wrapped (''read '' @ path @ '': '') err)
      | Inr b \<Rightarrow>
          (case andThen (andThen (parse b) (entries_of ''value'')) decode of
             Inl err \<Rightarrow> Inl (Wrapped (''parse '' @ path @ '': '') err)
           | Inr x \<Rightarrow> Inr x))"

record sweepFileShape =
  sf_MachineTag :: string
  sf_Sink :: string
  sf_Concurrency :: int
  sf_Throughput :: num64
  sf_P50 :: num64
  sf_P95 :: num64
  sf_P99 :: num64
  sf_Max :: num64

definition decode_sweep :: "(string \<times> json) list \<Rightarrow> go_error + sweepFileShape" where
  "decode_sweep obj =
     andThen (get_struct ''environment'' obj) (\<lambda>env.
     andThen (get_string ''machine_tag'' env) (\<lambda>tag.
     andThen (get_struct ''config'' obj) (\<lambda>cfg.
     andThen (get_string ''sink'' cfg) (\<lambda>snk.
     andThen (get_int ''concurrency'' cfg) (\<lambda>conc.
     andThen (get_struct ''results'' obj) (\<lambda>res.
     andThen (get_float ''throughput_events_per_sec'' res) (\<lambda>thr.
     andThen (get_struct ''latency_ms'' res) (\<lambda>lat.
     andThen (get_float ''p50'' lat) (\<lambda>p50.
     andThen (get_float ''p95'' lat) (\<lambda>p95.
     andThen (get_float ''p99'' lat) (\<lambda>p99.
     andThen (get_float ''max'' lat) (\<lambda>mx.
       Inr \<lparr>sf_MachineTag = tag, sf_Sink = snk, sf_Concurrency = conc, sf_Throughput = thr,
         sf_P50 = p50, sf_P95 = p95, sf_P99 = p99, sf_Max = mx\<rparr>))))))))))))"

definition decode_losstest :: "(string \<times> json) list \<Rightarrow> go_error + LossTest \<times> string" where
  "decode_losstest obj =
     andThen (get_int ''produced'' obj) (\<lambda>produced.
     andThen (get_int ''consumed'' obj) (\<lambda>consumed.
     andThen (get_bool ''pass'' obj) (\<lambda>pass.
     andThen (get_string ''machine_tag'' obj) (\<lambda>tag.
       Inr (\<lparr>lt_Produced = produced, lt_Consumed = consumed, lt_Pass = pass\<rparr>, tag)))))"

definition decode_correctness :: "(string \<times> json) list \<Rightarrow> go_error + DedupTest \<times> DLQTest \<times> string" where
  "decode_correctness obj =
     andThen (get_struct ''dedup_test'' obj) (\<lambda>dd.
     andThen (get_int ''distinct_keys'' dd) (\<lambda>keys.
     andThen (get_int ''row_count'' dd) (\<lambda>rows.
     andThen (get_bool ''pass'' dd) (\<lambda>dpass.
     andThen (get_struct ''dlq_test'' obj) (\<lambda>dl.
     andThen (get_int ''malformed_injected'' dl) (\<lambda>inj.
     andThen (get_int ''dlq_count_observed'' dl) (\<lambda>obs.
     andThen (get_int ''valid_events_consumed_after_injection'' dl) (\<lambda>valid.
     andThen (get_bool ''pass'' dl) (\<lambda>qpass.
     andThen (get_string ''machine_tag'' obj) (\<lambda>tag.
       Inr (\<lparr>dt_DistinctKeys = keys, dt_RowCount = rows, dt_Pass = dpass\<rparr>,
         \<lparr>qt_MalformedInjected = inj, qt_DLQCountObserved = obs, qt_ValidConsumedAfter = valid, qt_Pass = qpass\<rparr>,
         tag)))))))))))"

definition decode_backpressure :: "(string \<times> json) list \<Rightarrow> go_error + Backpressure \<times> string" where
  "decode_backpressure obj =
     andThen (get_float ''baseline_rss_bytes'' obj) (\<lambda>base.
     andThen (get_float ''peak_rss_bytes'' obj) (\<lambda>peak.
     andThen (get_string ''rss_growth_ratio'' obj) (\<lambda>ratio.
     andThen (get_float ''peak_queue_depth'' obj) (\<lambda>depth.
     andThen (get_bool ''pass'' obj) (\<lambda>pass.
     andThen (get_string ''machine_tag'' obj) (\<lambda>tag.
       Inr (\<lparr>bp_BaselineRSSBytes = base, bp_PeakRSSBytes = peak, bp_GrowthRatio = ratio,
         bp_PeakQueueDepth = depth, bp_Pass = pass\<rparr>, tag)))))))"

definition decode_blocked :: "(string \<times> json) list \<Rightarrow> go_error + Scaling \<times> string" where
  "decode_blocked obj =
     andThen (get_string ''status'' obj) (\<lambda>status.
     andThen (get_string ''reason'' obj) (\<lambda>reason.
     andThen (get_int ''free_disk_mb'' obj) (\<lambda>free.
     andThen (get_int ''required_disk_mb'' obj) (\<lambda>required.
     andThen (get_string ''machine_tag'' obj) (\<lambda>tag.
       Inr (\<lparr>Blocked = True, BlockedInfo = reason, FreeDiskMB = free, RequiredMB = required, Points = []\<rparr>, tag))))))"

section \<open>Load\<close>

text \<open>\<^verbatim>\<open>if rep.MachineTag == "" { rep.MachineTag = tag }\<close>\<close>

definition set_tag :: "string \<Rightarrow> Report \<Rightarrow> Report" where
  "set_tag tag rep = (if rMachineTag rep = [] then rep\<lparr>rMachineTag := tag\<rparr> else rep)"

definition sweep_point :: "string \<Rightarrow> string \<Rightarrow> sweepFileShape \<Rightarrow> SweepPoint" where
  "sweep_point name phase shape =
     \<lparr>sp_Phase = ''phase'' @ phase, sp_Concurrency = sf_Concurrency shape, sp_Sink = sf_Sink shape,
      sp_RealInfra = (sf_Sink shape \<noteq> ''memory''), sp_Throughput = sf_Throughput shape,
      sp_P50 = sf_P50 shape, sp_P95 = sf_P95 shape, sp_P99 = sf_P99 shape, sp_Max = sf_Max shape,
      sp_SourceFile = name\<rparr>"

definition add_scaling_point :: "int \<Rightarrow> num64 \<Rightarrow> Report \<Rightarrow> Report" where
  "add_scaling_point replicas thr rep =
     (let sc = (case rScaling rep of
          None \<Rightarrow> \<lparr>Blocked = False, BlockedInfo = [], FreeDiskMB = 0, RequiredMB = 0, Points = []\<rparr>
        | Some sc \<Rightarrow> sc)
      in rep\<lparr>rScaling := Some (sc\<lparr>Points := Points sc @ [\<lparr>sc_Replicas = replicas, sc_Throughput = thr\<rparr>]\<rparr>)\<rparr>)"

text \<open>One entry of the directory: the cases of the switch in their order.\<close>

definition load_entry ::
  "(bytes \<Rightarrow> go_error + json) \<Rightarrow> string \<Rightarrow> dir_entry \<Rightarrow> Report \<times> bool \<Rightarrow> go_error + Report \<times> bool" where
  "load_entry parse dir e st =
     (case st of (rep, saw) \<Rightarrow>
      (let name = de_Name e; path = join_path dir name in
       if de_IsDir e then Inr (rep, saw)
       else case sweepFileRe name of
         Some (phase, _) \<Rightarrow>
           andThen (readJSON parse path (de_content e) decode_sweep) (\<lambda>shape.
             Inr (set_tag (sf_MachineTag shape) (rep\<lparr>Sweeps := Sweeps rep @ [sweep_point name phase shape]\<rparr>), True))
       | None \<Rightarrow>
         if matchPrefix name ''phase1_losstest_'' then
           andThen (readJSON parse path (de_content e) decode_losstest) (\<lambda>(x, tag).
             Inr (set_tag tag (rep\<lparr>rLossTest := Some x\<rparr>), saw))
         else if matchPrefix name ''phase2_correctness_'' then
           andThen (readJSON parse path (de_content e) decode_correctness) (\<lambda>(x, y, tag).
             Inr (set_tag tag (rep\<lparr>rDedup := Some x, rDLQ := Some y\<rparr>), saw))
         else if matchPrefix name ''phase3_backpressure_'' \<and> \<not> matchPrefix name ''phase3_backpressure_load_'' then
           andThen (readJSON parse path (de_content e) decode_backpressure) (\<lambda>(x, tag).
             Inr (set_tag tag (rep\<lparr>rBackpressure := Some x\<rparr>), saw))
         else if matchPrefix name ''phase4_scaling_'' \<and> matchSuffix name ''_BLOCKED.json'' then
           andThen (readJSON parse path (de_content e) decode_blocked) (\<lambda>(x, tag).
             Inr (set_tag tag (rep\<lparr>rScaling := Some x\<rparr>), saw))
         else case scalingRealFileRe name of
           Some r \<Rightarrow>
             andThen (readJSON parse path (de_content e) decode_sweep) (\<lambda>shape.
               Inr (add_scaling_point (atoi_digits r) (sf_Throughput shape) rep, saw))
         | None \<Rightarrow> Inr (rep, saw)))"

fun load_entries ::
  "(bytes \<Rightarrow> go_error + json) \<Rightarrow> string \<Rightarrow> dir_entry list \<Rightarrow> Report \<times> bool \<Rightarrow> go_error + Report \<times> bool" where
  "load_entries parse dir [] st = Inr st"
| "load_entries parse dir (e # es) st =
     (case load_entry parse dir e st of Inl err \<Rightarrow> Inl err | Inr st' \<Rightarrow> load_entries parse dir es st')"

definition sweep_less :: "SweepPoint \<Rightarrow> SweepPoint \<Rightarrow> bool" where
  "sweep_less a b \<longleftrightarrow>
     (if sp_Phase a \<noteq> sp_Phase b then sp_Phase a < sp_Phase b else sp_Concurrency a < sp_Concurrency b)"

definition scaling_less :: "ScalingPoint \<Rightarrow> ScalingPoint \<Rightarrow> bool" where
  "scaling_less a b \<longleftrightarrow> sc_Replicas a < sc_Replicas b"

definition no_sweeps :: "string \<Rightarrow> go_error" where
  "no_sweeps dir = ErrorText (''no phase0 sweep results found in '' @ dir @
     ''; refusing to render a results table from nothing - run scripts/run_phase0.sh first'')"

definition Load ::
  "(SweepPoint list \<Rightarrow> SweepPoint list) \<Rightarrow> (ScalingPoint list \<Rightarrow> ScalingPoint list) \<Rightarrow>
     (bytes \<Rightarrow> go_error + json) \<Rightarrow> string \<Rightarrow> go_error + dir_entry list \<Rightarrow> go_error + Report" where
  "Load sortSweeps sortPoints parse dir readDir =
     (case readDir of
        Inl err \<Rightarrow> Inl (Wrapped (''read results dir '' @ dir @ '': '') err)
      | Inr entries \<Rightarrow>
          (case load_entries parse dir entries (empty_report, False) of
             Inl err \<Rightarrow> Inl err
           | Inr (rep, saw) \<Rightarrow>
               if \<not> saw then Inl (no_sweeps dir)
               else Inr (rep\<lparr>Sweeps := sortSweeps (Sweeps rep),
                 rScaling := map_option (\<lambda>sc. sc\<lparr>Points := sortPoints (Points sc)\<rparr>) (rScaling rep)\<rparr>)))"

section \<open>Headlines\<close>

record Headlines =
  hPeak :: num64
  hPeakPhase :: string
  hPeakConcurrency :: int
  hP99AtPeak :: num64
  hRealPeak :: num64
  hRealPeakPhase :: string
  hRealPeakConcurrency :: int
  hRealP99AtPeak :: num64
  hZeroLoss :: bool
  hDedup :: bool
  hScalingFactor :: string
  hMachineTag :: string

definition headline_step :: "SweepPoint \<Rightarrow> Headlines \<Rightarrow> Headlines" where
  "headline_step s h =
     (let h1 = (if sp_Throughput s > hPeak h
          then h\<lparr>hPeak := sp_Throughput s, hPeakPhase := sp_Phase s, hPeakConcurrency := sp_Concurrency s,
                 hP99AtPeak := sp_P99 s\<rparr> else h)
      in if sp_RealInfra s \<and> sp_Throughput s > hRealPeak h1
         then h1\<lparr>hRealPeak := sp_Throughput s, hRealPeakPhase := sp_Phase s,
                 hRealPeakConcurrency := sp_Concurrency s, hRealP99AtPeak := sp_P99 s\<rparr> else h1)"

text \<open>\<^verbatim>\<open>fmt.Sprintf("%.2fx (%d -> %d replicas)", ...)\<close>, with the quotient as a float64.\<close>

definition scaling_text :: "ScalingPoint \<Rightarrow> ScalingPoint \<Rightarrow> string" where
  "scaling_text a z =
     (case round64 (sc_Throughput z / sc_Throughput a) of None \<Rightarrow> if sc_Throughput z < 0 then ''-Inf'' else ''+Inf''
      | Some q \<Rightarrow> fixed 2 q) @ ''x ('' @
     dec_of_int (sc_Replicas a) @ '' -> '' @ dec_of_int (sc_Replicas z) @ '' replicas)''"

definition report_Headlines :: "Report \<Rightarrow> Headlines" where
  "report_Headlines r =
     (let h0 = \<lparr>hPeak = 0, hPeakPhase = [], hPeakConcurrency = 0, hP99AtPeak = 0,
            hRealPeak = 0, hRealPeakPhase = [], hRealPeakConcurrency = 0, hRealP99AtPeak = 0,
            hZeroLoss = False, hDedup = False, hScalingFactor = [], hMachineTag = rMachineTag r\<rparr>;
          h1 = fold headline_step (Sweeps r) h0;
          h2 = (case rLossTest r of None \<Rightarrow> h1
                | Some t \<Rightarrow> h1\<lparr>hZeroLoss := (lt_Pass t \<and> lt_Produced t = lt_Consumed t)\<rparr>);
          h3 = (case rDedup r of None \<Rightarrow> h2 | Some d \<Rightarrow> h2\<lparr>hDedup := dt_Pass d\<rparr>)
      in case rScaling r of
           None \<Rightarrow> h3
         | Some sc \<Rightarrow>
             if \<not> Blocked sc \<and> length (Points sc) \<ge> 2 then
               (let a = hd (Points sc); z = last (Points sc)
                in if sc_Throughput a > 0 then h3\<lparr>hScalingFactor := scaling_text a z\<rparr> else h3)
             else if Blocked sc then
               h3\<lparr>hScalingFactor := ''not measured on this machine (BLOCKED - see RUN_STATUS.md)''\<rparr>
             else h3)"

end
