(* ===== verification/Report_Output.thy ===== *)
theory Report_Output
  imports Report "HOL-Library.Word"
begin

unbundle bit_operations_syntax

text \<open>
  \<^verbatim>\<open>internal/report/table.go\<close> and \<^verbatim>\<open>charts.go\<close>: the Markdown table that is put between two markers of
  the README, and the charts.  Plotting and writing PNG files is done by a third-party package;
  here a chart is the data handed to it, and the calls that can fail are arguments.
\<close>

section \<open>The table\<close>

definition MarkerBegin :: string where
  "MarkerBegin = ''<!-- RESULTS:BEGIN -->''"

definition MarkerEnd :: string where
  "MarkerEnd = ''<!-- RESULTS:END -->''"

text \<open>A line feed, and the em dash of the source in UTF-8.\<close>

definition nl :: string where
  "nl = [CHR 10]"

definition em_dash :: string where
  "em_dash = [CHR 226, CHR 128, CHR 148]"

definition passFail :: "bool \<Rightarrow> string" where
  "passFail pass = (if pass then ''PASS'' else ''FAIL'')"

definition formatFloat :: "num64 \<Rightarrow> string" where
  "formatFloat f = fixed 1 f"

definition format_bool :: "bool \<Rightarrow> string" where
  "format_bool b = (if b then ''true'' else ''false'')"

definition render_sweep :: "SweepPoint \<Rightarrow> string" where
  "render_sweep s =
     ''| '' @ sp_Phase s @ '' | '' @ sp_Sink s @ '' | '' @ format_bool (sp_RealInfra s) @ '' | '' @
     dec_of_int (sp_Concurrency s) @ '' | '' @ formatFloat (sp_Throughput s) @ '' | '' @
     formatFloat (sp_P50 s) @ '' | '' @ formatFloat (sp_P95 s) @ '' | '' @ formatFloat (sp_P99 s) @ '' |'' @ nl"

definition render_correctness :: "Report \<Rightarrow> string" where
  "render_correctness rep =
     (case rLossTest rep of
        Some t \<Rightarrow> ''| Kafka loss test (broker restart mid-produce) | '' @ passFail (lt_Pass t) @ '' (produced='' @
          dec_of_int (lt_Produced t) @ '', consumed='' @ dec_of_int (lt_Consumed t) @ '') |'' @ nl
      | None \<Rightarrow> ''| Kafka loss test | '' @ em_dash @ '' |'' @ nl) @
     (case rDedup rep of
        Some t \<Rightarrow> ''| Redis dedup (replay a batch twice) | '' @ passFail (dt_Pass t) @ '' (distinct_keys='' @
          dec_of_int (dt_DistinctKeys t) @ '', row_count='' @ dec_of_int (dt_RowCount t) @ '') |'' @ nl
      | None \<Rightarrow> ''| Redis dedup | '' @ em_dash @ '' |'' @ nl) @
     (case rDLQ rep of
        Some t \<Rightarrow> ''| DLQ (malformed records + pipeline keeps flowing) | '' @ passFail (qt_Pass t) @ '' (injected='' @
          dec_of_int (qt_MalformedInjected t) @ '', in_dlq='' @ dec_of_int (qt_DLQCountObserved t) @
          '', valid_consumed_after='' @ dec_of_int (qt_ValidConsumedAfter t) @ '') |'' @ nl
      | None \<Rightarrow> ''| DLQ | '' @ em_dash @ '' |'' @ nl) @
     (case rBackpressure rep of
        Some t \<Rightarrow> ''| Backpressure proof (RSS stays bounded under overload) | '' @ passFail (bp_Pass t) @ '' (ratio='' @
          bp_GrowthRatio t @ '', peak_queue_depth='' @ formatFloat (bp_PeakQueueDepth t) @ '') |'' @ nl
      | None \<Rightarrow> ''| Backpressure proof | '' @ em_dash @ '' |'' @ nl)"

definition scaling_header :: string where
  "scaling_header = ''| Replicas | Throughput (events/sec) |'' @ nl @ ''|---|---|'' @ nl"

definition render_scaling :: "Report \<Rightarrow> string" where
  "render_scaling rep =
     (case rScaling rep of
        None \<Rightarrow> scaling_header @ ''| '' @ em_dash @ '' | '' @ em_dash @ '' |'' @ nl
      | Some sc \<Rightarrow>
          if Blocked sc then
            ''BLOCKED: '' @ BlockedInfo sc @ '' ('' @ dec_of_int (FreeDiskMB sc) @ ''MB free, '' @
            dec_of_int (RequiredMB sc) @
            ''MB required). See RUN_STATUS.md for the exact commands to run this on a machine with more disk.'' @ nl @ nl @
            scaling_header @ ''| 1 | '' @ em_dash @ '' |'' @ nl @ ''| 2 | '' @ em_dash @ '' |'' @ nl @
            ''| 4 | '' @ em_dash @ '' |'' @ nl
          else scaling_header @
            concat (map (\<lambda>p. ''| '' @ dec_of_int (sc_Replicas p) @ '' | '' @ formatFloat (sc_Throughput p) @ '' |'' @ nl)
              (Points sc)))"

text \<open>What \<^verbatim>\<open>RenderMarkdown\<close> writes between the two markers, and with them.\<close>

definition render_body :: "Report \<Rightarrow> string" where
  "render_body rep =
     nl @ nl @ ''Machine: '' @ rMachineTag rep @ nl @ nl @
     ''### Ingest sweep (concurrency {8, 32, 128})'' @ nl @ nl @
     ''| Phase | Sink | Real Infra | Concurrency | Throughput (events/sec) | p50 (ms) | p95 (ms) | p99 (ms) |'' @ nl @
     ''|---|---|---|---|---|---|---|---|'' @ nl @
     concat (map render_sweep (Sweeps rep)) @ nl @
     ''### Correctness'' @ nl @ nl @ ''| Test | Result |'' @ nl @ ''|---|---|'' @ nl @
     render_correctness rep @ nl @
     ''### Kubernetes replica scaling'' @ nl @ nl @
     render_scaling rep @ nl"

definition RenderMarkdown :: "Report \<Rightarrow> string" where
  "RenderMarkdown rep = MarkerBegin @ render_body rep @ MarkerEnd"

definition marker_error :: go_error where
  "marker_error = ErrorText (''could not find \"'' @ MarkerBegin @ ''\" / \"'' @ MarkerEnd @ ''\" markers in target file'')"

definition ReplaceBetweenMarkers :: "string \<Rightarrow> string \<Rightarrow> go_error + string" where
  "ReplaceBetweenMarkers original replacement =
     (case (str_index original MarkerBegin, str_index original MarkerEnd) of
        (Some b, Some e) \<Rightarrow>
          if e < b then Inl marker_error
          else Inr (take b original @ replacement @ drop (e + length MarkerEnd) original)
      | _ \<Rightarrow> Inl marker_error)"

section \<open>Charts\<close>

type_synonym u8 = "8 word"
type_synonym u32 = "32 word"

record colorRGBA =
  colR :: u8
  colG :: u8
  colB :: u8
  colA :: u8

text \<open>The palette has five colours and the index wraps; it is never negative where it is called.\<close>

definition palette :: "colorRGBA list" where
  "palette =
     [\<lparr>colR = 31, colG = 119, colB = 180, colA = 255\<rparr>, \<lparr>colR = 255, colG = 127, colB = 14, colA = 255\<rparr>,
      \<lparr>colR = 44, colG = 160, colB = 44, colA = 255\<rparr>, \<lparr>colR = 214, colG = 39, colB = 40, colA = 255\<rparr>,
      \<lparr>colR = 148, colG = 103, colB = 189, colA = 255\<rparr>]"

definition paletteColor :: "nat \<Rightarrow> colorRGBA" where
  "paletteColor i = palette ! (i mod length palette)"

definition toU32 :: "u8 \<Rightarrow> u32" where
  "toU32 v = (let u = ucast v in u OR push_bit 8 u)"

definition colorRGBA_RGBA :: "colorRGBA \<Rightarrow> u32 \<times> u32 \<times> u32 \<times> u32" where
  "colorRGBA_RGBA c = (toU32 (colR c), toU32 (colG c), toU32 (colB c), toU32 (colA c))"

record chart =
  ch_Title :: string
  ch_XLabel :: string
  ch_YLabel :: string
  ch_LogY :: bool
  ch_Lines :: "(string option \<times> colorRGBA \<times> (num64 \<times> num64) list) list"
  ch_LegendTop :: bool

text \<open>
  \<open>newLine\<close> is the error of \<^verbatim>\<open>plotter.NewLine\<close> on the points of a line, \<open>mkdir\<close> that of \<^verbatim>\<open>os.MkdirAll\<close> and
  \<open>save\<close> that of \<^verbatim>\<open>p.Save\<close>.
\<close>

record plot_env =
  newLine :: "(num64 \<times> num64) list \<Rightarrow> go_error option"
  mkdir :: "string \<Rightarrow> go_error option"
  save :: "chart \<Rightarrow> string \<Rightarrow> go_error option"

definition savePNG :: "plot_env \<Rightarrow> chart \<Rightarrow> string \<Rightarrow> string \<Rightarrow> go_error + string" where
  "savePNG env p outDir filename =
     (case mkdir env outDir of
        Some err \<Rightarrow> Inl err
      | None \<Rightarrow>
          (let path = join_path outDir filename
           in case save env p path of Some err \<Rightarrow> Inl err | None \<Rightarrow> Inr path))"

definition distinct_step :: "SweepPoint \<Rightarrow> string list \<Rightarrow> string list" where
  "distinct_step s phases = (if sp_Phase s \<in> set phases then phases else phases @ [sp_Phase s])"

definition distinctPhases :: "SweepPoint list \<Rightarrow> string list" where
  "distinctPhases sweeps = sort (fold distinct_step sweeps [])"

fun add_lines ::
  "plot_env \<Rightarrow> nat \<Rightarrow> (string option \<times> (num64 \<times> num64) list) list \<Rightarrow> chart \<Rightarrow> go_error + chart" where
  "add_lines env i [] p = Inr p"
| "add_lines env i ((label, pts) # rest) p =
     (case newLine env pts of
        Some err \<Rightarrow> Inl err
      | None \<Rightarrow> add_lines env (Suc i) rest (p\<lparr>ch_Lines := ch_Lines p @ [(label, paletteColor i, pts)]\<rparr>))"

definition phase_points ::
  "((num64 \<times> num64) list \<Rightarrow> (num64 \<times> num64) list) \<Rightarrow> Report \<Rightarrow> string \<Rightarrow> (num64 \<times> num64) list" where
  "phase_points sortXY rep phase =
     sortXY (map (\<lambda>s. (float_of_int (sp_Concurrency s), sp_Throughput s)) (filter (\<lambda>s. sp_Phase s = phase) (Sweeps rep)))"

definition ThroughputVsConcurrency ::
  "((num64 \<times> num64) list \<Rightarrow> (num64 \<times> num64) list) \<Rightarrow> plot_env \<Rightarrow> Report \<Rightarrow> string \<Rightarrow> go_error + string" where
  "ThroughputVsConcurrency sortXY env rep outDir =
     (if length (Sweeps rep) = 0 then Inl (ErrorText ''no sweep data to chart'')
      else andThen
        (add_lines env 0 (map (\<lambda>phase. (Some phase, phase_points sortXY rep phase)) (distinctPhases (Sweeps rep)))
          \<lparr>ch_Title = ''Throughput vs Concurrency'', ch_XLabel = ''Concurrency'',
           ch_YLabel = ''Events/sec (log scale)'', ch_LogY = True, ch_Lines = [], ch_LegendTop = False\<rparr>)
        (\<lambda>p. savePNG env (p\<lparr>ch_LegendTop := True\<rparr>) outDir ''throughput-vs-concurrency.png''))"

definition latency_series :: "(string \<times> (SweepPoint \<Rightarrow> num64)) list" where
  "latency_series = [(''p50'', sp_P50), (''p95'', sp_P95), (''p99'', sp_P99)]"

definition LatencyPercentiles ::
  "(SweepPoint list \<Rightarrow> SweepPoint list) \<Rightarrow> plot_env \<Rightarrow> Report \<Rightarrow> string \<Rightarrow> string \<Rightarrow> go_error + string" where
  "LatencyPercentiles sortConc env rep phase outDir =
     (let sel = filter (\<lambda>s. sp_Phase s = phase) (Sweeps rep)
      in if length sel = 0 then Inl (ErrorText (''no sweep data for phase '' @ phase @ '' to chart''))
         else (let pts = sortConc sel
               in andThen
                 (add_lines env 0
                   (map (\<lambda>(name, get). (Some name, map (\<lambda>s. (float_of_int (sp_Concurrency s), get s)) pts)) latency_series)
                   \<lparr>ch_Title = ''Latency Percentiles ('' @ phase @ '')'', ch_XLabel = ''Concurrency'',
                    ch_YLabel = ''Latency (ms)'', ch_LogY = False, ch_Lines = [], ch_LegendTop = False\<rparr>)
                 (\<lambda>p. savePNG env (p\<lparr>ch_LegendTop := True\<rparr>) outDir ''latency-percentiles.png'')))"

definition ThroughputVsReplicas :: "plot_env \<Rightarrow> Report \<Rightarrow> string \<Rightarrow> go_error + string" where
  "ThroughputVsReplicas env rep outDir =
     (let none = Inl (ErrorText ''no valid (non-blocked) phase4 scaling data to chart'')
      in case rScaling rep of
           None \<Rightarrow> none
         | Some sc \<Rightarrow>
             if Blocked sc \<or> length (Points sc) = 0 then none
             else andThen
               (add_lines env 0 [(None, map (\<lambda>sp. (float_of_int (sc_Replicas sp), sc_Throughput sp)) (Points sc))]
                 \<lparr>ch_Title = ''Throughput vs Consumer Replicas'', ch_XLabel = ''Consumer Replicas'',
                  ch_YLabel = ''Events/sec'', ch_LogY = False, ch_Lines = [], ch_LegendTop = False\<rparr>)
               (\<lambda>p. savePNG env p outDir ''throughput-vs-replicas.png''))"

end
