(* ===== verification/Bench.thy ===== *)
theory Bench
  imports Json Sink "HOL-Library.Signed_Division"
begin

text \<open>
  The benchmark side: \<^verbatim>\<open>internal/loadgen\<close>, \<^verbatim>\<open>internal/hdr\<close>, \<^verbatim>\<open>internal/results\<close>, \<^verbatim>\<open>internal/benchmeta\<close> and
  the loops of \<^verbatim>\<open>cmd/topiccount\<close> and \<^verbatim>\<open>cmd/injectmalformed\<close>.  The histogram package is an
  argument (\<open>'h\<close>); so are the answers of the gateway and of Kafka.  A negative concurrency or batch size, on
  which Go's \<^verbatim>\<open>make\<close> panics, is outside the model.
\<close>

section \<open>Histograms\<close>

record 'h hdr_lib =
  hdr_new :: "int \<Rightarrow> int \<Rightarrow> int \<Rightarrow> 'h"
  hdr_merge :: "'h \<Rightarrow> 'h \<Rightarrow> 'h"
  hdr_record :: "'h \<Rightarrow> int \<Rightarrow> 'h"
  hdr_valueAtQuantile :: "'h \<Rightarrow> nat \<Rightarrow> int"
  hdr_max :: "'h \<Rightarrow> int"

definition hdr_New :: "'h hdr_lib \<Rightarrow> 'h" where
  "hdr_New L = hdr_new L 1 60000000000 3"

definition hdr_Merge :: "'h hdr_lib \<Rightarrow> 'h option list \<Rightarrow> 'h" where
  "hdr_Merge L hists = fold (\<lambda>h merged. case h of None \<Rightarrow> merged | Some x \<Rightarrow> hdr_merge L merged x) hists (hdr_New L)"

record Percentiles =
  P50Ms :: num64
  P95Ms :: num64
  P99Ms :: num64
  MaxMs :: num64

definition toMs :: "int \<Rightarrow> num64" where
  "toMs ns = div64 (float_of_int ns) 1000000"

definition ComputePercentiles :: "'h hdr_lib \<Rightarrow> 'h \<Rightarrow> Percentiles" where
  "ComputePercentiles L h =
     \<lparr>P50Ms = toMs (hdr_valueAtQuantile L h 50), P95Ms = toMs (hdr_valueAtQuantile L h 95),
      P99Ms = toMs (hdr_valueAtQuantile L h 99), MaxMs = toMs (hdr_max L h)\<rparr>"

section \<open>The load generator\<close>

record loadgen_Config =
  lg_Target :: string
  lg_Duration :: int
  lg_Warmup :: int
  lg_Concurrency :: int
  lg_BatchSize :: int
  lg_Devices :: int
  lg_RateHz :: int

record loadgen_Result =
  EventsAccepted :: u64
  EventsRejected :: u64
  Errors :: u64
  WindowSeconds :: num64
  ThroughputEventsPerSec :: "num64 option"
  Latency :: Percentiles

text \<open>
  The event with sequence number \<open>seq\<close> of the goroutine \<open>gid\<close>; \<open>float_bits\<close> is the bit pattern of a small
  float64, which is only copied.
\<close>

definition gen_event :: "(nat \<Rightarrow> float64) \<Rightarrow> loadgen_Config \<Rightarrow> nat \<Rightarrow> i64 \<Rightarrow> u64 \<Rightarrow> TelemetryEvent" where
  "gen_event float_bits cfg gid now seq =
     \<lparr>pb_DeviceId = ''device-'' @ dec_of_nat (unat (seq mod of_int (max (lg_Devices cfg) 1))),
      pb_IdempotencyKey = ''g'' @ dec_of_nat gid @ ''-'' @ dec_of_nat (unat seq),
      pb_EventTimeUnixNanos = now, pb_Metric = ''cpu.util'', pb_Value = float_bits (unat (seq mod 100))\<rparr>"

text \<open>The loop that fills a request: \<open>n\<close> more events after \<open>seq\<close>.\<close>

fun gen_batch ::
  "(nat \<Rightarrow> float64) \<Rightarrow> loadgen_Config \<Rightarrow> nat \<Rightarrow> i64 \<Rightarrow> nat \<Rightarrow> u64 \<Rightarrow> u64 \<times> TelemetryEvent option list" where
  "gen_batch fb cfg gid now 0 seq = (seq, [])"
| "gen_batch fb cfg gid now (Suc n) seq =
     (case gen_batch fb cfg gid now n (seq + 1) of
        (seq', evs) \<Rightarrow> (seq', Some (gen_event fb cfg gid now (seq + 1)) # evs))"

text \<open>
  One goroutine: its sequence number, its histogram, and the shared counters.  A turn of its loop
  meets the clock, the answer of \<^verbatim>\<open>client.Push\<close>, the time the call took and whether the
  warm-up was over when it returned.
\<close>

record 'h lg_state =
  lg_seq :: u64
  lg_hist :: 'h
  lg_accepted :: u64
  lg_rejected :: u64
  lg_errs :: u64
  lg_pushed :: "IngestRequest list"

record lg_turn =
  tu_now :: i64
  tu_answer :: "IngestRequest \<Rightarrow> go_error + IngestResponse"
  tu_elapsed :: int
  tu_recording :: bool

definition loadgen_turn ::
  "'h hdr_lib \<Rightarrow> (nat \<Rightarrow> float64) \<Rightarrow> loadgen_Config \<Rightarrow> nat \<Rightarrow> lg_turn \<Rightarrow> 'h lg_state \<Rightarrow> 'h lg_state" where
  "loadgen_turn L fb cfg gid t s =
     (case gen_batch fb cfg gid (tu_now t) (nat (lg_BatchSize cfg)) (lg_seq s) of
        (seq', evs) \<Rightarrow>
          (let req = \<lparr>Events = evs\<rparr>; s1 = s\<lparr>lg_seq := seq', lg_pushed := lg_pushed s @ [req]\<rparr>
           in case tu_answer t req of
                Inl err \<Rightarrow> s1\<lparr>lg_errs := lg_errs s1 + 1\<rparr>
              | Inr resp \<Rightarrow>
                  (let s2 = s1\<lparr>lg_accepted := lg_accepted s1 + GetAccepted (Some resp),
                               lg_rejected := lg_rejected s1 + GetRejected (Some resp)\<rparr>
                   in if tu_recording t then s2\<lparr>lg_hist := hdr_record L (lg_hist s2) (tu_elapsed t)\<rparr> else s2)))"

text \<open>The goroutine until \<^verbatim>\<open>runCtx\<close> is done, which ends it before a turn.\<close>

definition loadgen_goroutine ::
  "'h hdr_lib \<Rightarrow> (nat \<Rightarrow> float64) \<Rightarrow> loadgen_Config \<Rightarrow> nat \<Rightarrow> lg_turn list \<Rightarrow> 'h lg_state" where
  "loadgen_goroutine L fb cfg gid turns =
     fold (loadgen_turn L fb cfg gid) turns
       \<lparr>lg_seq = 0, lg_hist = hdr_New L, lg_accepted = 0, lg_rejected = 0, lg_errs = 0, lg_pushed = []\<rparr>"

text \<open>The tick interval in nanoseconds of a goroutine when a rate is asked for.\<close>

definition loadgen_interval :: "loadgen_Config \<Rightarrow> int option" where
  "loadgen_interval cfg =
     (if lg_RateHz cfg > 0
      then (let hz0 = div64 (float_of_int (lg_RateHz cfg)) (float_of_int (lg_Concurrency cfg));
                hz = (if hz0 \<le> 0 then 1 else hz0)
            in Some \<lfloor>div64 1000000000 hz\<rfloor>)
      else None)"

text \<open>\<^verbatim>\<open>Duration.Seconds()\<close> of a duration in nanoseconds.\<close>

definition seconds :: "int \<Rightarrow> num64" where
  "seconds d =
     (case round64 (float_of_int (d sdiv 1000000000) + div64 (float_of_int (d smod 1000000000)) 1000000000) of
        Some x \<Rightarrow> x | None \<Rightarrow> 0)"

text \<open>
  \<^verbatim>\<open>Run\<close> after the dial: the results of the goroutines are added up and their histograms merged.  A throughput
  that is not finite (a window of zero length) is \<open>None\<close>.
\<close>

definition loadgen_Run ::
  "'h hdr_lib \<Rightarrow> (nat \<Rightarrow> float64) \<Rightarrow> (string \<Rightarrow> go_error option) \<Rightarrow> loadgen_Config \<Rightarrow> (nat \<Rightarrow> lg_turn list) \<Rightarrow>
     go_error + loadgen_Result" where
  "loadgen_Run L fb dial cfg turns =
     (case dial (lg_Target cfg) of
        Some err \<Rightarrow> Inl (Wrapped (''dial '' @ lg_Target cfg @ '': '') err)
      | None \<Rightarrow>
          (let gs = map (\<lambda>gid. loadgen_goroutine L fb cfg gid (turns gid)) [0..<nat (lg_Concurrency cfg)];
               acc = sum_list (map lg_accepted gs);
               win = seconds (lg_Duration cfg)
           in Inr \<lparr>EventsAccepted = acc, EventsRejected = sum_list (map lg_rejected gs),
                Errors = sum_list (map lg_errs gs), WindowSeconds = win,
                ThroughputEventsPerSec = (if win = 0 then None else round64 (float_of_int (uint acc) / win)),
                Latency = ComputePercentiles L (hdr_Merge L (map (\<lambda>g. Some (lg_hist g)) gs))\<rparr>))"

section \<open>Result files\<close>

record LatencyMs =
  lm_P50 :: num64
  lm_P95 :: num64
  lm_P99 :: num64
  lm_Max :: num64

definition LatencyFromPercentiles :: "Percentiles \<Rightarrow> LatencyMs" where
  "LatencyFromPercentiles p = \<lparr>lm_P50 = P50Ms p, lm_P95 = P95Ms p, lm_P99 = P99Ms p, lm_Max = MaxMs p\<rparr>"

text \<open>A UTC time, and its format \<^verbatim>\<open>20060102T150405Z\<close>.\<close>

record utc =
  year :: nat
  month :: nat
  day :: nat
  hour :: nat
  minute :: nat
  second :: nat

definition pad :: "nat \<Rightarrow> nat \<Rightarrow> string" where
  "pad w n = replicate (w - length (dec_of_nat n)) (CHR ''0'') @ dec_of_nat n"

definition format_stamp :: "utc \<Rightarrow> string" where
  "format_stamp t =
     pad 4 (year t) @ pad 2 (month t) @ pad 2 (day t) @ ''T'' @
     pad 2 (hour t) @ pad 2 (minute t) @ pad 2 (second t) @ ''Z''"

text \<open>The name \<^verbatim>\<open>WriteJSON\<close> gives a file, and the writing itself with the errors of the calls it makes.\<close>

definition result_name :: "string \<Rightarrow> utc \<Rightarrow> string" where
  "result_name prefix t = prefix @ ''_'' @ format_stamp t @ ''.json''"

definition WriteJSON ::
  "go_error option \<Rightarrow> go_error + bytes \<Rightarrow> (string \<Rightarrow> bytes \<Rightarrow> go_error option) \<Rightarrow> (string \<Rightarrow> string \<Rightarrow> string) \<Rightarrow>
     string \<Rightarrow> string \<Rightarrow> utc \<Rightarrow> go_error + string" where
  "WriteJSON mkdirErr marshalled writeFile join dir prefix now =
     (case mkdirErr of
        Some err \<Rightarrow> Inl err
      | None \<Rightarrow>
          (let path = join dir (result_name prefix now)
           in case marshalled of
                Inl err \<Rightarrow> Inl err
              | Inr b \<Rightarrow> (case writeFile path b of Some err \<Rightarrow> Inl err | None \<Rightarrow> Inr path)))"

text \<open>\<^verbatim>\<open>benchmeta.CurrentEnvironment\<close>: the Go runtime's description of itself and the clock are arguments.\<close>

definition MachineTag :: string where
  "MachineTag = ''Intel MacBook Pro, quad-core i5-1038NG7 (8 threads), 16GB RAM, Ubuntu 20.04, native Docker''"

record Environment =
  be_GoVersion :: string
  be_GOMAXPROCS :: int
  be_OS :: string
  be_Arch :: string
  be_RealInfra :: bool
  be_MachineTag :: string
  be_Timestamp :: string

definition CurrentEnvironment :: "string \<times> int \<times> string \<times> string \<Rightarrow> string \<Rightarrow> bool \<Rightarrow> Environment" where
  "CurrentEnvironment runtime rfc3339 realInfra =
     (case runtime of (version, maxprocs, os, arch) \<Rightarrow>
       \<lparr>be_GoVersion = version, be_GOMAXPROCS = maxprocs, be_OS = os, be_Arch = arch, be_RealInfra = realInfra,
        be_MachineTag = MachineTag, be_Timestamp = rfc3339\<rparr>)"

record Phase0Config =
  pc_Target :: string
  pc_Sink :: string
  pc_Workers :: int
  pc_Queue :: int
  pc_Duration :: string
  pc_Warmup :: string
  pc_Concurrency :: int
  pc_BatchSize :: int
  pc_Devices :: int
  pc_RateHz :: int

record Phase0Results =
  pr_EventsAccepted :: u64
  pr_EventsRejected :: u64
  pr_Errors :: u64
  pr_WindowSeconds :: num64
  pr_Throughput :: "num64 option"
  pr_LatencyMs :: LatencyMs

record Phase0File =
  pf_Phase :: string
  pf_Environment :: Environment
  pf_Config :: Phase0Config
  pf_Results :: Phase0Results

text \<open>
  \<^verbatim>\<open>cmd/loadgen\<close>: the file written for a result; \<open>durText\<close> is \<^verbatim>\<open>Duration.String\<close>.
\<close>

record loadgen_labels =
  ll_prefix :: string
  ll_sinkLabel :: string
  ll_realInfra :: bool
  ll_gatewayWorkers :: int
  ll_gatewayQueue :: int

definition result_file ::
  "(int \<Rightarrow> string) \<Rightarrow> Environment \<Rightarrow> loadgen_labels \<Rightarrow> loadgen_Config \<Rightarrow> loadgen_Result \<Rightarrow> Phase0File" where
  "result_file durText env l cfg res =
     \<lparr>pf_Phase = ll_prefix l, pf_Environment = env,
      pf_Config = \<lparr>pc_Target = lg_Target cfg, pc_Sink = ll_sinkLabel l, pc_Workers = ll_gatewayWorkers l,
        pc_Queue = ll_gatewayQueue l, pc_Duration = durText (lg_Duration cfg), pc_Warmup = durText (lg_Warmup cfg),
        pc_Concurrency = lg_Concurrency cfg, pc_BatchSize = lg_BatchSize cfg, pc_Devices = lg_Devices cfg,
        pc_RateHz = lg_RateHz cfg\<rparr>,
      pf_Results = \<lparr>pr_EventsAccepted = EventsAccepted res, pr_EventsRejected = EventsRejected res,
        pr_Errors = Errors res, pr_WindowSeconds = WindowSeconds res,
        pr_Throughput = ThroughputEventsPerSec res, pr_LatencyMs = LatencyFromPercentiles (Latency res)\<rparr>\<rparr>"

definition loadgen_main ::
  "(loadgen_Config \<Rightarrow> go_error + loadgen_Result) \<Rightarrow> (int \<Rightarrow> string) \<Rightarrow> Environment \<Rightarrow> loadgen_labels \<Rightarrow>
     loadgen_Config \<Rightarrow> (string \<Rightarrow> Phase0File \<Rightarrow> go_error + string) \<Rightarrow> string + string" where
  "loadgen_main run durText env l cfg writeJSON =
     (case run cfg of
        Inl err \<Rightarrow> Inl (''loadgen run: '' @ Error err)
      | Inr res \<Rightarrow>
          (case writeJSON (ll_prefix l) (result_file durText env l cfg res) of
             Inl err \<Rightarrow> Inl (''write results: '' @ Error err)
           | Inr path \<Rightarrow> Inr path))"

section \<open>Counting and injecting\<close>

text \<open>\<^verbatim>\<open>cmd/topiccount\<close>: polls until one is empty; \<open>None\<close> when that has not happened after \<open>fuel\<close> polls.\<close>

fun topiccount :: "('c \<Rightarrow> 'c \<times> nat) \<Rightarrow> nat \<Rightarrow> 'c \<Rightarrow> nat \<Rightarrow> nat option" where
  "topiccount poll 0 c seen = None"
| "topiccount poll (Suc fuel) c seen =
     (case poll c of (c', n) \<Rightarrow> if n = 0 then Some seen else topiccount poll fuel c' (seen + n))"

definition garbage :: bytes where
  "garbage = [CHR 0xFF, CHR 0xFF, CHR 0xFF, CHR 0x00, CHR 0x01, CHR 0x02, CHR 0x9F]"

definition malformed_record :: "string \<Rightarrow> Record" where
  "malformed_record topic =
     \<lparr>Topic = topic, Partition = 0, Offset = 0, Key = ''malformed'', RecValue = garbage, Headers = []\<rparr>"

text \<open>\<^verbatim>\<open>cmd/injectmalformed\<close>: the first failed produce ends the program with its index.\<close>

fun inject :: "'k produce \<Rightarrow> string \<Rightarrow> nat \<Rightarrow> nat \<Rightarrow> 'k \<Rightarrow> 'k \<times> (nat \<times> go_error) option" where
  "inject produce topic i 0 k = (k, None)"
| "inject produce topic i (Suc n) k =
     (case produce k (malformed_record topic) of
        (k', Some err) \<Rightarrow> (k', Some (i, err))
      | (k', None) \<Rightarrow> inject produce topic (Suc i) n k')"

end
