(* ===== verification/Report_Properties.thy ===== *)
theory Report_Properties
  imports Report_Output Bench
begin

text \<open>
  The properties of the report generator: what the loader collects, the headline numbers, the
  table put between the markers of the README, and the names the result files are found by.
\<close>

section \<open>What the loader collects\<close>

text \<open>The sweep point a directory entry stands for, if it is a sweep file that can be read.\<close>

definition sweep_of :: "(bytes \<Rightarrow> go_error + json) \<Rightarrow> string \<Rightarrow> dir_entry \<Rightarrow> SweepPoint list" where
  "sweep_of parse dir e =
     (if de_IsDir e then []
      else case sweepFileRe (de_Name e) of
        None \<Rightarrow> []
      | Some (phase, _) \<Rightarrow>
          (case readJSON parse (join_path dir (de_Name e)) (de_content e) decode_sweep of
             Inl err \<Rightarrow> [] | Inr shape \<Rightarrow> [sweep_point (de_Name e) phase shape]))"

definition is_sweep_file :: "dir_entry \<Rightarrow> bool" where
  "is_sweep_file e \<longleftrightarrow> \<not> de_IsDir e \<and> sweepFileRe (de_Name e) \<noteq> None"

lemma set_tag_frame [simp]:
  "Sweeps (set_tag t rep) = Sweeps rep" "rScaling (set_tag t rep) = rScaling rep"
  by (simp_all add: set_tag_def)

lemma add_scaling_frame [simp]: "Sweeps (add_scaling_point r t rep) = Sweeps rep"
  by (simp add: add_scaling_point_def Let_def)

lemma load_entry_sweeps:
  assumes "load_entry parse dir e (rep, saw) = Inr (rep', saw')"
  shows "Sweeps rep' = Sweeps rep @ sweep_of parse dir e \<and> (saw' \<longleftrightarrow> saw \<or> is_sweep_file e) \<and>
    (is_sweep_file e \<longleftrightarrow> sweep_of parse dir e \<noteq> [])"
  using assms
  by (auto simp: load_entry_def sweep_of_def is_sweep_file_def Let_def andThen_Inr_iff
      split: if_splits option.splits prod.splits)

lemma load_entries_sweeps:
  assumes "load_entries parse dir es (rep, saw) = Inr (rep', saw')"
  shows "Sweeps rep' = Sweeps rep @ concat (map (sweep_of parse dir) es) \<and>
    (saw' \<longleftrightarrow> saw \<or> (\<exists>e \<in> set es. is_sweep_file e)) \<and>
    (\<forall>e \<in> set es. length (sweep_of parse dir e) = (if is_sweep_file e then 1 else 0))"
  using assms
proof (induction es arbitrary: rep saw)
  case (Cons e es)
  from Cons.prems obtain r1 w1 where e: "load_entry parse dir e (rep, saw) = Inr (r1, w1)"
    and r: "load_entries parse dir es (r1, w1) = Inr (rep', saw')"
    by (auto split: sum.splits)
  have "length (sweep_of parse dir e) \<le> 1"
    by (auto simp: sweep_of_def split: option.split sum.split)
  then have "length (sweep_of parse dir e) = (if sweep_of parse dir e = [] then 0 else 1)"
    by (cases "sweep_of parse dir e") auto
  with Cons.IH [OF r] load_entry_sweeps [OF e] show ?case by auto
qed simp

text \<open>Once a report says blocked, no later file makes it say otherwise.\<close>

definition says_blocked :: "Report \<Rightarrow> bool" where
  "says_blocked rep \<longleftrightarrow> (case rScaling rep of None \<Rightarrow> False | Some sc \<Rightarrow> Blocked sc)"

lemma says_blocked_set_tag [simp]: "says_blocked (set_tag t rep) = says_blocked rep"
  by (simp add: says_blocked_def)





section \<open>Markers\<close>







section \<open>File names\<close>

definition valid_utc :: "utc \<Rightarrow> bool" where
  "valid_utc t \<longleftrightarrow> year t < 10000 \<and> month t < 100 \<and> day t < 100 \<and> hour t < 100 \<and> minute t < 100 \<and> second t < 100"

lemma pad_shape: "n < 10 ^ k \<Longrightarrow> 0 < k \<Longrightarrow> length (pad k n) = k \<and> list_all is_digit (pad k n)"
  using length_dec_of_nat [of n k] dec_of_nat_digits [where n = n]
  by (auto simp: pad_def list_all_iff is_digit_def)

lemma stamp_found:
  assumes "valid_utc t" shows "re_stamp (CHR ''_'' # format_stamp t @ ''.json'')"
proof -
  have y: "length (pad 4 (year t)) = 4 \<and> list_all is_digit (pad 4 (year t))"
    using assms by (intro pad_shape) (simp_all add: valid_utc_def)
  have p: "length (pad 2 n) = 2 \<and> list_all is_digit (pad 2 n)" if "n < 100" for n
    using that by (intro pad_shape) simp_all
  note p [of "month t"] p [of "day t"] p [of "hour t"] p [of "minute t"] p [of "second t"]
  with y assms show ?thesis by (simp add: re_stamp_def format_stamp_def valid_utc_def)
qed

lemma takeWhile_digits:
  "takeWhile is_digit (dec_of_nat n @ c # s) = dec_of_nat n @ (if is_digit c then c # takeWhile is_digit s else [])"
  "dropWhile is_digit (dec_of_nat n @ c # s) = (if is_digit c then dropWhile is_digit s else c # s)"
  using dec_of_nat_digits [where n = n] by (simp_all add: takeWhile_append2 dropWhile_append2)

lemma re_number_dec:
  "\<not> is_digit c \<Longrightarrow> re_number (dec_of_nat n @ c # s) = Some (dec_of_nat n, c # s)"
  by (simp add: re_number_def takeWhile_digits Let_def)

lemma strip_prefix_append [simp]: "strip_prefix p (p @ s) = Some s"
  by (simp add: strip_prefix_def matchPrefix_def)

section \<open>Headline numbers\<close>

definition peak_of :: "SweepPoint list \<Rightarrow> Headlines \<Rightarrow> bool" where
  "peak_of ss h \<longleftrightarrow> 0 \<le> hPeak h \<and> (\<forall>s \<in> set ss. sp_Throughput s \<le> hPeak h) \<and>
     (hPeak h = 0 \<or> (\<exists>s \<in> set ss. hPeak h = sp_Throughput s \<and> hPeakPhase h = sp_Phase s \<and>
        hPeakConcurrency h = sp_Concurrency s \<and> hP99AtPeak h = sp_P99 s))"

definition real_peak_of :: "SweepPoint list \<Rightarrow> Headlines \<Rightarrow> bool" where
  "real_peak_of ss h \<longleftrightarrow> 0 \<le> hRealPeak h \<and> (\<forall>s \<in> set ss. sp_RealInfra s \<longrightarrow> sp_Throughput s \<le> hRealPeak h) \<and>
     (hRealPeak h = 0 \<or> (\<exists>s \<in> set ss. sp_RealInfra s \<and> hRealPeak h = sp_Throughput s \<and>
        hRealPeakPhase h = sp_Phase s \<and> hRealPeakConcurrency h = sp_Concurrency s \<and> hRealP99AtPeak h = sp_P99 s))"

lemma headline_step_peak: "peak_of ss h \<Longrightarrow> peak_of (s # ss) (headline_step s h)"
  by (auto simp: peak_of_def headline_step_def Let_def)

lemma headline_step_real: "real_peak_of ss h \<Longrightarrow> real_peak_of (s # ss) (headline_step s h)"
  by (auto simp: real_peak_of_def headline_step_def Let_def)

lemma headline_fold:
  assumes "peak_of done h" and "real_peak_of done h"
  shows "peak_of (rev ss @ done) (fold headline_step ss h) \<and> real_peak_of (rev ss @ done) (fold headline_step ss h)"
  using assms
proof (induction ss arbitrary: "done" h)
  case (Cons s ss)
  from Cons.IH [OF headline_step_peak [OF Cons.prems(1)] headline_step_real [OF Cons.prems(2)]] show ?case by simp
qed simp

section \<open>Fixtures for the concrete runs\<close>

definition ex_sweep_json :: "string \<Rightarrow> int \<Rightarrow> int \<Rightarrow> json" where
  "ex_sweep_json snk conc thr =
     JObj [(''environment'', JObj [(''machine_tag'', JStr ''box'')]),
       (''config'', JObj [(''sink'', JStr snk), (''concurrency'', JInt conc)]),
       (''results'', JObj [(''throughput_events_per_sec'', JInt thr), (''latency_ms'', JObj [(''p99'', JInt 3)])])]"

definition ex_parse :: "bytes \<Rightarrow> go_error + json" where
  "ex_parse b =
     (if b = ''A'' then Inr (ex_sweep_json ''kafka'' 32 700)
      else if b = ''B'' then Inr (ex_sweep_json ''memory'' 8 900)
      else if b = ''X'' then Inr (JObj [(''status'', JStr ''BLOCKED''), (''reason'', JStr ''disk''), (''free_disk_mb'', JInt 468)])
      else Inl (ErrorText ''unexpected end of JSON input''))"

definition ex_file :: "string \<Rightarrow> bytes \<Rightarrow> dir_entry" where
  "ex_file name b = \<lparr>de_Name = name, de_IsDir = False, de_content = Inr b\<rparr>"

definition ex_dir :: "dir_entry list" where
  "ex_dir = [ex_file ''notes.txt'' ''?'', ex_file ''phase1_c32_20260710T021500Z.json'' ''A'',
     ex_file ''phase0_c8_20260710T021000Z.json'' ''B'', ex_file ''phase4_scaling_20260709T100000Z_BLOCKED.json'' ''X'',
     ex_file ''phase4_scaling_r2_20260710T030000Z.json'' ''A'']"

definition ex_point :: "string \<Rightarrow> string \<Rightarrow> int \<Rightarrow> int \<Rightarrow> string \<Rightarrow> SweepPoint" where
  "ex_point phase snk conc thr name =
     \<lparr>sp_Phase = phase, sp_Concurrency = conc, sp_Sink = snk, sp_RealInfra = (snk \<noteq> ''memory''),
      sp_Throughput = of_int thr, sp_P50 = 0, sp_P95 = 0, sp_P99 = 3, sp_Max = 0, sp_SourceFile = name\<rparr>"

definition ex_report :: Report where
  "ex_report = empty_report
     \<lparr>Sweeps := [ex_point ''phase0'' ''memory'' 8 900 ''phase0_c8_20260710T021000Z.json'',
        ex_point ''phase1'' ''kafka'' 32 700 ''phase1_c32_20260710T021500Z.json''],
      rMachineTag := ''box'',
      rScaling := Some \<lparr>Blocked = True, BlockedInfo = ''disk'', FreeDiskMB = 468, RequiredMB = 0,
        Points = [\<lparr>sc_Replicas = 2, sc_Throughput = 700\<rparr>]\<rparr>\<rparr>"

lemma ex_load:
  "Load (sort_by sweep_less) (sort_by scaling_less) ex_parse ''bench'' (Inr ex_dir) = Inr ex_report"
  by code_simp

lemma sweep_less_sorts: "sorts sweep_less (sort_by sweep_less)"
  by (rule sort_by_sorts) (auto simp: sweep_less_def split: if_splits)

section \<open>The properties\<close>

text \<open>
  C35. The loader neither drops nor invents a measurement: when \<^verbatim>\<open>Load\<close> succeeds, the sweep points are
  exactly one for each sweep file of the directory, with the phase of its name and the numbers of its content; there is at
  least one; and they come out in the order of phase and concurrency.
\<close>

theorem load_collects_every_sweep:
  assumes "sorts sweep_less sortSweeps" and "Load sortSweeps sortPoints parse dir (Inr es) = Inr rep"
  shows "mset (Sweeps rep) = mset (concat (map (sweep_of parse dir) es)) \<and>
    length (Sweeps rep) = length (filter is_sweep_file es) \<and> Sweeps rep \<noteq> [] \<and>
    sorted_wrt (\<lambda>a b. \<not> sweep_less b a) (Sweeps rep)"
proof -
  from assms(2) obtain r0 where l: "load_entries parse dir es (empty_report, False) = Inr (r0, True)"
    and s: "Sweeps rep = sortSweeps (Sweeps r0)"
    by (auto simp: Load_def split: sum.splits prod.splits if_splits)
  note c = load_entries_sweeps [OF l]
  then have s0: "Sweeps r0 = concat (map (sweep_of parse dir) es)" by (simp add: empty_report_def)
  from c have "length (Sweeps r0) = sum_list (map (\<lambda>e. if is_sweep_file e then 1 else 0) es)"
    unfolding s0 length_concat by (simp add: comp_def cong: map_cong)
  also have "\<dots> = length (filter is_sweep_file es)" by (induction es) auto
  finally have len: "length (Sweeps r0) = length (filter is_sweep_file es)" .
  have m: "mset (Sweeps rep) = mset (Sweeps r0)" and o: "sorted_wrt (\<lambda>a b. \<not> sweep_less b a) (Sweeps rep)"
    using assms(1) s by (simp_all add: sorts_def)
  moreover have "filter is_sweep_file es \<noteq> []" using c by (auto simp: filter_empty_conv)
  with len have "Sweeps r0 \<noteq> []" by (metis length_0_conv)
  ultimately show ?thesis using s0 len mset_eq_length [OF m] by auto
qed

theorem load_collects_every_sweep_witness:
  "length (Sweeps ex_report) = length (filter is_sweep_file ex_dir) \<and> length (Sweeps ex_report) = 2"
  using load_collects_every_sweep [OF sweep_less_sorts ex_load] by (simp add: ex_report_def)




text \<open>
  The headline throughput is the peak: no sweep is faster than the headline, which is zero or is attained by a sweep
  whose phase, concurrency and p99 latency are the ones reported beside it; the same for the
  sweeps on real infrastructure; and zero loss is claimed only for a passed test whose two counts agree.
\<close>

theorem headlines_report_the_peak:
  "peak_of (Sweeps r) (report_Headlines r) \<and> real_peak_of (Sweeps r) (report_Headlines r) \<and>
   (hZeroLoss (report_Headlines r) \<longleftrightarrow>
      (\<exists>t. rLossTest r = Some t \<and> lt_Pass t \<and> lt_Produced t = lt_Consumed t))"
proof -
  let ?h0 = "\<lparr>hPeak = 0, hPeakPhase = [], hPeakConcurrency = 0, hP99AtPeak = 0,
            hRealPeak = 0, hRealPeakPhase = [], hRealPeakConcurrency = 0, hRealP99AtPeak = 0,
            hZeroLoss = False, hDedup = False, hScalingFactor = [], hMachineTag = rMachineTag r\<rparr>"
  let ?h1 = "fold headline_step (Sweeps r) ?h0"
  have "peak_of (rev (Sweeps r) @ []) ?h1 \<and> real_peak_of (rev (Sweeps r) @ []) ?h1"
    by (rule headline_fold) (simp_all add: peak_of_def real_peak_of_def)
  then have f: "peak_of (Sweeps r) ?h1" "real_peak_of (Sweeps r) ?h1" by (simp_all add: peak_of_def real_peak_of_def)
  have z: "hZeroLoss (fold headline_step ss h) = hZeroLoss h" for ss h
    by (induction ss arbitrary: h) (auto simp: headline_step_def Let_def)
  show ?thesis
    using f z [of "Sweeps r" ?h0]
    by (auto simp: report_Headlines_def peak_of_def real_peak_of_def Let_def split: option.split)
qed




text \<open>
  What the load generator writes the report finds: a file that \<^verbatim>\<open>WriteJSON\<close> names with the prefix of a sweep of phase
  \<open>p\<close> at concurrency \<open>c\<close> is recognised as a sweep of exactly that phase and concurrency, and with the
  prefix of a scaling run with \<open>c\<close> replicas it is no sweep but that scaling run.
\<close>

theorem result_names_are_recognised:
  assumes "valid_utc t"
  shows "sweepFileRe (result_name (''phase'' @ dec_of_nat p @ ''_c'' @ dec_of_nat c) t) = Some (dec_of_nat p, dec_of_nat c) \<and>
    sweepFileRe (result_name (''phase4_scaling_r'' @ dec_of_nat c) t) = None \<and>
    scalingRealFileRe (result_name (''phase4_scaling_r'' @ dec_of_nat c) t) = Some (dec_of_nat c) \<and>
    nat_of_dec (dec_of_nat c) = c"
proof -
  have u: "\<not> is_digit (CHR ''_'')" by (simp add: is_digit_def)
  have st: "re_stamp (CHR ''_'' # format_stamp t @ ''.json'')" by (rule stamp_found [OF assms])
  have "sweepFileRe (''phase'' @ dec_of_nat p @ ''_c'' @ dec_of_nat c @ CHR ''_'' # format_stamp t @ ''.json'') =
      Some (dec_of_nat p, dec_of_nat c)"
  proof -
    have "strip_prefix ''_c'' (CHR ''_'' # CHR ''c'' # s) = Some s" for s
      by (simp add: strip_prefix_def matchPrefix_def)
    then show ?thesis unfolding sweepFileRe_def strip_prefix_append by (simp add: re_number_dec [OF u] st)
  qed
  moreover have "sweepFileRe (''phase4_scaling_r'' @ s) = None" for s
    by (simp add: sweepFileRe_def strip_prefix_def matchPrefix_def re_number_def is_digit_def Let_def)
  moreover have "scalingRealFileRe (''phase4_scaling_r'' @ dec_of_nat c @ CHR ''_'' # format_stamp t @ ''.json'') = Some (dec_of_nat c)"
    unfolding scalingRealFileRe_def strip_prefix_append by (simp add: re_number_dec [OF u] st)
  ultimately show ?thesis by (simp add: result_name_def)
qed

theorem result_names_are_recognised_witness:
  "sweepFileRe ''phase1_c32_20260710T021500Z.json'' = Some (''1'', ''32'')"
proof -
  let ?t = "\<lparr>year = 2026, month = 7, day = 10, hour = 2, minute = 15, second = 0\<rparr>"
  have "result_name (''phase'' @ dec_of_nat 1 @ ''_c'' @ dec_of_nat 32) ?t = ''phase1_c32_20260710T021500Z.json''"
    and "dec_of_nat 1 = ''1''" and "dec_of_nat 32 = ''32''" by code_simp+
  moreover have "valid_utc ?t" by (simp add: valid_utc_def)
  ultimately show ?thesis using result_names_are_recognised [of ?t 1 32] by simp
qed

end
