(* ===== verification/Bench_Properties.thy ===== *)
theory Bench_Properties
  imports Bench
begin

text \<open>
  What the measurements of the load generator rest on: every event carries a key of its own.
\<close>

section \<open>Sequence numbers and keys\<close>

definition gen_key :: "nat \<Rightarrow> nat \<Rightarrow> string" where
  "gen_key g n = ''g'' @ dec_of_nat g @ ''-'' @ dec_of_nat n"

lemma gen_key_inject: "gen_key g n = gen_key g' n' \<Longrightarrow> g = g' \<and> n = n'"
  using dec_pair_inject [of g n g' n'] by (simp add: gen_key_def)

lemma gen_batch_eq:
  "gen_batch fb cfg gid now n seq =
     (seq + of_nat n, map (\<lambda>k. Some (gen_event fb cfg gid now (seq + of_nat (Suc k)))) [0..<n])"
proof (induction n arbitrary: seq)
  case (Suc n)
  have u: "[0..<Suc n] = 0 # map Suc [0..<n]" by (simp only: upt_conv_Cons map_Suc_upt)
  show ?case by (simp add: Suc u add.assoc comp_def del: upt_Suc)
qed simp

definition pushed_keys :: "'h lg_state \<Rightarrow> string list" where
  "pushed_keys s = map GetIdempotencyKey (concat (map Events (lg_pushed s)))"

text \<open>The events of a goroutine are numbered from one on without a gap.\<close>

definition numbered :: "nat \<Rightarrow> nat \<Rightarrow> 'h lg_state \<Rightarrow> bool" where
  "numbered gid n s \<longleftrightarrow> lg_seq s = of_nat n \<and> pushed_keys s = map (\<lambda>k. gen_key gid (Suc k)) [0..<n]"

lemma turn_pushes:
  "lg_seq (loadgen_turn L fb cfg gid t s) = lg_seq s + of_nat (nat (lg_BatchSize cfg)) \<and>
   lg_pushed (loadgen_turn L fb cfg gid t s) = lg_pushed s @
     [\<lparr>Events = snd (gen_batch fb cfg gid (tu_now t) (nat (lg_BatchSize cfg)) (lg_seq s))\<rparr>]"
  by (simp add: loadgen_turn_def gen_batch_eq Let_def split: sum.split)

lemma turn_numbered:
  assumes "numbered gid n s" and "n + nat (lg_BatchSize cfg) < 2 ^ 64"
  shows "numbered gid (n + nat (lg_BatchSize cfg)) (loadgen_turn L fb cfg gid t s)"
proof -
  let ?b = "nat (lg_BatchSize cfg)"
  have key: "GetIdempotencyKey (Some (gen_event fb cfg gid now (of_nat n + of_nat (Suc k)))) = gen_key gid (Suc (n + k))"
    if "k < ?b" for k now
  proof -
    have "unat (of_nat n + of_nat (Suc k) :: u64) = n + Suc k"
      using that assms(2) unat_of_nat_u64 [of "n + Suc k"] by (simp add: add.left_commute)
    then show ?thesis by (simp add: GetIdempotencyKey_def gen_event_def gen_key_def)
  qed
  have "map (\<lambda>k. GetIdempotencyKey (Some (gen_event fb cfg gid (tu_now t) (of_nat n + of_nat (Suc k))))) [0..<?b] =
      map (\<lambda>k. gen_key gid (Suc k)) [n..<n + ?b]"
    by (rule nth_equalityI) (simp_all add: key del: of_nat_Suc)
  moreover have "[0..<n + ?b] = [0..<n] @ [n..<n + ?b]" using upt_add_eq_append [of 0 n ?b] by simp
  ultimately show ?thesis
    using assms(1) turn_pushes [of L fb cfg gid t s]
    by (simp add: numbered_def pushed_keys_def gen_batch_eq comp_def del: of_nat_Suc)
qed

lemma goroutine_numbered:
  assumes "length ts * nat (lg_BatchSize cfg) < 2 ^ 64"
  shows "numbered gid (length ts * nat (lg_BatchSize cfg)) (loadgen_goroutine L fb cfg gid ts)"
proof -
  have "numbered gid (n + length us * nat (lg_BatchSize cfg)) (fold (loadgen_turn L fb cfg gid) us s)"
    if "numbered gid n s" "n + length us * nat (lg_BatchSize cfg) < 2 ^ 64" for n s us
    using that
  proof (induction us arbitrary: n s)
    case (Cons u us)
    from turn_numbered [OF Cons.prems(1)] Cons.prems(2)
    have "numbered gid (n + nat (lg_BatchSize cfg)) (loadgen_turn L fb cfg gid u s)" by simp
    from Cons.IH [OF this] Cons.prems(2) show ?case by (simp add: algebra_simps)
  qed simp
  from this [of 0] assms show ?thesis
    unfolding loadgen_goroutine_def by (simp add: numbered_def pushed_keys_def)
qed

lemma distinct_concat_keys:
  assumes "\<And>g i g' i'. f g i = f g' i' \<Longrightarrow> g = g' \<and> i = i'"
  shows "distinct (concat (map (\<lambda>g. map (f g) [0..<m g]) [0..<n]))"
proof (induction n)
  case (Suc n)
  have "distinct (map (f n) [0..<m n])" using assms by (simp add: distinct_map inj_on_def)
  moreover have "set (map (f n) [0..<m n]) \<inter> set (concat (map (\<lambda>g. map (f g) [0..<m g]) [0..<n])) = {}"
    using assms by fastforce
  ultimately show ?case using Suc by (auto simp: Int_commute)
qed simp

section \<open>The properties\<close>

text \<open>
  No two generated events share a key: whatever the answers of the gateway, and however many turns each goroutine
  makes (fewer than two to the 64th events each), the idempotency keys of all events pushed by all
  goroutines of a run are pairwise distinct, so that a duplicate in the pipeline is never the generator's.
\<close>

theorem generated_keys_are_unique:
  assumes "\<And>g. length (turns g) * nat (lg_BatchSize cfg) < 2 ^ 64"
  shows "distinct (concat (map (\<lambda>g. pushed_keys (loadgen_goroutine L fb cfg g (turns g))) [0..<n]))"
proof -
  have "pushed_keys (loadgen_goroutine L fb cfg g (turns g)) =
      map (\<lambda>k. gen_key g (Suc k)) [0..<length (turns g) * nat (lg_BatchSize cfg)]" for g
    using goroutine_numbered [OF assms, of g g L fb] by (simp add: numbered_def)
  moreover have "gen_key g (Suc i) = gen_key g' (Suc i') \<Longrightarrow> g = g' \<and> i = i'" for g i g' i'
    using gen_key_inject by fastforce
  ultimately show ?thesis using distinct_concat_keys [of "\<lambda>g k. gen_key g (Suc k)"] by simp
qed

definition ex_hdr :: "int list hdr_lib" where
  "ex_hdr = \<lparr>hdr_new = (\<lambda>_ _ _. []), hdr_merge = (@), hdr_record = (\<lambda>h v. h @ [v]),
     hdr_valueAtQuantile = (\<lambda>h q. 0), hdr_max = (\<lambda>h. fold max h 0)\<rparr>"

definition ex_cfg :: loadgen_Config where
  "ex_cfg = \<lparr>lg_Target = ''t'', lg_Duration = 1000000000, lg_Warmup = 0, lg_Concurrency = 2, lg_BatchSize = 2,
     lg_Devices = 10, lg_RateHz = 0\<rparr>"

definition ex_turns :: "nat \<Rightarrow> lg_turn list" where
  "ex_turns g = replicate (min 2 (Suc g)) \<lparr>tu_now = 7, tu_answer = (\<lambda>req. Inr \<lparr>Accepted = 2, Rejected = 0\<rparr>),
     tu_elapsed = 5, tu_recording = True\<rparr>"

text \<open>Two goroutines with one and two turns of two events each.\<close>

lemma ex_keys:
  "concat (map (\<lambda>g. pushed_keys (loadgen_goroutine ex_hdr (\<lambda>_. 0) ex_cfg g (ex_turns g))) [0..<2]) =
     [''g0-1'', ''g0-2'', ''g1-1'', ''g1-2'', ''g1-3'', ''g1-4'']"
  by code_simp

theorem generated_keys_are_unique_witness:
  "distinct [''g0-1'', ''g0-2'', ''g1-1'', ''g1-2'', ''g1-3'', ''g1-4'']"
proof -
  have "distinct (concat (map (\<lambda>g. pushed_keys (loadgen_goroutine ex_hdr (\<lambda>_. 0) ex_cfg g (ex_turns g))) [0..<2]))"
    by (rule generated_keys_are_unique) (simp add: ex_turns_def ex_cfg_def)
  then show ?thesis unfolding ex_keys .
qed

end
