(* ===== verification/Commands.thy ===== *)
theory Commands
  imports Report_Output Bench Gateway
begin

text \<open>
  The programs under \<^verbatim>\<open>cmd\<close>: how each \<^verbatim>\<open>main\<close> puts its parts together, in which order it shuts them
  down, and where it gives up.  A run is the list of the actions it performs; \<open>Fatal\<close> is
  \<^verbatim>\<open>log.Fatalf\<close>, which ends the process at once, without the deferred calls.  What the constructors of
  third-party clients answer is an argument.
\<close>

section \<open>Actions\<close>

datatype action =
    Fatal string
  | Panic string
  | OpenMemorySink
  | OpenKafkaSink "string list" string
  | OpenTimescaleSink string int int int
  | OpenDeduper string int
  | OpenDLQ "string list" string
  | StartPool int int
  | ServeMetrics string
  | OpenConsumer "string list" string string int
  | ListenOn string
  | ServeGrpc bool
  | AwaitSignal
  | RunConsumer
  | GracefulStop
  | ClosePool
  | CloseKafkaSink
  | CloseTimescaleSink
  | CloseDeduper
  | CloseDLQ
  | CloseConsumer
  | ShutdownMetrics
  | StopSignals
  | LogFinal

text \<open>The verb \<^verbatim>\<open>%q\<close> on printable ASCII text.\<close>

definition quoted :: "string \<Rightarrow> string" where
  "quoted s = [CHR 0x22] @ concat (map (\<lambda>c. if c = CHR 0x22 \<or> c = CHR 0x5C then [CHR 0x5C, c] else [c]) s) @ [CHR 0x22]"

section \<open>Gateway\<close>

record gateway_flags =
  gf_listen :: string
  gf_workers :: int
  gf_queue :: int
  gf_sink :: string
  gf_brokers :: string
  gf_topic :: string
  gf_shed :: bool
  gf_metricsAddr :: string

text \<open>The sink and its \<^verbatim>\<open>closeSink\<close>, or the way the program ends.\<close>

definition gateway_sink :: "go_error option \<Rightarrow> gateway_flags \<Rightarrow> action list \<times> action list option" where
  "gateway_sink kafkaErr f =
     (if gf_sink f = ''memory'' then ([OpenMemorySink], Some [])
      else if gf_sink f = ''kafka'' then
        (case kafkaErr of
           Some err \<Rightarrow> ([Fatal (''kafka sink: '' @ Error err)], None)
         | None \<Rightarrow> ([OpenKafkaSink (split_on (CHR '','') (gf_brokers f)) (gf_topic f)], Some [CloseKafkaSink]))
      else ([Fatal (''unknown sink kind '' @ quoted (gf_sink f))], None))"

definition gateway_main :: "go_error option \<Rightarrow> go_error option \<Rightarrow> gateway_flags \<Rightarrow> action list" where
  "gateway_main kafkaErr listenErr f =
     (case gateway_sink kafkaErr f of
        (acts, None) \<Rightarrow> acts
      | (acts, Some closeSink) \<Rightarrow>
          acts @
          (case pool_New (gf_workers f) (gf_queue f) () None () of
             Panics m \<Rightarrow> [Panic m]
           | _ \<Rightarrow>
               [StartPool (gf_workers f) (gf_queue f), ServeMetrics (gf_metricsAddr f)] @
               (case listenErr of
                  Some err \<Rightarrow> [Fatal (''listen: '' @ Error err)]
                | None \<Rightarrow>
                    [ListenOn (gf_listen f), ServeGrpc (gf_shed f), AwaitSignal, GracefulStop, ClosePool] @ closeSink @
                    [ShutdownMetrics, LogFinal, StopSignals])))"

text \<open>The error handler the gateway gives its pool counts the failed writes (\<^verbatim>\<open>errCount++\<close>).\<close>

definition gateway_errFn :: "go_error \<Rightarrow> i64 \<Rightarrow> i64" where
  "gateway_errFn err errCount = errCount + 1"

section \<open>Consumer\<close>

record consumer_flags =
  cf_brokers :: string
  cf_topic :: string
  cf_group :: string
  cf_sink :: string
  cf_maxRetries :: int
  cf_timescaleDSN :: string
  cf_batchSize :: int
  cf_flushInterval :: int
  cf_dedup :: bool
  cf_redisAddr :: string
  cf_dedupTTL :: int
  cf_dlq :: bool
  cf_dlqTopic :: string
  cf_metricsAddr :: string

text \<open>What the constructors answer.\<close>

record consumer_answers =
  ca_timescale :: "go_error option"
  ca_dlq :: "go_error option"
  ca_consumer :: "go_error option"

text \<open>
  A step of \<^verbatim>\<open>main\<close> adds actions and puts deferred calls in front of the earlier ones, or ends the
  program.
\<close>

datatype progress = Going "action list" "action list" | Ended "action list"

fun proceed :: "progress \<Rightarrow> (action list \<Rightarrow> action list \<Rightarrow> progress) \<Rightarrow> progress" where
  "proceed (Ended as) k = Ended as"
| "proceed (Going as ds) k = k as ds"

definition consumer_sink :: "consumer_answers \<Rightarrow> consumer_flags \<Rightarrow> progress" where
  "consumer_sink a f =
     (if cf_sink f = ''memory'' then Going [OpenMemorySink] []
      else if cf_sink f = ''timescale'' then
        (case ca_timescale a of
           Some err \<Rightarrow> Ended [Fatal (''timescale sink: '' @ Error err)]
         | None \<Rightarrow> Going [OpenTimescaleSink (cf_timescaleDSN f) (cf_batchSize f) (cf_flushInterval f) (cf_maxRetries f)]
                     [CloseTimescaleSink])
      else Ended [Fatal (''unknown sink kind '' @ quoted (cf_sink f))])"

definition consumer_dedup :: "consumer_flags \<Rightarrow> action list \<Rightarrow> action list \<Rightarrow> progress" where
  "consumer_dedup f as ds =
     (if cf_dedup f then Going (as @ [OpenDeduper (cf_redisAddr f) (cf_dedupTTL f)]) (CloseDeduper # ds) else Going as ds)"

definition consumer_dlq :: "consumer_answers \<Rightarrow> consumer_flags \<Rightarrow> action list \<Rightarrow> action list \<Rightarrow> progress" where
  "consumer_dlq a f as ds =
     (if cf_dlq f then
        (case ca_dlq a of
           Some err \<Rightarrow> Ended (as @ [Fatal (''dlq producer: '' @ Error err)])
         | None \<Rightarrow> Going (as @ [OpenDLQ (split_on (CHR '','') (cf_brokers f)) (cf_dlqTopic f)]) (CloseDLQ # ds))
      else Going as ds)"

definition consumer_start :: "consumer_answers \<Rightarrow> consumer_flags \<Rightarrow> action list \<Rightarrow> action list \<Rightarrow> progress" where
  "consumer_start a f as ds =
     (let as1 = as @ [ServeMetrics (cf_metricsAddr f)]; ds1 = ShutdownMetrics # ds
      in case ca_consumer a of
           Some err \<Rightarrow> Ended (as1 @ [Fatal (''consumer.New: '' @ Error err)])
         | None \<Rightarrow>
             Going (as1 @ [OpenConsumer (split_on (CHR '','') (cf_brokers f)) (cf_topic f) (cf_group f) (cf_maxRetries f),
                 RunConsumer, LogFinal]) (StopSignals # CloseConsumer # ds1))"

text \<open>The whole program: the deferred calls run at the end, last deferred first.\<close>

definition consumer_main :: "consumer_answers \<Rightarrow> consumer_flags \<Rightarrow> action list" where
  "consumer_main a f =
     (case proceed (proceed (proceed (consumer_sink a f) (consumer_dedup f)) (consumer_dlq a f)) (consumer_start a f) of
        Ended as \<Rightarrow> as
      | Going as ds \<Rightarrow> as @ ds)"

section \<open>Report\<close>

text \<open>
  \<^verbatim>\<open>cmd/report\<close>: the new content of the README if it was written, the message of a fatal end, and
  the results of the three charts, whose failures are only logged.
\<close>

record report_run =
  rr_readme :: "string option"
  rr_fatal :: "string option"
  rr_charts :: "(go_error + string) list"

definition report_fatal :: "string \<Rightarrow> go_error \<Rightarrow> report_run" where
  "report_fatal what err = \<lparr>rr_readme = None, rr_fatal = Some (what @ '': '' @ Error err), rr_charts = []\<rparr>"

record report_env =
  re_sortSweeps :: "SweepPoint list \<Rightarrow> SweepPoint list"
  re_sortPoints :: "ScalingPoint list \<Rightarrow> ScalingPoint list"
  re_sortXY :: "(num64 \<times> num64) list \<Rightarrow> (num64 \<times> num64) list"
  re_sortConc :: "SweepPoint list \<Rightarrow> SweepPoint list"
  re_parse :: "bytes \<Rightarrow> go_error + json"
  re_readDir :: "string \<Rightarrow> go_error + dir_entry list"
  re_readFile :: "string \<Rightarrow> go_error + bytes"
  re_writeFile :: "string \<Rightarrow> bytes \<Rightarrow> go_error option"
  re_plot :: plot_env

definition report_main :: "report_env \<Rightarrow> string \<Rightarrow> string \<Rightarrow> string \<Rightarrow> string \<Rightarrow> report_run" where
  "report_main env resultsDir readmePath chartsDir latencyPhase =
     (case Load (re_sortSweeps env) (re_sortPoints env) (re_parse env) resultsDir (re_readDir env resultsDir) of
        Inl err \<Rightarrow> report_fatal ''report'' err
      | Inr rep \<Rightarrow>
          (case re_readFile env readmePath of
             Inl err \<Rightarrow> report_fatal (''read '' @ readmePath) err
           | Inr original \<Rightarrow>
               (case ReplaceBetweenMarkers original (RenderMarkdown rep) of
                  Inl err \<Rightarrow> report_fatal ''update README'' err
                | Inr updated \<Rightarrow>
                    (case re_writeFile env readmePath updated of
                       Some err \<Rightarrow> report_fatal (''write '' @ readmePath) err
                     | None \<Rightarrow>
                         \<lparr>rr_readme = Some updated, rr_fatal = None,
                          rr_charts = [ThroughputVsConcurrency (re_sortXY env) (re_plot env) rep chartsDir,
                            LatencyPercentiles (re_sortConc env) (re_plot env) rep latencyPhase chartsDir,
                            ThroughputVsReplicas (re_plot env) rep chartsDir]\<rparr>))))"

section \<open>Topics\<close>

text \<open>
  \<^verbatim>\<open>cmd/topicinit\<close>: the request made of the broker, with the widths of its arguments, and the lines logged for its answer.
\<close>

datatype topic_request = DeleteTopics "string list" | CreateTopics "32 word" "16 word" "string list"

definition topic_request_of :: "bool \<Rightarrow> int \<Rightarrow> int \<Rightarrow> string \<Rightarrow> topic_request" where
  "topic_request_of del partitions replication topics =
     (if del then DeleteTopics (split_on (CHR '','') topics)
      else CreateTopics (word_of_int partitions) (word_of_int replication) (split_on (CHR '','') topics))"

definition topicinit_log :: "bool \<Rightarrow> int \<Rightarrow> int \<Rightarrow> string \<times> go_error option \<Rightarrow> string" where
  "topicinit_log del partitions replication t =
     (case t of
        (topic, Some err) \<Rightarrow> ''topic '' @ topic @ '': '' @ Error err @
          (if del then '' (may not exist)'' else '' (may already exist)'')
      | (topic, None) \<Rightarrow> ''topic '' @ topic @
          (if del then '' deleted''
           else '' created partitions='' @ dec_of_int partitions @ '' replication='' @ dec_of_int replication))"

definition topicinit_main ::
  "(topic_request \<Rightarrow> go_error + (string \<times> go_error option) list) \<Rightarrow> bool \<Rightarrow> int \<Rightarrow> int \<Rightarrow> string \<Rightarrow> string + string list" where
  "topicinit_main admin del partitions replication topics =
     (case admin (topic_request_of del partitions replication topics) of
        Inl err \<Rightarrow> Inl ((if del then ''delete topics: '' else ''create topics: '') @ Error err)
      | Inr resp \<Rightarrow> Inr (map (topicinit_log del partitions replication) resp))"

section \<open>Order of release\<close>

fun release_of :: "action \<Rightarrow> action option" where
  "release_of (OpenTimescaleSink dsn b i m) = Some CloseTimescaleSink"
| "release_of (OpenDeduper addr ttl) = Some CloseDeduper"
| "release_of (OpenDLQ bs t) = Some CloseDLQ"
| "release_of (ServeMetrics addr) = Some ShutdownMetrics"
| "release_of (OpenConsumer bs t g m) = Some CloseConsumer"
| "release_of a = None"

definition is_release :: "action \<Rightarrow> bool" where
  "is_release a \<longleftrightarrow> a \<in> {CloseTimescaleSink, CloseDeduper, CloseDLQ, ShutdownMetrics, CloseConsumer}"

text \<open>
  C38. The consumer process releases what it opened, each once, in the reverse order of opening, if it gets as far as
  running; if it gives up before, it releases nothing.  In particular the last flush of the Timescale sink, in its \<^verbatim>\<open>Close\<close>,
  comes after the dead-letter producer was closed: what that flush poisons reaches no dead-letter topic.
\<close>

theorem consumer_releases_in_reverse_order:
  "(if RunConsumer \<in> set (consumer_main a f)
    then filter is_release (consumer_main a f) = rev (List.map_filter release_of (consumer_main a f))
    else filter is_release (consumer_main a f) = []) \<and>
   (cf_sink f = ''timescale'' \<and> cf_dlq f \<and> RunConsumer \<in> set (consumer_main a f) \<longrightarrow>
      (\<exists>xs ys. consumer_main a f = xs @ CloseDLQ # ys @ [CloseTimescaleSink]))"
proof -
  note defs = consumer_main_def consumer_sink_def consumer_dedup_def consumer_dlq_def consumer_start_def
    is_release_def List.map_filter_simps Let_def
  have "if RunConsumer \<in> set (consumer_main a f)
    then filter is_release (consumer_main a f) = rev (List.map_filter release_of (consumer_main a f))
    else filter is_release (consumer_main a f) = []"
    by (cases "ca_timescale a"; cases "ca_dlq a"; cases "ca_consumer a"; cases "cf_dedup f"; cases "cf_dlq f")
      (simp_all add: defs)
  moreover have "\<exists>xs ys. consumer_main a f = xs @ CloseDLQ # ys @ [CloseTimescaleSink]"
    if "cf_sink f = ''timescale''" "cf_dlq f" "RunConsumer \<in> set (consumer_main a f)"
  proof -
    from that have "ca_timescale a = None" "ca_dlq a = None" "ca_consumer a = None"
      by (auto simp: defs split: option.splits if_splits)
    with that(1,2) have "consumer_main a f =
       ([OpenTimescaleSink (cf_timescaleDSN f) (cf_batchSize f) (cf_flushInterval f) (cf_maxRetries f)] @
        (if cf_dedup f then [OpenDeduper (cf_redisAddr f) (cf_dedupTTL f)] else []) @
        [OpenDLQ (split_on (CHR '','') (cf_brokers f)) (cf_dlqTopic f), ServeMetrics (cf_metricsAddr f),
         OpenConsumer (split_on (CHR '','') (cf_brokers f)) (cf_topic f) (cf_group f) (cf_maxRetries f),
         RunConsumer, LogFinal, StopSignals, CloseConsumer, ShutdownMetrics]) @
        CloseDLQ # (if cf_dedup f then [CloseDeduper] else []) @ [CloseTimescaleSink]"
      by (simp add: defs)
    then show ?thesis by blast
  qed
  ultimately show ?thesis by blast
qed

definition ex_flags :: consumer_flags where
  "ex_flags = \<lparr>cf_brokers = ''k1,k2'', cf_topic = ''t'', cf_group = ''g'', cf_sink = ''timescale'', cf_maxRetries = 3,
     cf_timescaleDSN = ''dsn'', cf_batchSize = 500, cf_flushInterval = 2, cf_dedup = True, cf_redisAddr = ''r'',
     cf_dedupTTL = 600, cf_dlq = True, cf_dlqTopic = ''q'', cf_metricsAddr = ''m''\<rparr>"

theorem consumer_releases_in_reverse_order_witness:
  "\<exists>xs ys. consumer_main \<lparr>ca_timescale = None, ca_dlq = None, ca_consumer = None\<rparr> ex_flags =
     xs @ CloseDLQ # ys @ [CloseTimescaleSink]"
proof -
  have "RunConsumer \<in> set (consumer_main \<lparr>ca_timescale = None, ca_dlq = None, ca_consumer = None\<rparr> ex_flags)"
    by code_simp
  with consumer_releases_in_reverse_order [of "\<lparr>ca_timescale = None, ca_dlq = None, ca_consumer = None\<rparr>" ex_flags]
  show ?thesis by (simp add: ex_flags_def)
qed

end
