(* ===== verification/Metrics.thy ===== *)
theory Metrics
  imports Complex_Main Transitions "HOL-Library.Sublist"
begin

text \<open>
  \<^verbatim>\<open>internal/metrics\<close>: the collectors of the two processes and their registration.  The Prometheus registry is
  an argument of type \<open>'r\<close> with its \<open>mustRegister\<close>, which panics when it refuses a collector.
\<close>

text \<open>The buckets of a histogram as the call of the library that makes them, and the two collectors that come with the library.\<close>

datatype buckets = ExponentialBuckets rat rat nat | DefBuckets

datatype collector_kind = Counter | Gauge | GaugeFunc | Histogram buckets | ProcessCollector | GoCollector

record collector =
  co_kind :: collector_kind
  co_Name :: string
  co_Help :: string

type_synonym 'r must_register = "'r \<Rightarrow> collector \<Rightarrow> 'r run"

fun MustRegister :: "'r must_register \<Rightarrow> 'r \<Rightarrow> collector list \<Rightarrow> 'r run" where
  "MustRegister mustRegister reg [] = Returns reg"
| "MustRegister mustRegister reg (c # cs) =
     (case mustRegister reg c of
        Returns reg' \<Rightarrow> MustRegister mustRegister reg' cs
      | Blocks \<Rightarrow> Blocks
      | Panics m \<Rightarrow> Panics m)"

definition gateway_collectors :: "collector list" where
  "gateway_collectors =
     [\<lparr>co_kind = Counter, co_Name = ''sluice_gateway_ingest_events_total'',
        co_Help = ''Total telemetry events accepted by the gateway.''\<rparr>,
      \<lparr>co_kind = GaugeFunc, co_Name = ''sluice_gateway_queue_depth'',
        co_Help = ''Current depth of the gateway's bounded worker-pool queue.''\<rparr>,
      \<lparr>co_kind = Histogram (ExponentialBuckets (1 / 10000) 2 20), co_Name = ''sluice_gateway_submit_block_seconds'',
        co_Help = ''Time spent blocked submitting an event into the bounded queue.''\<rparr>,
      \<lparr>co_kind = Histogram DefBuckets, co_Name = ''sluice_gateway_request_latency_seconds'',
        co_Help = ''Push RPC handler latency.''\<rparr>,
      \<lparr>co_kind = Counter, co_Name = ''sluice_gateway_shed_total'',
        co_Help = ''Total events rejected because -shed mode is enabled and the queue was full.''\<rparr>]"

definition consumer_collectors :: "collector list" where
  "consumer_collectors =
     [\<lparr>co_kind = Counter, co_Name = ''sluice_consumer_consumed_total'',
        co_Help = ''Total events persisted by the consumer.''\<rparr>,
      \<lparr>co_kind = Counter, co_Name = ''sluice_consumer_dedup_dropped_total'',
        co_Help = ''Total events dropped because they were already seen (dedup).''\<rparr>,
      \<lparr>co_kind = Counter, co_Name = ''sluice_consumer_dlq_total'',
        co_Help = ''Total events sent to the dead-letter topic.''\<rparr>,
      \<lparr>co_kind = Histogram DefBuckets, co_Name = ''sluice_consumer_batch_flush_seconds'',
        co_Help = ''Sink batch flush latency.''\<rparr>,
      \<lparr>co_kind = Gauge, co_Name = ''sluice_consumer_group_lag'',
        co_Help = ''Total consumer group lag across all partitions.''\<rparr>]"

definition NewGateway :: "'r must_register \<Rightarrow> 'r \<Rightarrow> 'r run" where
  "NewGateway mustRegister reg = MustRegister mustRegister reg gateway_collectors"

definition NewConsumer :: "'r must_register \<Rightarrow> 'r \<Rightarrow> 'r run" where
  "NewConsumer mustRegister reg = MustRegister mustRegister reg consumer_collectors"

text \<open>\<^verbatim>\<open>NewRegistry\<close> registers the two collectors of the library on an empty registry.\<close>

definition NewProcessCollector :: collector where
  "NewProcessCollector = \<lparr>co_kind = ProcessCollector, co_Name = [], co_Help = []\<rparr>"

definition NewGoCollector :: collector where
  "NewGoCollector = \<lparr>co_kind = GoCollector, co_Name = [], co_Help = []\<rparr>"

definition metrics_NewRegistry :: "'r must_register \<Rightarrow> 'r \<Rightarrow> 'r run" where
  "metrics_NewRegistry mustRegister reg0 =
     (case MustRegister mustRegister reg0 [NewProcessCollector] of
        Returns reg \<Rightarrow> MustRegister mustRegister reg [NewGoCollector]
      | Blocks \<Rightarrow> Blocks
      | Panics m \<Rightarrow> Panics m)"

section \<open>The endpoint\<close>

text \<open>
  The HTTP server: its address, the patterns of its mux with the registry whose handler they reach, whether it was closed and whether it listens.
  A pattern without a trailing slash matches its own path only.
\<close>

record 'r http_server =
  hs_Addr :: string
  hs_mux :: "(string \<times> 'r) list"
  hs_closed :: bool
  hs_listening :: bool

definition metrics_Serve :: "string \<Rightarrow> 'r \<Rightarrow> 'r http_server" where
  "metrics_Serve addr reg = \<lparr>hs_Addr = addr, hs_mux = [(''/metrics'', reg)], hs_closed = False, hs_listening = False\<rparr>"

text \<open>
  The goroutine \<^verbatim>\<open>Serve\<close> starts: \<^verbatim>\<open>ListenAndServe\<close> returns at once when the server was closed before or the address
  cannot be listened on, and its error is dropped.
\<close>

definition listen_goroutine :: "(string \<Rightarrow> go_error option) \<Rightarrow> 'r http_server \<Rightarrow> 'r http_server" where
  "listen_goroutine listen srv =
     (if hs_closed srv then srv
      else case listen (hs_Addr srv) of
        Some err \<Rightarrow> srv
      | None \<Rightarrow> srv\<lparr>hs_listening := True\<rparr>)"

definition metrics_Shutdown :: "'r http_server \<Rightarrow> 'r http_server" where
  "metrics_Shutdown srv = srv\<lparr>hs_closed := True, hs_listening := False\<rparr>"

definition http_get :: "'r http_server \<Rightarrow> string \<Rightarrow> 'r option" where
  "http_get srv path = (if hs_listening srv then map_of (hs_mux srv) path else None)"

section \<open>Registration does not panic\<close>

text \<open>
  A registry that refuses a collector only when it holds one of its names.  A collector of the program describes the one name it was made with; the
  names of the two collectors of the library start with \<^verbatim>\<open>process_\<close> and \<^verbatim>\<open>go_\<close>.
\<close>

definition library_prefix :: "collector_kind \<Rightarrow> string option" where
  "library_prefix k =
     (case k of ProcessCollector \<Rightarrow> Some ''process_'' | GoCollector \<Rightarrow> Some ''go_'' | _ \<Rightarrow> None)"

locale registry =
  fixes mustRegister :: "'r must_register"
    and names :: "'r \<Rightarrow> string set"
    and described :: "collector \<Rightarrow> string set"
  assumes fresh_names: "described c \<inter> names reg = {} \<Longrightarrow>
      \<exists>reg'. mustRegister reg c = Returns reg' \<and> names reg' = described c \<union> names reg"
    and own_name: "library_prefix (co_kind c) = None \<Longrightarrow> described c = {co_Name c}"
    and library_names: "library_prefix (co_kind c) = Some p \<Longrightarrow> n \<in> described c \<Longrightarrow> prefix p n"
begin

lemma register_disjoint:
  assumes "pairwise (\<lambda>c d. described c \<inter> described d = {}) (set cs)" and "distinct cs"
    and "\<And>c. c \<in> set cs \<Longrightarrow> names reg \<inter> described c = {}"
  shows "\<exists>reg'. MustRegister mustRegister reg cs = Returns reg' \<and> names reg' = names reg \<union> (\<Union>c \<in> set cs. described c)"
  using assms
proof (induction cs arbitrary: reg)
  case (Cons c cs)
  from fresh_names [of c reg] Cons.prems(3) [of c] obtain r1 where
    r1: "mustRegister reg c = Returns r1" "names r1 = described c \<union> names reg" by auto
  have "names r1 \<inter> described d = {}" if "d \<in> set cs" for d
    using Cons.prems that r1 by (auto simp: pairwise_insert)
  with Cons.IH [of r1] Cons.prems r1 show ?case by (auto simp: pairwise_insert)
qed simp

lemma NewRegistry_registers:
  assumes "names reg0 = {}"
  shows "\<exists>reg. metrics_NewRegistry mustRegister reg0 = Returns reg \<and>
    names reg = described NewProcessCollector \<union> described NewGoCollector"
proof -
  have "described NewProcessCollector \<inter> described NewGoCollector = {}"
    using library_names [of NewProcessCollector "''process_''"] library_names [of NewGoCollector "''go_''"]
    by (fastforce simp: NewProcessCollector_def NewGoCollector_def library_prefix_def prefix_def)
  moreover obtain r1 where r1: "mustRegister reg0 NewProcessCollector = Returns r1" "names r1 = described NewProcessCollector"
    using fresh_names [of NewProcessCollector reg0] assms by auto
  ultimately obtain r2 where "mustRegister r1 NewGoCollector = Returns r2"
    "names r2 = described NewGoCollector \<union> described NewProcessCollector"
    using fresh_names [of NewGoCollector r1] by (metis inf_commute)
  with r1 show ?thesis by (auto simp: metrics_NewRegistry_def)
qed

lemma own_collectors_register:
  assumes "\<And>c. c \<in> set cs \<Longrightarrow> library_prefix (co_kind c) = None" and "distinct (map co_Name cs)"
    and "names reg = described NewProcessCollector \<union> described NewGoCollector"
    and "\<And>c. c \<in> set cs \<Longrightarrow> prefix ''sluice_'' (co_Name c)"
  shows "\<exists>reg'. MustRegister mustRegister reg cs = Returns reg' \<and> names reg' = names reg \<union> co_Name ` set cs"
proof -
  have own: "described c = {co_Name c}" if "c \<in> set cs" for c by (rule own_name [OF assms(1) [OF that]])
  have "names reg \<inter> described c = {}" if "c \<in> set cs" for c
    using library_names [of NewProcessCollector "''process_''"] library_names [of NewGoCollector "''go_''"]
      assms(4) [OF that] own [OF that] assms(3)
    by (fastforce simp: NewProcessCollector_def NewGoCollector_def library_prefix_def prefix_def)
  moreover have "pairwise (\<lambda>c d. described c \<inter> described d = {}) (set cs)"
    using assms(2) own by (auto simp: pairwise_def distinct_map inj_on_def)
  ultimately show ?thesis
    using register_disjoint [of cs reg] assms(2) own by (auto simp: distinct_map)
qed

end

text \<open>A registry as the list of the names it holds.\<close>

definition list_described :: "collector \<Rightarrow> string list" where
  "list_described c =
     (case co_kind c of
        ProcessCollector \<Rightarrow> [''process_cpu_seconds_total'', ''process_open_fds'', ''process_max_fds'', ''process_virtual_memory_bytes'',
          ''process_resident_memory_bytes'', ''process_start_time_seconds'']
      | GoCollector \<Rightarrow> [''go_goroutines'', ''go_threads'', ''go_gc_duration_seconds'', ''go_info'']
      | _ \<Rightarrow> [co_Name c])"

definition list_register :: "string list must_register" where
  "list_register reg c =
     (if set (list_described c) \<inter> set reg \<noteq> {} then Panics ''duplicate metrics collector registration attempted''
      else Returns (list_described c @ reg))"

interpretation lr: registry list_register set "\<lambda>c. set (list_described c)"
  by unfold_locales
    (auto simp: list_register_def list_described_def library_prefix_def split: collector_kind.splits)

text \<open>The collectors of the two processes register after those of the library.\<close>

lemma own_collectors:
  "c \<in> set gateway_collectors \<union> set consumer_collectors \<Longrightarrow> library_prefix (co_kind c) = None \<and> prefix ''sluice_'' (co_Name c)"
  by (auto simp: gateway_collectors_def consumer_collectors_def library_prefix_def)

lemma NewGateway_registers:
  assumes "registry mustRegister names described"
    and "names reg = described NewProcessCollector \<union> described NewGoCollector"
  shows "\<exists>reg'. NewGateway mustRegister reg = Returns reg' \<and> names reg' = names reg \<union> co_Name ` set gateway_collectors"
  unfolding NewGateway_def using own_collectors
  by (intro registry.own_collectors_register [OF assms(1)] assms(2)) (auto simp: gateway_collectors_def)

lemma NewConsumer_registers:
  assumes "registry mustRegister names described"
    and "names reg = described NewProcessCollector \<union> described NewGoCollector"
  shows "\<exists>reg'. NewConsumer mustRegister reg = Returns reg' \<and> names reg' = names reg \<union> co_Name ` set consumer_collectors"
  unfolding NewConsumer_def using own_collectors
  by (intro registry.own_collectors_register [OF assms(1)] assms(2)) (auto simp: consumer_collectors_def)

text \<open>
  C41. Start-up of the metrics: on an empty registry neither process panics while it registers its collectors, and once its server listens the path
  \<^verbatim>\<open>/metrics\<close> reaches a registry that holds the names of its collectors; after \<^verbatim>\<open>Shutdown\<close> it does not, also when the
  goroutine that listens runs only then.
\<close>

theorem metrics_are_served_until_shutdown:
  assumes "registry mustRegister names described" and "names reg0 = {}" and "listen addr = None"
    and "new \<in> {(NewGateway mustRegister, gateway_collectors), (NewConsumer mustRegister, consumer_collectors)}"
  shows "\<exists>reg reg'. metrics_NewRegistry mustRegister reg0 = Returns reg \<and> fst new reg = Returns reg' \<and>
    http_get (listen_goroutine listen (metrics_Serve addr reg')) ''/metrics'' = Some reg' \<and>
    co_Name ` set (snd new) \<subseteq> names reg' \<and>
    http_get (metrics_Shutdown (listen_goroutine listen (metrics_Serve addr reg'))) path = None \<and>
    http_get (listen_goroutine listen (metrics_Shutdown (metrics_Serve addr reg'))) path = None"
proof -
  obtain reg where r: "metrics_NewRegistry mustRegister reg0 = Returns reg"
    "names reg = described NewProcessCollector \<union> described NewGoCollector"
    using registry.NewRegistry_registers [OF assms(1,2)] by blast
  obtain reg' where r': "fst new reg = Returns reg'" "co_Name ` set (snd new) \<subseteq> names reg'"
    using assms(4) NewGateway_registers [OF assms(1) r(2)] NewConsumer_registers [OF assms(1) r(2)] by fastforce
  have "http_get (listen_goroutine listen (metrics_Serve addr reg')) ''/metrics'' = Some reg'"
    by (simp add: http_get_def listen_goroutine_def metrics_Serve_def assms(3))
  with r(1) r' show ?thesis
    by (auto simp: http_get_def listen_goroutine_def metrics_Serve_def metrics_Shutdown_def assms(3))
qed

theorem metrics_are_served_until_shutdown_witness:
  "\<exists>reg reg'. metrics_NewRegistry list_register [] = Returns reg \<and> NewGateway list_register reg = Returns reg' \<and>
    http_get (listen_goroutine (\<lambda>_. None) (metrics_Serve '':9100'' reg')) ''/metrics'' = Some reg' \<and>
    co_Name ` set gateway_collectors \<subseteq> set reg'"
  using metrics_are_served_until_shutdown [OF lr.registry_axioms, of "[]" "\<lambda>_. None" "'':9100''"
      "(NewGateway list_register, gateway_collectors)" "''/''"]
  by (simp del: set_append) blast

end
