(* ===== verification/Reporting.thy ===== *)
theory Reporting
  imports Consumer Transitions Json
begin

text \<open>
  \<^verbatim>\<open>Consumer.Run\<close> and the goroutine it starts, \<^verbatim>\<open>reportLoop\<close>, side by side.  \<^verbatim>\<open>Run\<close> is taken apart into steps
  of which each makes at most one access the other goroutine can see: the counters are atomics and the metrics library serialises
  its calls.  \<open>Run\<close> of theory \<open>Consumer\<close>, which runs alone, is the reference.
\<close>

section \<open>The main goroutine in steps\<close>

datatype run_pc =
    Polling
  | Decoding "Record list" "decodedRecord list"
  | Checking "decodedRecord list"
  | Persisting "decodedRecord list" "bool list"
  | Flushing
  | Draining
  | DeadLettering "PoisonedEvent list"
  | Committing
  | RunReturned "go_error option"

fun run_step ::
  "('s, 'r, 'q, 'c) env \<Rightarrow> run_pc \<Rightarrow> ('s, 'r, 'q, 'c) Consumer \<Rightarrow> (run_pc \<times> ('s, 'r, 'q, 'c) Consumer) run" where
  "run_step env Polling c =
     (case poll env (client c) of
        (k', fetches) \<Rightarrow>
          (let c1 = c\<lparr>client := k'\<rparr> in
           if f_ctxErr fetches \<noteq> None then Returns (RunReturned (f_ctxErr fetches), c1)
           else if f_isClientClosed fetches then Returns (RunReturned None, c1)
           else Returns (Decoding (f_records fetches) [], c1)))"
| "run_step env (Decoding [] ds) c = Returns (if length ds = 0 then Flushing else Checking ds, c)"
| "run_step env (Decoding (r # rs) ds) c =
     (case DecodeRecord (pb_unmarshal env) (RecValue r) of
        Inl err \<Rightarrow>
          Returns (Decoding rs ds, sendToDLQ env c (Topic r) (Partition r) (Offset r) (Key r) (RecValue r) err)
      | Inr e \<Rightarrow> Returns (Decoding rs (ds @ [\<lparr>dr_record = r, dr_event = e\<rparr>]), c))"
| "run_step env (Checking ds) c = (case check_seen env c ds of (c', seen) \<Rightarrow> Returns (Persisting ds seen, c'))"
| "run_step env (Persisting (d # ds) (seen # bs)) c =
     Returns (Persisting ds bs,
       if seen then metric DedupDroppedTotal_Inc (c\<lparr>deduped := deduped c + 1\<rparr>)
       else persist env c (dr_record d) (dr_event d))"
| "run_step env (Persisting ds bs) c = Returns (Flushing, c)"
| "run_step env Flushing c =
     (case flush_sink env c of
        (c1, Some err) \<Rightarrow> Returns (Polling, c1)
      | (c1, None) \<Rightarrow> Returns (Draining, c1))"
| "run_step env Draining c =
     (case DrainPoisoned (ops env) of
        None \<Rightarrow> Returns (Committing, c)
      | Some f \<Rightarrow> (case f (csink c) of (s', ps) \<Rightarrow> Returns (DeadLettering ps, c\<lparr>csink := s'\<rparr>)))"
| "run_step env (DeadLettering []) c = Returns (Committing, c)"
| "run_step env (DeadLettering (p # ps)) c = Returns (DeadLettering ps, send_poison env p c)"
| "run_step env Committing c = Returns (Polling, commit_offsets env c)"
| "run_step env (RunReturned err) c = Blocks"

section \<open>The report loop\<close>

text \<open>
  Where the loop is: at its select; after the load of \<^verbatim>\<open>consumed\<close>, with the total and the number since the last tick; with the lag
  set on the gauge; or returned.
\<close>

datatype report_pc = Selecting | AskingLag u64 u64 | Logging u64 u64 i64 | ReportReturned

record report_line =
  rl_consumed :: u64
  rl_delta :: u64
  rl_lag :: i64
  rl_deduped :: u64
  rl_dlq :: u64

text \<open>\<^verbatim>\<open>rate\<close> and the line of \<^verbatim>\<open>log.Printf\<close>.\<close>

definition rl_rate :: "report_line \<Rightarrow> num64" where
  "rl_rate l = div64 (float_of_int (uint (rl_delta l))) 5"

definition rl_text :: "report_line \<Rightarrow> string" where
  "rl_text l =
     ''consumed_total='' @ dec_of_nat (unat (rl_consumed l)) @ '' rate='' @ fixed 1 (rl_rate l) @ ''/s lag='' @
     dec_of_int (sint (rl_lag l)) @ '' deduped='' @ dec_of_nat (unat (rl_deduped l)) @ '' dlq='' @ dec_of_nat (unat (rl_dlq l))"

datatype report_label =
    RDone
  | RTick
  | RLag "go_error + i64 list"
  | RLog

record report_state =
  rp_pc :: report_pc
  rp_last :: u64
  rp_lines :: "report_line list"

definition report_start :: report_state where
  "report_start = \<lparr>rp_pc = Selecting, rp_last = 0, rp_lines = []\<rparr>"

fun report_step ::
  "report_label \<Rightarrow> report_state \<Rightarrow> ('s, 'r, 'q, 'c) Consumer \<Rightarrow> (report_state \<times> ('s, 'r, 'q, 'c) Consumer) run" where
  "report_step RDone rp c =
     (case rp_pc rp of Selecting \<Rightarrow> Returns (rp\<lparr>rp_pc := ReportReturned\<rparr>, c) | _ \<Rightarrow> Blocks)"
| "report_step RTick rp c =
     (case rp_pc rp of
        Selecting \<Rightarrow>
          (let now = consumed c in Returns (rp\<lparr>rp_pc := AskingLag now (now - rp_last rp), rp_last := now\<rparr>, c))
      | _ \<Rightarrow> Blocks)"
| "report_step (RLag lags) rp c =
     (case rp_pc rp of
        AskingLag now delta \<Rightarrow>
          (let lag = (case lags of Inl err \<Rightarrow> 0 | Inr ls \<Rightarrow> fold (\<lambda>l lag. lag + l) ls 0)
           in Returns (rp\<lparr>rp_pc := Logging now delta lag\<rparr>, metric (GroupLag_Set lag) c))
      | _ \<Rightarrow> Blocks)"
| "report_step RLog rp c =
     (case rp_pc rp of
        Logging now delta lag \<Rightarrow>
          Returns (rp\<lparr>rp_pc := Selecting, rp_lines := rp_lines rp @ [\<lparr>rl_consumed = now, rl_delta = delta, rl_lag = lag,
            rl_deduped = deduped c, rl_dlq = dlqSent c\<rparr>]\<rparr>, c)
      | _ \<Rightarrow> Blocks)"

section \<open>Both goroutines\<close>

record ('s, 'r, 'q, 'c) running =
  ru_consumer :: "('s, 'r, 'q, 'c) Consumer"
  ru_pc :: run_pc
  ru_report :: report_state

datatype running_label = OfRun | OfReport report_label

definition running_start :: "('s, 'r, 'q, 'c) Consumer \<Rightarrow> ('s, 'r, 'q, 'c) running" where
  "running_start c = \<lparr>ru_consumer = c, ru_pc = Polling, ru_report = report_start\<rparr>"

fun running_next ::
  "('s, 'r, 'q, 'c) env \<Rightarrow> running_label \<Rightarrow> ('s, 'r, 'q, 'c) running \<Rightarrow> ('s, 'r, 'q, 'c) running run" where
  "running_next env OfRun s =
     (case run_step env (ru_pc s) (ru_consumer s) of
        Returns (pc, c) \<Rightarrow> Returns (s\<lparr>ru_pc := pc, ru_consumer := c\<rparr>)
      | Blocks \<Rightarrow> Blocks
      | Panics m \<Rightarrow> Panics m)"
| "running_next env (OfReport l) s =
     (case report_step l (ru_report s) (ru_consumer s) of
        Returns (rp, c) \<Rightarrow> Returns (s\<lparr>ru_report := rp, ru_consumer := c\<rparr>)
      | Blocks \<Rightarrow> Blocks
      | Panics m \<Rightarrow> Panics m)"

section \<open>What the report loop leaves alone\<close>

text \<open>The consumer without the lag gauge, which only the report loop sets.\<close>

fun sets_lag :: "consumer_metric \<Rightarrow> bool" where
  "sets_lag (GroupLag_Set l) = True"
| "sets_lag _ = False"

definition no_lag :: "('s, 'r, 'q, 'c) Consumer \<Rightarrow> ('s, 'r, 'q, 'c) Consumer" where
  "no_lag c = c\<lparr>metrics := map_option (filter (\<lambda>m. \<not> sets_lag m)) (metrics c)\<rparr>"

named_theorems no_lag

lemma no_lag_frame [simp]:
  "client (no_lag c) = client c" "csink (no_lag c) = csink c" "dedup (no_lag c) = dedup c"
  "dlq (no_lag c) = dlq c" "topic (no_lag c) = topic c" "maxRetries (no_lag c) = maxRetries c"
  "consumed (no_lag c) = consumed c" "deduped (no_lag c) = deduped c" "dlqSent (no_lag c) = dlqSent c"
  by (simp_all add: no_lag_def)

lemma no_lag_update [simp]:
  "no_lag (c\<lparr>client := k\<rparr>) = (no_lag c)\<lparr>client := k\<rparr>" "no_lag (c\<lparr>csink := s\<rparr>) = (no_lag c)\<lparr>csink := s\<rparr>"
  "no_lag (c\<lparr>dedup := d\<rparr>) = (no_lag c)\<lparr>dedup := d\<rparr>" "no_lag (c\<lparr>dlq := q\<rparr>) = (no_lag c)\<lparr>dlq := q\<rparr>"
  "no_lag (c\<lparr>consumed := n\<rparr>) = (no_lag c)\<lparr>consumed := n\<rparr>" "no_lag (c\<lparr>deduped := n\<rparr>) = (no_lag c)\<lparr>deduped := n\<rparr>"
  "no_lag (c\<lparr>dlqSent := n\<rparr>) = (no_lag c)\<lparr>dlqSent := n\<rparr>"
  by (simp_all add: no_lag_def)

lemma no_lag_metric [simp]:
  "no_lag (metric m c) = (if sets_lag m then no_lag c else metric m (no_lag c))"
  by (cases "metrics c") (simp_all add: no_lag_def metric_def)

lemma no_lag_sendToDLQ [no_lag]:
  "no_lag (sendToDLQ env c t p off k v e) = sendToDLQ env (no_lag c) t p off k v e"
  by (simp add: sendToDLQ_def split: option.split prod.split)

lemma no_lag_check_seen [no_lag]:
  "check_seen env (no_lag c) ds = (case check_seen env c ds of (c', seen) \<Rightarrow> (no_lag c', seen))"
  by (simp add: check_seen_def Let_def split: option.split prod.split sum.split)

lemma no_lag_persist [no_lag]: "no_lag (persist env c r e) = persist env (no_lag c) r e"
  by (simp add: persist_def no_lag_sendToDLQ split: prod.split option.split)

lemma no_lag_flush [no_lag]:
  "flush_sink env (no_lag c) = (case flush_sink env c of (c', err) \<Rightarrow> (no_lag c', err))"
  by (simp add: flush_sink_def split: option.split prod.split)

lemma no_lag_send_poison [no_lag]: "no_lag (send_poison env p c) = send_poison env p (no_lag c)"
  by (simp add: send_poison_def no_lag_sendToDLQ)

lemma no_lag_commit [no_lag]: "no_lag (commit_offsets env c) = commit_offsets env (no_lag c)"
  by (simp add: commit_offsets_def)

lemma run_step_no_lag:
  "run_step env pc c = Returns (pc', c') \<Longrightarrow> run_step env pc (no_lag c) = Returns (pc', no_lag c')"
  by (induction env pc c rule: run_step.induct)
    (auto simp: no_lag Let_def split: if_splits option.splits prod.splits sum.splits)

lemma report_step_no_lag:
  "report_step l rp c = Returns (rp', c') \<Longrightarrow> no_lag c' = no_lag c"
  by (cases l) (auto simp: Let_def split: report_pc.splits)

section \<open>The steps of a round make the round\<close>

text \<open>The consumer when the round in progress is over.\<close>

definition after_flush :: "('s, 'r, 'q, 'c) env \<Rightarrow> ('s, 'r, 'q, 'c) Consumer \<Rightarrow> ('s, 'r, 'q, 'c) Consumer" where
  "after_flush env c =
     (case flush_sink env c of
        (c1, Some err) \<Rightarrow> c1
      | (c1, None) \<Rightarrow> commit_offsets env (drain_poison env c1))"

definition after_decode ::
  "('s, 'r, 'q, 'c) env \<Rightarrow> ('s, 'r, 'q, 'c) Consumer \<Rightarrow> decodedRecord list \<Rightarrow> ('s, 'r, 'q, 'c) Consumer" where
  "after_decode env c ds =
     after_flush env (case check_seen env c ds of (c2, seen) \<Rightarrow> persist_loop env c2 ds seen)"

fun finish :: "('s, 'r, 'q, 'c) env \<Rightarrow> run_pc \<Rightarrow> ('s, 'r, 'q, 'c) Consumer \<Rightarrow> ('s, 'r, 'q, 'c) Consumer" where
  "finish env (Decoding rs ds) c = (case decode_all env c rs of (c1, ds') \<Rightarrow> after_decode env c1 (ds @ ds'))"
| "finish env (Checking ds) c = after_decode env c ds"
| "finish env (Persisting ds bs) c = after_flush env (persist_loop env c ds bs)"
| "finish env Flushing c = after_flush env c"
| "finish env Draining c = commit_offsets env (drain_poison env c)"
| "finish env (DeadLettering ps) c = commit_offsets env (fold (send_poison env) ps c)"
| "finish env Committing c = commit_offsets env c"
| "finish env _ c = c"

lemma finish_round: "finish env (Decoding rs []) c = run_round env c rs"
  by (auto simp: run_round_def handleBatch_def after_decode_def after_flush_def check_seen_Nil split: prod.split)

fun in_round :: "run_pc \<Rightarrow> bool" where
  "in_round Polling = False"
| "in_round (RunReturned e) = False"
| "in_round _ = True"

lemma finish_step:
  assumes "run_step env pc c = Returns (pc', c')" and "in_round pc"
  shows "finish env pc' c' = finish env pc c \<and> (in_round pc' \<or> pc' = Polling)"
  using assms
  by (induction env pc c rule: run_step.induct)
    (auto simp: after_decode_def after_flush_def check_seen_Nil drain_poison_def
      split: if_splits option.splits prod.splits sum.splits)

text \<open>A round can always be finished by steps of \<^verbatim>\<open>Run\<close> alone.\<close>

definition settles :: "('s, 'r, 'q, 'c) env \<Rightarrow> run_pc \<Rightarrow> ('s, 'r, 'q, 'c) Consumer \<Rightarrow> bool" where
  "settles env pc c \<longleftrightarrow> (\<forall>rp. \<exists>k. exec (running_next env) (replicate k OfRun) \<lparr>ru_consumer = c, ru_pc = pc, ru_report = rp\<rparr> =
     Some \<lparr>ru_consumer = finish env pc c, ru_pc = Polling, ru_report = rp\<rparr>)"

lemma settles_step:
  assumes "run_step env pc c = Returns (pc', c')" and "in_round pc" and "settles env pc' c'"
  shows "settles env pc c"
  unfolding settles_def
proof
  fix rp
  from assms(3) obtain k where
    "exec (running_next env) (replicate k OfRun) \<lparr>ru_consumer = c', ru_pc = pc', ru_report = rp\<rparr> =
       Some \<lparr>ru_consumer = finish env pc' c', ru_pc = Polling, ru_report = rp\<rparr>" by (auto simp: settles_def)
  with assms(1) finish_step [OF assms(1,2)]
  have "exec (running_next env) (replicate (Suc k) OfRun) \<lparr>ru_consumer = c, ru_pc = pc, ru_report = rp\<rparr> =
    Some \<lparr>ru_consumer = finish env pc c, ru_pc = Polling, ru_report = rp\<rparr>" by (simp add: exec_Cons_iff)
  then show "\<exists>k. exec (running_next env) (replicate k OfRun) \<lparr>ru_consumer = c, ru_pc = pc, ru_report = rp\<rparr> =
    Some \<lparr>ru_consumer = finish env pc c, ru_pc = Polling, ru_report = rp\<rparr>" by blast
qed

lemma settles_Polling: "settles env Polling c"
  unfolding settles_def by (intro allI exI [of _ 0]) simp

lemma settles_Committing: "settles env Committing c"
  by (rule settles_step [OF _ _ settles_Polling]) simp_all

lemma settles_DeadLettering: "settles env (DeadLettering ps) c"
proof (induction ps arbitrary: c)
  case Nil
  show ?case by (rule settles_step [OF _ _ settles_Committing]) simp_all
next
  case (Cons p ps)
  show ?case by (rule settles_step [OF _ _ Cons.IH]) simp_all
qed

lemma settles_Draining: "settles env Draining c"
proof (cases "DrainPoisoned (ops env)")
  case None
  then show ?thesis by (intro settles_step [OF _ _ settles_Committing]) simp_all
next
  case (Some f)
  obtain s' ps where "f (csink c) = (s', ps)" by (cases "f (csink c)")
  with Some show ?thesis by (intro settles_step [OF _ _ settles_DeadLettering]) simp_all
qed

lemma settles_Flushing: "settles env Flushing c"
proof (cases "flush_sink env c")
  case (Pair c1 err)
  then show ?thesis
  proof (cases err)
    case None
    with Pair show ?thesis by (intro settles_step [OF _ _ settles_Draining]) simp_all
  next
    case (Some e)
    with Pair show ?thesis by (intro settles_step [OF _ _ settles_Polling]) simp_all
  qed
qed

lemma settles_Persisting: "settles env (Persisting ds bs) c"
proof (induction ds bs arbitrary: c rule: list_induct2')
  case (4 d ds b bs)
  show ?case by (rule settles_step [OF _ _ 4]) simp_all
qed (rule settles_step [OF _ _ settles_Flushing], simp_all)+

lemma settles_Checking: "settles env (Checking ds) c"
  by (cases "check_seen env c ds") (auto intro: settles_step [OF _ _ settles_Persisting])

lemma settles_Decoding: "settles env (Decoding rs ds) c"
proof (induction rs arbitrary: ds c)
  case Nil
  show ?case
  proof (cases "ds = []")
    case True
    then show ?thesis by (intro settles_step [OF _ _ settles_Flushing]) simp_all
  next
    case False
    then show ?thesis by (intro settles_step [OF _ _ settles_Checking]) simp_all
  qed
next
  case (Cons r rs)
  show ?case
  proof (cases "DecodeRecord (pb_unmarshal env) (RecValue r)")
    case (Inl e)
    then show ?thesis by (intro settles_step [OF _ _ Cons.IH]) simp_all
  next
    case (Inr e)
    then show ?thesis by (intro settles_step [OF _ _ Cons.IH]) simp_all
  qed
qed

section \<open>Transparency\<close>

text \<open>Up to the lag gauge, the steps so far are those of the reference, which continues from where the round in progress ends.\<close>

definition follows :: "('s, 'r, 'q, 'c) env \<Rightarrow> ('s, 'r, 'q, 'c) Consumer \<Rightarrow> ('s, 'r, 'q, 'c) running \<Rightarrow> bool" where
  "follows env c0 s \<longleftrightarrow>
     (\<exists>n. \<forall>m. Run env (n + m) c0 =
        (case ru_pc s of
           RunReturned e \<Rightarrow> (no_lag (ru_consumer s), Some e)
         | pc \<Rightarrow> Run env m (finish env pc (no_lag (ru_consumer s)))))"

lemma follows_in_round:
  assumes "in_round pc \<or> pc = Polling"
  shows "follows env c0 (s\<lparr>ru_pc := pc\<rparr>) \<longleftrightarrow>
    (\<exists>n. \<forall>m. Run env (n + m) c0 = Run env m (finish env pc (no_lag (ru_consumer s))))"
  using assms by (cases pc) (simp_all add: follows_def)

lemma poll_step:
  assumes "run_step env Polling c = Returns (pc, c')"
  shows "Run env (Suc m) c = (case pc of RunReturned e \<Rightarrow> (c', Some e) | _ \<Rightarrow> Run env m (finish env pc c'))"
  using assms by (auto simp: Let_def finish_round simp del: finish.simps split: prod.splits if_splits)

lemma running_next_follows:
  assumes f: "follows env c0 s" and n: "running_next env l s = Returns s'"
  shows "follows env c0 s'"
proof (cases l)
  case (OfReport r)
  with n obtain rp c where "report_step r (ru_report s) (ru_consumer s) = Returns (rp, c)"
    "s' = s\<lparr>ru_report := rp, ru_consumer := c\<rparr>" by (auto split: run.splits)
  with f show ?thesis by (simp add: follows_def report_step_no_lag cong: run_pc.case_cong)
next
  case OfRun
  let ?c = "no_lag (ru_consumer s)"
  from OfRun n obtain pc c where st: "run_step env (ru_pc s) (ru_consumer s) = Returns (pc, c)"
    and s': "s' = s\<lparr>ru_consumer := c, ru_pc := pc\<rparr>" by (auto split: run.splits)
  note st' = run_step_no_lag [OF st]
  show ?thesis
  proof (cases "in_round (ru_pc s)")
    case True
    from finish_step [OF st' True] f show ?thesis
      using follows_in_round [of "ru_pc s" env c0 s] follows_in_round [of pc env c0 "s\<lparr>ru_consumer := c\<rparr>"] True
      by (simp add: s')
  next
    case False
    with st have p: "ru_pc s = Polling" by (cases "ru_pc s") auto
    with f obtain n where n: "Run env (n + m) c0 = Run env m ?c" for m by (auto simp: follows_def)
    have "Run env (Suc n + m) c0 =
      (case pc of RunReturned e \<Rightarrow> (no_lag c, Some e) | _ \<Rightarrow> Run env m (finish env pc (no_lag c)))" for m
      using n [of "Suc m"] poll_step [OF st' [unfolded p]] by simp
    then show ?thesis unfolding follows_def s' by (intro exI [of _ "Suc n"]) (cases pc; simp del: Run.simps)
  qed
qed

interpretation rf: invariant_lts "running_next env" "follows env c0" for env c0
  by unfold_locales (rule running_next_follows)

lemma Run_stepped:
  assumes "Run env n c = (c', Some e)"
  shows "\<exists>ls. exec (running_next env) ls \<lparr>ru_consumer = c, ru_pc = Polling, ru_report = rp\<rparr> =
    Some \<lparr>ru_consumer = c', ru_pc = RunReturned e, ru_report = rp\<rparr>"
  using assms
proof (induction n arbitrary: c)
  case (Suc n)
  obtain k fetches where p: "poll env (client c) = (k, fetches)" by (cases "poll env (client c)")
  let ?s = "\<lparr>ru_consumer = c, ru_pc = Polling, ru_report = rp\<rparr>"
  show ?case
  proof (cases "f_ctxErr fetches \<noteq> None \<or> f_isClientClosed fetches")
    case True
    with Suc.prems p show ?thesis
      by (intro exI [of _ "[OfRun]"]) (cases "f_ctxErr fetches"; auto simp: exec_Cons_iff Let_def)
  next
    case False
    let ?c1 = "c\<lparr>client := k\<rparr>" and ?pc = "Decoding (f_records fetches) []"
    from False p have "running_next env OfRun ?s = Returns \<lparr>ru_consumer = ?c1, ru_pc = ?pc, ru_report = rp\<rparr>"
      by (simp add: Let_def)
    moreover obtain j where "exec (running_next env) (replicate j OfRun) \<lparr>ru_consumer = ?c1, ru_pc = ?pc, ru_report = rp\<rparr> =
      Some \<lparr>ru_consumer = run_round env ?c1 (f_records fetches), ru_pc = Polling, ru_report = rp\<rparr>"
      using settles_Decoding [of env "f_records fetches" "[]" ?c1] unfolding settles_def finish_round by blast
    moreover from Suc.prems False p have "Run env n (run_round env ?c1 (f_records fetches)) = (c', Some e)"
      by (simp add: Let_def)
    then obtain ls where "exec (running_next env) ls
        \<lparr>ru_consumer = run_round env ?c1 (f_records fetches), ru_pc = Polling, ru_report = rp\<rparr> =
      Some \<lparr>ru_consumer = c', ru_pc = RunReturned e, ru_report = rp\<rparr>" using Suc.IH by blast
    ultimately have "exec (running_next env) (OfRun # replicate j OfRun @ ls) ?s =
      Some \<lparr>ru_consumer = c', ru_pc = RunReturned e, ru_report = rp\<rparr>" by (simp add: exec_Cons_iff exec_append)
    then show ?thesis by blast
  qed
qed simp

lemma follows_start: "no_lag c = c \<Longrightarrow> follows env c (running_start c)"
  unfolding follows_def running_start_def by (intro exI [of _ 0]) simp

text \<open>
  C12. Reporting does not disturb the pipeline: from a consumer whose lag gauge has not been set, \<^verbatim>\<open>Run\<close> next to its report loop returns, under
  some schedule of the two goroutines, with exactly those errors and exactly those states (sink, deduplication, dead letters, offsets, counters and the
  metrics other than the lag gauge) with which \<^verbatim>\<open>Run\<close> returns alone.
\<close>

theorem reporting_is_transparent:
  assumes "no_lag c = c"
  shows "(\<exists>ls s. exec (running_next env) ls (running_start c) = Some s \<and> ru_pc s = RunReturned err \<and>
      no_lag (ru_consumer s) = c') \<longleftrightarrow> (\<exists>n. Run env n c = (c', Some err))"
proof
  assume "\<exists>ls s. exec (running_next env) ls (running_start c) = Some s \<and> ru_pc s = RunReturned err \<and>
      no_lag (ru_consumer s) = c'"
  then obtain ls s where e: "exec (running_next env) ls (running_start c) = Some s" and "ru_pc s = RunReturned err"
    "no_lag (ru_consumer s) = c'" by blast
  from rf.exec_ok [OF e follows_start [OF assms]] \<open>ru_pc s = _\<close> \<open>no_lag _ = c'\<close> show "\<exists>n. Run env n c = (c', Some err)"
    by (auto simp: follows_def)
next
  assume "\<exists>n. Run env n c = (c', Some err)"
  then obtain n where r: "Run env n c = (c', Some err)" by blast
  then obtain ls s where ls: "exec (running_next env) ls (running_start c) = Some s"
    and s: "ru_pc s = RunReturned err" "ru_consumer s = c'"
    using Run_stepped [OF r, of report_start] unfolding running_start_def by fastforce
  from rf.exec_ok [OF ls follows_start [OF assms]] s obtain k where k: "Run env (k + m) c = (no_lag c', Some err)" for m
    by (auto simp: follows_def)
  have "Run env (n + k) c = (c', Some err)" by (rule Run_more_fuel [OF r])
  with k [of n] have "no_lag c' = c'" by (simp add: add.commute)
  with ls s show "\<exists>ls s. exec (running_next env) ls (running_start c) = Some s \<and> ru_pc s = RunReturned err \<and>
      no_lag (ru_consumer s) = c'" by blast
qed

section \<open>The reported numbers\<close>

text \<open>
  After \<open>n\<close> steps from a consumer with no events: the total the report loop has read last is at most the counter, and the differences it has
  computed add up to it.
\<close>

fun pending :: "report_pc \<Rightarrow> nat" where
  "pending (AskingLag now delta) = unat delta"
| "pending (Logging now delta lag) = unat delta"
| "pending _ = 0"

fun read_at :: "u64 \<Rightarrow> report_pc \<Rightarrow> bool" where
  "read_at n (AskingLag now delta) = (now = n)"
| "read_at n (Logging now delta lag) = (now = n)"
| "read_at n _ = True"

definition reported :: "report_line list \<Rightarrow> nat" where
  "reported ls = sum_list (map (\<lambda>l. unat (rl_delta l)) ls)"

definition counts_ok :: "nat \<Rightarrow> ('s, 'r, 'q, 'c) running \<Rightarrow> bool" where
  "counts_ok n s \<longleftrightarrow>
     unat (consumed (ru_consumer s)) \<le> n \<and>
     unat (rp_last (ru_report s)) \<le> unat (consumed (ru_consumer s)) \<and>
     read_at (rp_last (ru_report s)) (rp_pc (ru_report s)) \<and>
     reported (rp_lines (ru_report s)) + pending (rp_pc (ru_report s)) = unat (rp_last (ru_report s)) \<and>
     (\<forall>i < length (rp_lines (ru_report s)).
        reported (take (Suc i) (rp_lines (ru_report s))) = unat (rl_consumed (rp_lines (ru_report s) ! i)))"

lemma run_step_consumed:
  "run_step env pc c = Returns (pc', c') \<Longrightarrow> consumed c' = consumed c \<or> consumed c' = consumed c + 1"
  by (induction env pc c rule: run_step.induct)
    (auto simp: Let_def persist_def flush_sink_def send_poison_def commit_offsets_def
      dest!: arg_cong [where f = fst] split: if_splits option.splits prod.splits sum.splits)

lemma report_step_counts:
  assumes ok: "counts_ok n s" and r: "report_step l (ru_report s) (ru_consumer s) = Returns (rp, c)"
  shows "counts_ok n (s\<lparr>ru_report := rp, ru_consumer := c\<rparr>)"
proof (cases l)
  case RTick
  with r have "rp_pc (ru_report s) = Selecting"
    "rp = (ru_report s)\<lparr>rp_pc := AskingLag (consumed c) (consumed c - rp_last (ru_report s)), rp_last := consumed c\<rparr>"
    "c = ru_consumer s" by (auto simp: Let_def split: report_pc.splits)
  with ok show ?thesis by (auto simp: counts_ok_def unat_sub word_le_nat_alt)
next
  case RLog
  with r ok show ?thesis
    by (auto simp: counts_ok_def reported_def less_Suc_eq nth_append split: report_pc.splits)
qed (use r ok in \<open>auto simp: counts_ok_def Let_def split: report_pc.splits\<close>)

lemma running_counts:
  assumes "exec (running_next env) ls (running_start c) = Some s" and "consumed c = 0" and "length ls < 2 ^ 64"
  shows "counts_ok (length ls) s"
  using assms
proof (induction ls arbitrary: s rule: rev_induct)
  case Nil
  then show ?case by (auto simp: counts_ok_def running_start_def report_start_def reported_def)
next
  case (snoc l ls)
  then obtain s1 where s1: "counts_ok (length ls) s1" and l: "running_next env l s1 = Returns s"
    by (auto simp: exec_append exec_Cons_iff split: bind_splits)
  show ?case
  proof (cases l)
    case OfRun
    with l obtain pc c' where st: "run_step env (ru_pc s1) (ru_consumer s1) = Returns (pc, c')"
      and s: "s = s1\<lparr>ru_pc := pc, ru_consumer := c'\<rparr>" by (auto split: run.splits)
    from s1 snoc.prems(3) have "unat (consumed (ru_consumer s1)) + 1 < 2 ^ 64" by (simp add: counts_ok_def)
    then have "unat (consumed (ru_consumer s1) + 1) = unat (consumed (ru_consumer s1)) + 1"
      by (simp add: unat_word_ariths)
    with run_step_consumed [OF st] s1 show ?thesis by (auto simp: counts_ok_def s)
  next
    case (OfReport r)
    with l obtain rp c' where "report_step r (ru_report s1) (ru_consumer s1) = Returns (rp, c')"
      "s = s1\<lparr>ru_report := rp, ru_consumer := c'\<rparr>" by (auto split: run.splits)
    with report_step_counts [OF s1] show ?thesis by (fastforce simp: counts_ok_def)
  qed
qed

text \<open>
  C29. The report lines add up: under every schedule (of fewer than \<open>2 ^ 64\<close> steps) from a consumer that has consumed nothing, the numbers the
  report loop turns into rates, summed over the lines up to any line, are the total that line prints, and no line prints more than has been
  consumed.
\<close>

theorem report_lines_add_up:
  assumes "exec (running_next env) ls (running_start c) = Some s" and "consumed c = 0" and "length ls < 2 ^ 64"
    and "i < length (rp_lines (ru_report s))"
  shows "(\<Sum>l\<leftarrow>take (Suc i) (rp_lines (ru_report s)). unat (rl_delta l)) = unat (rl_consumed (rp_lines (ru_report s) ! i)) \<and>
    rl_consumed (rp_lines (ru_report s) ! i) \<le> consumed (ru_consumer s)"
proof -
  let ?L = "rp_lines (ru_report s)"
  from running_counts [OF assms(1-3)] have ok: "counts_ok (length ls) s" .
  with assms(4) have t: "reported (take (Suc i) ?L) = unat (rl_consumed (?L ! i))" by (simp add: counts_ok_def)
  have "reported ?L = reported (take (Suc i) ?L) + reported (drop (Suc i) ?L)"
    unfolding reported_def by (metis append_take_drop_id map_append sum_list_append)
  with ok t show ?thesis by (simp add: counts_ok_def word_le_nat_alt) (simp add: reported_def)
qed

section \<open>A concrete run\<close>

text \<open>A memory sink, one poll with two events, then the cancelled context; a tick between the two events and one at the end.\<close>

definition ex_two :: "(MemorySink, unit, unit, nat) env" where
  "ex_two = \<lparr>ops = memory_sink_ops, redis_exec = (\<lambda>r _. (r, None, \<lambda>_. Inr True)), dlq_produce = (\<lambda>b _. (b, None)),
     pb_unmarshal = (\<lambda>b. Inr \<lparr>pb_DeviceId = b, pb_IdempotencyKey = b, pb_EventTimeUnixNanos = 0, pb_Metric = [], pb_Value = 0\<rparr>),
     pb_marshal = (\<lambda>m. Inr (pb_DeviceId m)),
     poll = (\<lambda>k. (Suc k, \<lparr>f_ctxErr = (if k = 0 then None else Some Canceled), f_isClientClosed = False, f_errors = [],
       f_records = map (\<lambda>v. \<lparr>Topic = ''t'', Partition = 3, Offset = 7, Key = v, RecValue = v, Headers = []\<rparr>) [''a'', ''b'']\<rparr>)),
     commit = (\<lambda>k. (k, None))\<rparr>"

definition ex_fresh :: "(MemorySink, unit, unit, nat) Consumer" where
  "ex_fresh = \<lparr>client = 0, csink = NewMemorySink, dedup = None, dlq = None, group = ''g'', topic = ''t'', maxRetries = 1,
     metrics = Some [], consumed = 0, deduped = 0, dlqSent = 0\<rparr>"

definition ex_ticks :: "running_label list" where
  "ex_ticks = replicate 6 OfRun @ [OfReport RTick, OfRun, OfReport (RLag (Inr [4, 3])), OfReport RLog] @
     replicate 5 OfRun @ map OfReport [RTick, RLag (Inl DeadlineExceeded), RLog, RDone]"

definition ex_ticked :: "(MemorySink, unit, unit, nat) running" where
  "ex_ticked = \<lparr>ru_consumer = ex_fresh\<lparr>client := 2, csink := \<lparr>accepted = 2\<rparr>, consumed := 2,
       metrics := Some [ConsumedTotal_Inc, ConsumedTotal_Inc, GroupLag_Set 7, GroupLag_Set 0]\<rparr>,
     ru_pc = RunReturned (Some Canceled),
     ru_report = \<lparr>rp_pc = ReportReturned, rp_last = 2, rp_lines =
       [\<lparr>rl_consumed = 1, rl_delta = 1, rl_lag = 7, rl_deduped = 0, rl_dlq = 0\<rparr>,
        \<lparr>rl_consumed = 2, rl_delta = 1, rl_lag = 0, rl_deduped = 0, rl_dlq = 0\<rparr>]\<rparr>\<rparr>"

lemma ex_ticks_run: "exec (running_next ex_two) ex_ticks (running_start ex_fresh) = Some ex_ticked"
  by code_simp

lemma ex_fresh_no_lag: "no_lag ex_fresh = ex_fresh"
  by (simp add: no_lag_def ex_fresh_def)

theorem reporting_is_transparent_witness:
  "\<exists>n. Run ex_two n ex_fresh = (no_lag (ru_consumer ex_ticked), Some (Some Canceled))"
proof -
  have "ru_pc ex_ticked = RunReturned (Some Canceled)" by (simp add: ex_ticked_def)
  with ex_ticks_run show ?thesis
    using reporting_is_transparent [OF ex_fresh_no_lag, of ex_two "Some Canceled" "no_lag (ru_consumer ex_ticked)"] by blast
qed

theorem report_lines_add_up_witness:
  "(\<Sum>l\<leftarrow>take (Suc 1) (rp_lines (ru_report ex_ticked)). unat (rl_delta l)) = 2 \<and> (2 :: u64) \<le> consumed (ru_consumer ex_ticked)"
proof -
  have "consumed ex_fresh = 0" "length ex_ticks < 2 ^ 64" "1 < length (rp_lines (ru_report ex_ticked))"
    "rl_consumed (rp_lines (ru_report ex_ticked) ! 1) = 2"
    by (simp_all add: ex_fresh_def ex_ticks_def ex_ticked_def)
  then show ?thesis
    using report_lines_add_up [OF ex_ticks_run, of 1] by simp
qed

end
