(* ===== verification/Grpc.thy ===== *)
theory Grpc
  imports Gateway
begin

text \<open>
  \<^verbatim>\<open>gen/sluice/v1/telemetry_grpc.pb.go\<close>: the stub a client calls, the handler and the service description a server registers.  What lies between
  them, the gRPC package with its connections, is a parameter: the locale \<open>grpc_transport\<close> says what a successful unary call means, and an
  in-process transport meets it.  State of the server: \<open>'w\<close>.
\<close>

section \<open>Names and options\<close>

definition Ingest_Push_FullMethodName :: string where
  "Ingest_Push_FullMethodName = ''/sluice.v1.Ingest/Push''"

datatype call_option = StaticMethod | CallOption string

text \<open>\<^verbatim>\<open>status.Error(codes.Unimplemented, msg)\<close> as its \<^verbatim>\<open>Error()\<close> text.\<close>

definition unimplemented :: "string \<Rightarrow> go_error" where
  "unimplemented msg = ErrorText (''rpc error: code = Unimplemented desc = '' @ msg)"

section \<open>Server side\<close>

type_synonym 'w push_method = "IngestRequest option \<Rightarrow> 'w \<Rightarrow> ('w \<times> (go_error + IngestResponse)) run"

definition UnimplementedIngestServer_Push :: "'w push_method" where
  "UnimplementedIngestServer_Push req w = Returns (w, Inl (unimplemented ''method Push not implemented''))"

text \<open>An interceptor gets the request, the full name of the method and the handler to call.\<close>

type_synonym 'w interceptor = "IngestRequest option \<Rightarrow> string \<Rightarrow> 'w push_method \<Rightarrow> 'w \<Rightarrow> ('w \<times> (go_error + IngestResponse)) run"

definition Ingest_Push_Handler ::
  "'w push_method \<Rightarrow> go_error + IngestRequest \<Rightarrow> 'w interceptor option \<Rightarrow> 'w \<Rightarrow> ('w \<times> (go_error + IngestResponse)) run" where
  "Ingest_Push_Handler push dec interceptor w =
     (case dec of
        Inl err \<Rightarrow> Returns (w, Inl err)
      | Inr inp \<Rightarrow>
          (case interceptor of
             None \<Rightarrow> push (Some inp) w
           | Some i \<Rightarrow> i (Some inp) Ingest_Push_FullMethodName push w))"

record 'w ServiceDesc =
  sd_ServiceName :: string
  sd_Methods :: "(string \<times> (go_error + IngestRequest \<Rightarrow> 'w interceptor option \<Rightarrow> 'w \<Rightarrow>
     ('w \<times> (go_error + IngestResponse)) run)) list"
  sd_Streams :: "string list"
  sd_Metadata :: string

text \<open>The description together with the server it is registered for.\<close>

definition Ingest_ServiceDesc :: "'w push_method \<Rightarrow> 'w ServiceDesc" where
  "Ingest_ServiceDesc push =
     \<lparr>sd_ServiceName = ''sluice.v1.Ingest'', sd_Methods = [(''Push'', Ingest_Push_Handler push)], sd_Streams = [],
      sd_Metadata = ''proto/sluice/v1/telemetry.proto''\<rparr>"

text \<open>
  How a server struct embeds \<^verbatim>\<open>UnimplementedIngestServer\<close>.  Calling the test method through a nil pointer panics; a server that does not
  embed it has no test method to call.
\<close>

datatype embedding = ByValue | ByPointer bool | NotEmbedded

definition RegisterIngestServer ::
  "'w ServiceDesc list \<Rightarrow> embedding \<Rightarrow> 'w push_method \<Rightarrow> 'w ServiceDesc list run" where
  "RegisterIngestServer reg emb push =
     (if emb = ByPointer False then Panics ''runtime error: invalid memory address or nil pointer dereference''
      else Returns (reg @ [Ingest_ServiceDesc push]))"

section \<open>Client side\<close>

type_synonym 'w invoke =
  "'w ServiceDesc list \<Rightarrow> string \<Rightarrow> IngestRequest option \<Rightarrow> call_option list \<Rightarrow> 'w \<Rightarrow>
     ('w \<times> (go_error + IngestResponse)) run"

definition ingestClient_Push ::
  "'w invoke \<Rightarrow> 'w ServiceDesc list \<Rightarrow> IngestRequest option \<Rightarrow> call_option list \<Rightarrow> 'w \<Rightarrow>
     ('w \<times> (go_error + IngestResponse)) run" where
  "ingestClient_Push invoke reg inp opts w =
     (case invoke reg Ingest_Push_FullMethodName inp (StaticMethod # opts) w of
        Returns (w', Inl err) \<Rightarrow> Returns (w', Inl err)
      | Returns (w', Inr out) \<Rightarrow> Returns (w', Inr out)
      | Blocks \<Rightarrow> Blocks
      | Panics m \<Rightarrow> Panics m)"

section \<open>The transport\<close>

text \<open>
  What arrives of a message: a nil message, or a nil element of the repeated field, is encoded like an empty one and decoded as one.
\<close>

definition received :: "IngestRequest option \<Rightarrow> IngestRequest" where
  "received req =
     \<lparr>Events = map (\<lambda>ev. Some (telemetry_of_event (event_of_telemetry ev))) (GetEvents req)\<rparr>"

definition method_handler ::
  "'w ServiceDesc list \<Rightarrow> string \<Rightarrow> (go_error + IngestRequest \<Rightarrow> 'w interceptor option \<Rightarrow> 'w \<Rightarrow>
     ('w \<times> (go_error + IngestResponse)) run) option" where
  "method_handler reg full =
     map_of (concat (map (\<lambda>sd. map (\<lambda>(m, h). (''/'' @ sd_ServiceName sd @ ''/'' @ m, h)) (sd_Methods sd)) reg)) full"

text \<open>
  Documented behaviour of gRPC: a unary call that returned without an error was answered by the handler registered under the name of its
  method, which ran once, on the request as it is received and, on a server without interceptors, with none.
\<close>

locale grpc_transport =
  fixes invoke :: "'w invoke"
  assumes answered: "invoke reg full req opts w = Returns (w', Inr out) \<Longrightarrow>
      \<exists>h. method_handler reg full = Some h \<and> h (Inr (received req)) None w = Returns (w', Inr out)"
begin

lemma client_push_answered:
  assumes "ingestClient_Push invoke reg req opts w = Returns (w', Inr out)"
    and "RegisterIngestServer [] emb push = Returns reg"
  shows "push (Some (received req)) w = Returns (w', Inr out)"
proof -
  from assms(1) have "invoke reg Ingest_Push_FullMethodName req (StaticMethod # opts) w = Returns (w', Inr out)"
    by (auto simp: ingestClient_Push_def split: run.splits prod.splits sum.splits)
  moreover from assms(2) have "reg = [Ingest_ServiceDesc push]"
    by (auto simp: RegisterIngestServer_def split: if_splits)
  ultimately show ?thesis
    using answered [of reg Ingest_Push_FullMethodName req "StaticMethod # opts" w w' out]
    by (auto simp: method_handler_def Ingest_ServiceDesc_def Ingest_Push_FullMethodName_def Ingest_Push_Handler_def)
qed

end

text \<open>Client and server in one process, with a schedule of failing calls as part of the options.\<close>

definition local_invoke :: "'w invoke" where
  "local_invoke reg full req opts w =
     (if CallOption ''unavailable'' \<in> set opts then Returns (w, Inl (ErrorText ''rpc error: code = Unavailable''))
      else case method_handler reg full of
        None \<Rightarrow> Returns (w, Inl (unimplemented ''unknown method''))
      | Some h \<Rightarrow> h (Inr (received req)) None w)"

interpretation gl: grpc_transport local_invoke
  by unfold_locales (auto simp: local_invoke_def split: if_splits option.splits)

section \<open>The gateway behind the stub\<close>

text \<open>The handler of the gateway always answers with a nil error; its server embeds the stub by value.\<close>

definition gateway_push :: "'s sink_ops \<Rightarrow> (nat \<Rightarrow> moment) \<Rightarrow> ('s, 'h) Server push_method" where
  "gateway_push ops sched req s =
     (case Push ops sched req s of
        Returns (s', resp) \<Rightarrow> Returns (s', Inr resp)
      | Blocks \<Rightarrow> Blocks
      | Panics m \<Rightarrow> Panics m)"

definition gateway_services ::
  "'s sink_ops \<Rightarrow> (nat \<Rightarrow> moment) \<Rightarrow> ('s, 'h) Server ServiceDesc list run" where
  "gateway_services ops sched = RegisterIngestServer [] ByValue (gateway_push ops sched)"

lemma gateway_services_eq: "gateway_services ops sched = Returns [Ingest_ServiceDesc (gateway_push ops sched)]"
  by (simp add: gateway_services_def RegisterIngestServer_def)

lemma gateway_push_answer:
  "gateway_push ops sched req s = Returns (s', Inr resp) \<longleftrightarrow> Push ops sched req s = Returns (s', resp)"
  by (auto simp: gateway_push_def split: run.splits prod.splits)

lemma length_received [simp]: "length (GetEvents (Some (received req))) = length (GetEvents req)"
  by (simp add: received_def GetEvents_def)

lemma received_events: "map event_of_telemetry (GetEvents (Some (received req))) = map event_of_telemetry (GetEvents req)"
  by (simp add: received_def GetEvents_def)

end
