(* ===== verification/Loadgen_Race.thy ===== *)
theory Loadgen_Race
  imports Bench_Properties Transitions
begin

text \<open>
  \<^verbatim>\<open>loadgen.Run\<close> with its goroutines side by side.  They share the three counters, which they change by atomic additions between
  which the others run; sequence number and histogram are their own.  Theory \<open>Bench\<close> adds up the goroutines as if each had run
  alone (\<open>loadgen_Run\<close>); here that is a reference, and every interleaving is shown to give the same result.
\<close>

section \<open>State\<close>

text \<open>
  Where a goroutine is in a turn of its loop: at the head; with the answer of \<^verbatim>\<open>client.Push\<close>; after the addition to \<^verbatim>\<open>accepted\<close>; after
  the addition to \<^verbatim>\<open>rejected\<close>; or returned.
\<close>

datatype lg_pc =
    AtTop
  | Answered "go_error + IngestResponse" lg_turn
  | AddedAccepted IngestResponse lg_turn
  | AddedRejected lg_turn
  | Stopped

text \<open>\<open>lo_turns\<close> is a history variable: the turns the goroutine has made.\<close>

record 'h lg_local =
  lo_seq :: u64
  lo_hist :: 'h
  lo_pushed :: "IngestRequest list"
  lo_pc :: lg_pc
  lo_turns :: "lg_turn list"

record 'h lg_shared =
  sh_accepted :: u64
  sh_rejected :: u64
  sh_errs :: u64
  sh_locals :: "'h lg_local list"

datatype lg_label = LgCall nat lg_turn | LgAdd nat | LgStop nat

text \<open>\<^verbatim>\<open>make\<close> panics on a negative length.\<close>

definition lg_start :: "'h hdr_lib \<Rightarrow> loadgen_Config \<Rightarrow> 'h lg_shared run" where
  "lg_start L cfg =
     (if lg_Concurrency cfg < 0 then Panics ''makeslice: len out of range''
      else Returns \<lparr>sh_accepted = 0, sh_rejected = 0, sh_errs = 0,
             sh_locals = replicate (nat (lg_Concurrency cfg))
               \<lparr>lo_seq = 0, lo_hist = hdr_New L, lo_pushed = [], lo_pc = AtTop, lo_turns = []\<rparr>\<rparr>)"

section \<open>Steps\<close>

text \<open>
  One call: the request is built and sent, the answer of the turn comes back.  Before its loop a goroutine with a rate makes a ticker, and
  \<^verbatim>\<open>time.NewTicker\<close> panics when the interval, truncated to nanoseconds, is zero; a negative batch size makes \<^verbatim>\<open>make\<close> panic.
\<close>

definition bad_ticker :: "loadgen_Config \<Rightarrow> bool" where
  "bad_ticker cfg = (case loadgen_interval cfg of None \<Rightarrow> False | Some d \<Rightarrow> d \<le> 0)"

definition lg_call ::
  "(nat \<Rightarrow> float64) \<Rightarrow> loadgen_Config \<Rightarrow> nat \<Rightarrow> lg_turn \<Rightarrow> 'h lg_local \<Rightarrow> 'h lg_local run" where
  "lg_call fb cfg g t lo =
     (if lo_pc lo \<noteq> AtTop then Blocks
      else if bad_ticker cfg then Panics ''non-positive interval for NewTicker''
      else if lg_BatchSize cfg < 0 then Panics ''makeslice: len out of range''
      else (case gen_batch fb cfg g (tu_now t) (nat (lg_BatchSize cfg)) (lo_seq lo) of
              (seq', evs) \<Rightarrow>
                (let req = \<lparr>Events = evs\<rparr>
                 in Returns (lo\<lparr>lo_seq := seq', lo_pushed := lo_pushed lo @ [req], lo_turns := lo_turns lo @ [t],
                      lo_pc := Answered (tu_answer t req) t\<rparr>))))"

definition lg_stop :: "loadgen_Config \<Rightarrow> 'h lg_local \<Rightarrow> 'h lg_local run" where
  "lg_stop cfg lo =
     (if lo_pc lo \<noteq> AtTop then Blocks
      else if bad_ticker cfg then Panics ''non-positive interval for NewTicker''
      else Returns (lo\<lparr>lo_pc := Stopped\<rparr>))"

text \<open>The additions after the call, one a step: to one of the counters or to the own histogram.\<close>

fun lg_add :: "'h hdr_lib \<Rightarrow> lg_pc \<Rightarrow> nat \<Rightarrow> 'h lg_local \<Rightarrow> 'h lg_shared \<Rightarrow> 'h lg_shared run" where
  "lg_add L (Answered (Inl err) t) g lo s =
     Returns (s\<lparr>sh_errs := sh_errs s + 1, sh_locals := (sh_locals s)[g := lo\<lparr>lo_pc := AtTop\<rparr>]\<rparr>)"
| "lg_add L (Answered (Inr resp) t) g lo s =
     Returns (s\<lparr>sh_accepted := sh_accepted s + GetAccepted (Some resp),
       sh_locals := (sh_locals s)[g := lo\<lparr>lo_pc := AddedAccepted resp t\<rparr>]\<rparr>)"
| "lg_add L (AddedAccepted resp t) g lo s =
     Returns (s\<lparr>sh_rejected := sh_rejected s + GetRejected (Some resp),
       sh_locals := (sh_locals s)[g := lo\<lparr>lo_pc := AddedRejected t\<rparr>]\<rparr>)"
| "lg_add L (AddedRejected t) g lo s =
     Returns (s\<lparr>sh_locals := (sh_locals s)[g :=
       (if tu_recording t then lo\<lparr>lo_hist := hdr_record L (lo_hist lo) (tu_elapsed t)\<rparr> else lo)\<lparr>lo_pc := AtTop\<rparr>]\<rparr>)"
| "lg_add L pc g lo s = Blocks"

fun lg_next ::
  "'h hdr_lib \<Rightarrow> (nat \<Rightarrow> float64) \<Rightarrow> loadgen_Config \<Rightarrow> lg_label \<Rightarrow> 'h lg_shared \<Rightarrow> 'h lg_shared run" where
  "lg_next L fb cfg (LgCall g t) s =
     (if g < length (sh_locals s)
      then (case lg_call fb cfg g t (sh_locals s ! g) of
              Returns lo \<Rightarrow> Returns (s\<lparr>sh_locals := (sh_locals s)[g := lo]\<rparr>)
            | Blocks \<Rightarrow> Blocks
            | Panics m \<Rightarrow> Panics m)
      else Blocks)"
| "lg_next L fb cfg (LgStop g) s =
     (if g < length (sh_locals s)
      then (case lg_stop cfg (sh_locals s ! g) of
              Returns lo \<Rightarrow> Returns (s\<lparr>sh_locals := (sh_locals s)[g := lo]\<rparr>)
            | Blocks \<Rightarrow> Blocks
            | Panics m \<Rightarrow> Panics m)
      else Blocks)"
| "lg_next L fb cfg (LgAdd g) s =
     (if g < length (sh_locals s)
      then lg_add L (lo_pc (sh_locals s ! g)) g (sh_locals s ! g) s else Blocks)"

text \<open>\<^verbatim>\<open>wg.Wait()\<close> returns, and the result \<^verbatim>\<open>Run\<close> then makes of the shared state.\<close>

definition lg_waited :: "'h lg_shared \<Rightarrow> bool" where
  "lg_waited s \<longleftrightarrow> (\<forall>lo \<in> set (sh_locals s). lo_pc lo = Stopped)"

definition lg_result :: "'h hdr_lib \<Rightarrow> loadgen_Config \<Rightarrow> 'h lg_shared \<Rightarrow> loadgen_Result" where
  "lg_result L cfg s =
     (let win = seconds (lg_Duration cfg)
      in \<lparr>EventsAccepted = sh_accepted s, EventsRejected = sh_rejected s, Errors = sh_errs s, WindowSeconds = win,
          ThroughputEventsPerSec = (if win = 0 then None else round64 (float_of_int (uint (sh_accepted s)) / win)),
          Latency = ComputePercentiles L (hdr_Merge L (map (\<lambda>lo. Some (lo_hist lo)) (sh_locals s)))\<rparr>)"

section \<open>The goroutine that runs alone\<close>

text \<open>What the turn in progress still has to add.\<close>

fun to_accept :: "lg_pc \<Rightarrow> u64" where
  "to_accept (Answered (Inr resp) t) = GetAccepted (Some resp)"
| "to_accept _ = 0"

fun to_reject :: "lg_pc \<Rightarrow> u64" where
  "to_reject (Answered (Inr resp) t) = GetRejected (Some resp)"
| "to_reject (AddedAccepted resp t) = GetRejected (Some resp)"
| "to_reject _ = 0"

fun to_fail :: "lg_pc \<Rightarrow> u64" where
  "to_fail (Answered (Inl err) t) = 1"
| "to_fail _ = 0"

definition recorded :: "'h hdr_lib \<Rightarrow> lg_turn \<Rightarrow> 'h \<Rightarrow> 'h" where
  "recorded L t h = (if tu_recording t then hdr_record L h (tu_elapsed t) else h)"

fun to_record :: "'h hdr_lib \<Rightarrow> lg_pc \<Rightarrow> 'h \<Rightarrow> 'h" where
  "to_record L (Answered (Inr resp) t) h = recorded L t h"
| "to_record L (AddedAccepted resp t) h = recorded L t h"
| "to_record L (AddedRejected t) h = recorded L t h"
| "to_record L _ h = h"

text \<open>A goroutine is where the reference is after the same turns, up to what the turn in progress has to add.\<close>

abbreviation alone :: "'h hdr_lib \<Rightarrow> (nat \<Rightarrow> float64) \<Rightarrow> loadgen_Config \<Rightarrow> nat \<Rightarrow> 'h lg_local \<Rightarrow> 'h lg_state" where
  "alone L fb cfg g lo \<equiv> loadgen_goroutine L fb cfg g (lo_turns lo)"

definition local_ok :: "'h hdr_lib \<Rightarrow> (nat \<Rightarrow> float64) \<Rightarrow> loadgen_Config \<Rightarrow> nat \<Rightarrow> 'h lg_local \<Rightarrow> bool" where
  "local_ok L fb cfg g lo \<longleftrightarrow>
     lo_seq lo = lg_seq (alone L fb cfg g lo) \<and> lo_pushed lo = lg_pushed (alone L fb cfg g lo) \<and>
     to_record L (lo_pc lo) (lo_hist lo) = lg_hist (alone L fb cfg g lo)"

definition shared_ok :: "'h hdr_lib \<Rightarrow> (nat \<Rightarrow> float64) \<Rightarrow> loadgen_Config \<Rightarrow> 'h lg_shared \<Rightarrow> bool" where
  "shared_ok L fb cfg s \<longleftrightarrow>
     length (sh_locals s) = nat (lg_Concurrency cfg) \<and>
     (\<forall>g < length (sh_locals s). local_ok L fb cfg g (sh_locals s ! g)) \<and>
     sh_accepted s + (\<Sum>g < length (sh_locals s). to_accept (lo_pc (sh_locals s ! g))) =
       (\<Sum>g < length (sh_locals s). lg_accepted (alone L fb cfg g (sh_locals s ! g))) \<and>
     sh_rejected s + (\<Sum>g < length (sh_locals s). to_reject (lo_pc (sh_locals s ! g))) =
       (\<Sum>g < length (sh_locals s). lg_rejected (alone L fb cfg g (sh_locals s ! g))) \<and>
     sh_errs s + (\<Sum>g < length (sh_locals s). to_fail (lo_pc (sh_locals s ! g))) =
       (\<Sum>g < length (sh_locals s). lg_errs (alone L fb cfg g (sh_locals s ! g)))"

section \<open>Every step keeps the relation\<close>

lemma sum_update:
  fixes f :: "nat \<Rightarrow> 'a \<Rightarrow> 'b :: ab_group_add"
  assumes "k < length xs"
  shows "(\<Sum>g < length xs. f g (xs[k := y] ! g)) = (\<Sum>g < length xs. f g (xs ! g)) + (f k y - f k (xs ! k))"
proof -
  have k: "k \<in> {..<length xs}" using assms by simp
  have "(\<Sum>g \<in> {..<length xs} - {k}. f g (xs[k := y] ! g)) = (\<Sum>g \<in> {..<length xs} - {k}. f g (xs ! g))"
    by (rule sum.cong) auto
  then show ?thesis
    unfolding sum.remove [OF finite_lessThan k] using assms by simp
qed

lemma balance_update:
  fixes f h :: "nat \<Rightarrow> 'a \<Rightarrow> 'b :: ab_group_add"
  assumes "k < length xs" and "a + (\<Sum>g < length xs. f g (xs ! g)) = (\<Sum>g < length xs. h g (xs ! g))"
    and "a' = a + (h k y - h k (xs ! k)) - (f k y - f k (xs ! k))"
  shows "a' + (\<Sum>g < length xs. f g (xs[k := y] ! g)) = (\<Sum>g < length xs. h g (xs[k := y] ! g))"
  using assms(2) unfolding sum_update [OF assms(1)] assms(3) by (simp add: algebra_simps)

lemma move_ok:
  assumes s: "shared_ok L fb cfg s" and g: "g < length (sh_locals s)" and lo: "sh_locals s ! g = lo"
    and "local_ok L fb cfg g lo'"
    and "a = sh_accepted s + (lg_accepted (alone L fb cfg g lo') - lg_accepted (alone L fb cfg g lo))
      - (to_accept (lo_pc lo') - to_accept (lo_pc lo))"
    and "r = sh_rejected s + (lg_rejected (alone L fb cfg g lo') - lg_rejected (alone L fb cfg g lo))
      - (to_reject (lo_pc lo') - to_reject (lo_pc lo))"
    and "e = sh_errs s + (lg_errs (alone L fb cfg g lo') - lg_errs (alone L fb cfg g lo))
      - (to_fail (lo_pc lo') - to_fail (lo_pc lo))"
  shows "shared_ok L fb cfg (s\<lparr>sh_accepted := a, sh_rejected := r, sh_errs := e, sh_locals := (sh_locals s)[g := lo']\<rparr>)"
proof -
  from s have loc: "\<forall>k < length (sh_locals s). local_ok L fb cfg k (sh_locals s ! k)"
    unfolding shared_ok_def by blast
  have "\<forall>k < length (sh_locals s). local_ok L fb cfg k ((sh_locals s)[g := lo'] ! k)"
    using loc assms(4) g by (simp add: nth_list_update)
  moreover note balance_update [OF g, of "sh_accepted s" "\<lambda>_ x. to_accept (lo_pc x)" "\<lambda>k x. lg_accepted (alone L fb cfg k x)" a lo']
    balance_update [OF g, of "sh_rejected s" "\<lambda>_ x. to_reject (lo_pc x)" "\<lambda>k x. lg_rejected (alone L fb cfg k x)" r lo']
    balance_update [OF g, of "sh_errs s" "\<lambda>_ x. to_fail (lo_pc x)" "\<lambda>k x. lg_errs (alone L fb cfg k x)" e lo']
  ultimately show ?thesis using s unfolding shared_ok_def assms(5-7) lo by auto
qed

lemma goroutine_snoc:
  "loadgen_goroutine L fb cfg g (ts @ [t]) = loadgen_turn L fb cfg g t (loadgen_goroutine L fb cfg g ts)"
  by (simp add: loadgen_goroutine_def)

text \<open>The call of a turn: the reference makes the whole turn, the goroutine has it before it.\<close>

lemma call_ok:
  assumes "local_ok L fb cfg g lo" and "lg_call fb cfg g t lo = Returns lo'"
  shows "local_ok L fb cfg g lo' \<and> lo_pc lo = AtTop \<and>
    lg_accepted (alone L fb cfg g lo') = lg_accepted (alone L fb cfg g lo) + to_accept (lo_pc lo') \<and>
    lg_rejected (alone L fb cfg g lo') = lg_rejected (alone L fb cfg g lo) + to_reject (lo_pc lo') \<and>
    lg_errs (alone L fb cfg g lo') = lg_errs (alone L fb cfg g lo) + to_fail (lo_pc lo')"
proof -
  from assms(2) obtain seq' evs where top: "lo_pc lo = AtTop"
    and b: "gen_batch fb cfg g (tu_now t) (nat (lg_BatchSize cfg)) (lo_seq lo) = (seq', evs)"
    and lo': "lo' = lo\<lparr>lo_seq := seq', lo_pushed := lo_pushed lo @ [\<lparr>Events = evs\<rparr>], lo_turns := lo_turns lo @ [t],
      lo_pc := Answered (tu_answer t \<lparr>Events = evs\<rparr>) t\<rparr>"
    by (auto simp: lg_call_def Let_def split: if_splits prod.splits)
  have seq: "lg_seq (alone L fb cfg g lo) = lo_seq lo" "lg_pushed (alone L fb cfg g lo) = lo_pushed lo"
    "lg_hist (alone L fb cfg g lo) = lo_hist lo"
    using assms(1) top by (simp_all add: local_ok_def)
  show ?thesis
  proof (cases "tu_answer t \<lparr>Events = evs\<rparr>")
    case (Inl err)
    then show ?thesis
      by (simp add: lo' local_ok_def goroutine_snoc loadgen_turn_def seq b top Let_def)
  next
    case (Inr resp)
    then show ?thesis
      by (simp add: lo' local_ok_def goroutine_snoc loadgen_turn_def seq b top Let_def recorded_def)
  qed
qed

lemma lg_add_ok:
  assumes ok: "shared_ok L fb cfg s" and g: "g < length (sh_locals s)"
    and c: "lg_add L (lo_pc (sh_locals s ! g)) g (sh_locals s ! g) s = Returns s'"
  shows "shared_ok L fb cfg s'"
proof -
  let ?lo = "sh_locals s ! g"
  from ok g have lok: "local_ok L fb cfg g ?lo" by (simp add: shared_ok_def)
  note mv = move_ok [OF ok g refl]
  from c consider (failed) err t where "lo_pc ?lo = Answered (Inl err) t" | (accepted) resp t where "lo_pc ?lo = Answered (Inr resp) t"
    | (rejected) resp t where "lo_pc ?lo = AddedAccepted resp t" | (recorded) t where "lo_pc ?lo = AddedRejected t"
    by (cases "(L, lo_pc ?lo, g, ?lo, s)" rule: lg_add.cases) auto
  then show ?thesis
  proof cases
    case failed
    with lok have "local_ok L fb cfg g (?lo\<lparr>lo_pc := AtTop\<rparr>)" by (simp add: local_ok_def)
    from mv [OF this, of "sh_accepted s" "sh_rejected s" "sh_errs s + 1"] c failed show ?thesis by auto
  next
    case accepted
    with lok have "local_ok L fb cfg g (?lo\<lparr>lo_pc := AddedAccepted resp t\<rparr>)" by (simp add: local_ok_def)
    from mv [OF this, of "sh_accepted s + GetAccepted (Some resp)" "sh_rejected s" "sh_errs s"] c accepted show ?thesis by auto
  next
    case rejected
    with lok have "local_ok L fb cfg g (?lo\<lparr>lo_pc := AddedRejected t\<rparr>)" by (simp add: local_ok_def)
    from mv [OF this, of "sh_accepted s" "sh_rejected s + GetRejected (Some resp)" "sh_errs s"] c rejected show ?thesis by auto
  next
    case recorded
    let ?lo' = "(if tu_recording t then ?lo\<lparr>lo_hist := hdr_record L (lo_hist ?lo) (tu_elapsed t)\<rparr> else ?lo)\<lparr>lo_pc := AtTop\<rparr>"
    from lok recorded have "local_ok L fb cfg g ?lo'" by (auto simp: local_ok_def recorded_def)
    from mv [OF this, of "sh_accepted s" "sh_rejected s" "sh_errs s"] c recorded show ?thesis by auto
  qed
qed

lemma lg_next_ok:
  assumes ok: "shared_ok L fb cfg s" and n: "lg_next L fb cfg l s = Returns s'"
  shows "shared_ok L fb cfg s'"
proof (cases l)
  case (LgCall g t)
  with n obtain lo' where g: "g < length (sh_locals s)" and c: "lg_call fb cfg g t (sh_locals s ! g) = Returns lo'"
    and s': "s' = s\<lparr>sh_locals := (sh_locals s)[g := lo']\<rparr>"
    by (auto split: if_splits run.splits)
  from ok g have "local_ok L fb cfg g (sh_locals s ! g)" by (simp add: shared_ok_def)
  note k = call_ok [OF this c]
  from move_ok [OF ok g refl, of lo' "sh_accepted s" "sh_rejected s" "sh_errs s"] k show ?thesis by (simp add: s')
next
  case (LgStop g)
  with n obtain lo' where g: "g < length (sh_locals s)" and c: "lg_stop cfg (sh_locals s ! g) = Returns lo'"
    and s': "s' = s\<lparr>sh_locals := (sh_locals s)[g := lo']\<rparr>"
    by (auto split: if_splits run.splits)
  then have t: "lo_pc (sh_locals s ! g) = AtTop" "lo' = (sh_locals s ! g)\<lparr>lo_pc := Stopped\<rparr>"
    by (auto simp: lg_stop_def split: if_splits)
  from ok g have "local_ok L fb cfg g (sh_locals s ! g)" by (simp add: shared_ok_def)
  with t have "local_ok L fb cfg g lo'" by (simp add: local_ok_def)
  from move_ok [OF ok g refl this, of "sh_accepted s" "sh_rejected s" "sh_errs s"] t show ?thesis by (simp add: s')
next
  case (LgAdd g)
  with n lg_add_ok [OF ok] show ?thesis by (auto split: if_splits)
qed

interpretation lgs: invariant_lts "lg_next L fb cfg" "shared_ok L fb cfg" for L fb cfg
  by unfold_locales (rule lg_next_ok)

lemma lg_start_ok: "lg_start L cfg = Returns s \<Longrightarrow> shared_ok L fb cfg s"
  by (auto simp: lg_start_def shared_ok_def local_ok_def loadgen_goroutine_def split: if_splits)

section \<open>After the deadline\<close>

text \<open>Once \<^verbatim>\<open>runCtx\<close> is done a goroutine finishes the turn it is in and returns at the head of its loop.\<close>

definition lg_wind_down ::
  "'h hdr_lib \<Rightarrow> (nat \<Rightarrow> float64) \<Rightarrow> loadgen_Config \<Rightarrow> nat \<Rightarrow> 'h lg_shared \<Rightarrow> 'h lg_shared run" where
  "lg_wind_down L fb cfg g s =
     (if g < length (sh_locals s) \<and> lo_pc (sh_locals s ! g) = AtTop
      then lg_next L fb cfg (LgStop g) s else lg_next L fb cfg (LgAdd g) s)"

fun pc_rank :: "lg_pc \<Rightarrow> nat" where
  "pc_rank (Answered ans t) = 4"
| "pc_rank (AddedAccepted resp t) = 3"
| "pc_rank (AddedRejected t) = 2"
| "pc_rank AtTop = 1"
| "pc_rank Stopped = 0"

definition lg_rank :: "'h lg_shared \<Rightarrow> nat" where
  "lg_rank s = sum_list (map (\<lambda>lo. pc_rank (lo_pc lo)) (sh_locals s))"

lemma lg_rank_update:
  assumes "g < length (sh_locals s)" and "pc_rank (lo_pc lo') < pc_rank (lo_pc (sh_locals s ! g))"
    and "sh_locals s' = (sh_locals s)[g := lo']"
  shows "lg_rank s' < lg_rank s"
  using sum_list_update_add [OF assms(1), of "\<lambda>lo. pc_rank (lo_pc lo)" lo'] assms(2,3) by (simp add: lg_rank_def)

lemma lg_add_rank:
  assumes "g < length (sh_locals s)" and "lg_add L (lo_pc (sh_locals s ! g)) g (sh_locals s ! g) s = Returns s'"
  shows "lg_rank s' < lg_rank s"
  using assms by (cases "(L, lo_pc (sh_locals s ! g), g, sh_locals s ! g, s)" rule: lg_add.cases)
    (auto intro!: lg_rank_update [OF assms(1)])

lemma lg_wind_down_rank:
  assumes "lg_wind_down L fb cfg g s = Returns s'"
  shows "lg_rank s' < lg_rank s"
proof (cases "g < length (sh_locals s) \<and> lo_pc (sh_locals s ! g) = AtTop")
  case True
  with assms show ?thesis
    by (auto simp: lg_wind_down_def lg_stop_def split: if_splits intro!: lg_rank_update [of g s])
next
  case False
  with assms lg_add_rank [of g s L s'] show ?thesis by (auto simp: lg_wind_down_def split: if_splits)
qed

interpretation lgd: draining_lts "lg_wind_down L fb cfg" "shared_ok L fb cfg" "\<lambda>_. \<not> bad_ticker cfg" lg_waited lg_rank
  for L fb cfg
proof (unfold_locales, goal_cases)
  case (1 s g s')
  then show ?case unfolding lg_wind_down_def by (metis lg_next_ok)
next
  case (3 s g s')
  then show ?case by (simp add: lg_wind_down_rank)
next
  case (4 s)
  then obtain g where g: "g < length (sh_locals s)" "lo_pc (sh_locals s ! g) \<noteq> Stopped"
    by (auto simp: lg_waited_def in_set_conv_nth)
  then have "lg_wind_down L fb cfg g s \<noteq> Blocks \<and> (\<forall>m. lg_wind_down L fb cfg g s \<noteq> Panics m)"
    using 4(2) by (cases "(L, lo_pc (sh_locals s ! g), g, sh_locals s ! g, s)" rule: lg_add.cases)
      (auto simp: lg_wind_down_def lg_stop_def)
  then show ?case by (metis run.exhaust)
qed simp

section \<open>Totals\<close>

lemma sum_upt: "(\<Sum>g < n. f g) = sum_list (map f [0..<n])"
  by (simp add: interv_sum_list_conv_sum_set_nat atLeast0LessThan)

lemma waited_totals:
  assumes "shared_ok L fb cfg s" and "lg_waited s"
  shows "sh_accepted s = (\<Sum>g < nat (lg_Concurrency cfg). lg_accepted (alone L fb cfg g (sh_locals s ! g)))"
    and "sh_rejected s = (\<Sum>g < nat (lg_Concurrency cfg). lg_rejected (alone L fb cfg g (sh_locals s ! g)))"
    and "sh_errs s = (\<Sum>g < nat (lg_Concurrency cfg). lg_errs (alone L fb cfg g (sh_locals s ! g)))"
    and "map (\<lambda>lo. Some (lo_hist lo)) (sh_locals s) =
      map (\<lambda>g. Some (lg_hist (alone L fb cfg g (sh_locals s ! g)))) [0..<nat (lg_Concurrency cfg)]"
proof -
  have st: "lo_pc (sh_locals s ! g) = Stopped" if "g < length (sh_locals s)" for g
    using assms(2) that by (simp add: lg_waited_def)
  from assms(1) have n: "length (sh_locals s) = nat (lg_Concurrency cfg)" by (simp add: shared_ok_def)
  from assms(1) have l: "local_ok L fb cfg g (sh_locals s ! g)" if "g < length (sh_locals s)" for g
    using that by (simp add: shared_ok_def)
  show "sh_accepted s = (\<Sum>g < nat (lg_Concurrency cfg). lg_accepted (alone L fb cfg g (sh_locals s ! g)))"
    and "sh_rejected s = (\<Sum>g < nat (lg_Concurrency cfg). lg_rejected (alone L fb cfg g (sh_locals s ! g)))"
    and "sh_errs s = (\<Sum>g < nat (lg_Concurrency cfg). lg_errs (alone L fb cfg g (sh_locals s ! g)))"
    using assms(1) st by (simp_all add: shared_ok_def)
  show "map (\<lambda>lo. Some (lo_hist lo)) (sh_locals s) =
      map (\<lambda>g. Some (lg_hist (alone L fb cfg g (sh_locals s ! g)))) [0..<nat (lg_Concurrency cfg)]"
    using l st n by (intro nth_equalityI) (simp_all add: local_ok_def)
qed

text \<open>If every answer adds up to its request, so do the counters of a goroutine, a failed call counting as a whole batch.\<close>

definition answers_add_up :: "lg_turn \<Rightarrow> bool" where
  "answers_add_up t \<longleftrightarrow>
     (\<forall>req resp. tu_answer t req = Inr resp \<longrightarrow> Accepted resp + Rejected resp = of_nat (length (Events req)))"

lemma goroutine_adds_up:
  fixes cfg :: loadgen_Config
  assumes "\<And>t. t \<in> set ts \<Longrightarrow> answers_add_up t"
  defines "B \<equiv> nat (lg_BatchSize cfg)"
  shows "lg_accepted (loadgen_goroutine L fb cfg g ts) + lg_rejected (loadgen_goroutine L fb cfg g ts) +
    lg_errs (loadgen_goroutine L fb cfg g ts) * of_nat B = of_nat (length ts * B)"
  using assms(1)
proof (induction ts rule: rev_induct)
  case (snoc t ts)
  let ?s = "loadgen_goroutine L fb cfg g ts"
  let ?req = "\<lparr>Events = map (\<lambda>k. Some (gen_event fb cfg g (tu_now t) (lg_seq ?s + of_nat (Suc k)))) [0..<B]\<rparr>"
  from snoc have ih: "lg_accepted ?s + lg_rejected ?s + lg_errs ?s * of_nat B = of_nat (length ts * B)" by simp
  show ?case
  proof (cases "tu_answer t ?req")
    case (Inl err)
    then show ?thesis
      using ih by (simp add: goroutine_snoc loadgen_turn_def gen_batch_eq B_def Let_def algebra_simps)
  next
    case (Inr resp)
    with snoc.prems [of t] have "Accepted resp + Rejected resp = of_nat B" by (simp add: answers_add_up_def)
    then show ?thesis
      using ih Inr by (simp add: goroutine_snoc loadgen_turn_def gen_batch_eq B_def Let_def GetAccepted_def GetRejected_def
          algebra_simps split: if_split)
  qed
qed (simp add: loadgen_goroutine_def)

lemma waited_adds_up:
  assumes "shared_ok L fb cfg s" and "lg_waited s"
    and "\<And>lo t. lo \<in> set (sh_locals s) \<Longrightarrow> t \<in> set (lo_turns lo) \<Longrightarrow> answers_add_up t"
  shows "sh_accepted s + sh_rejected s + sh_errs s * of_nat (nat (lg_BatchSize cfg)) =
    of_nat (\<Sum>g < nat (lg_Concurrency cfg). length (lo_turns (sh_locals s ! g)) * nat (lg_BatchSize cfg))"
proof -
  note t = waited_totals [OF assms(1,2)]
  from assms(1) have n: "length (sh_locals s) = nat (lg_Concurrency cfg)" by (simp add: shared_ok_def)
  have "sh_accepted s + sh_rejected s + sh_errs s * of_nat (nat (lg_BatchSize cfg)) =
    (\<Sum>g < nat (lg_Concurrency cfg). lg_accepted (alone L fb cfg g (sh_locals s ! g)) +
       lg_rejected (alone L fb cfg g (sh_locals s ! g)) +
       lg_errs (alone L fb cfg g (sh_locals s ! g)) * of_nat (nat (lg_BatchSize cfg)))"
    unfolding t(1-3) by (simp add: sum.distrib sum_distrib_right)
  also have "\<dots> = (\<Sum>g < nat (lg_Concurrency cfg). of_nat (length (lo_turns (sh_locals s ! g)) * nat (lg_BatchSize cfg)))"
    using assms(3) n by (intro sum.cong refl goroutine_adds_up) (auto simp: in_set_conv_nth)
  finally show ?thesis by simp
qed

text \<open>
  C13. Interleaving does not matter: from the start of \<^verbatim>\<open>Run\<close>, under every schedule of the goroutines and of their atomic additions, when
  \<^verbatim>\<open>wg.Wait()\<close> returns the result made of the shared counters and the histograms is the one of the goroutines run one
  after the other with the same turns.
\<close>

theorem loadgen_interleavings_agree:
  assumes "lg_start L cfg = Returns s0" and "exec (lg_next L fb cfg) ls s0 = Some s" and "lg_waited s"
    and "dial (lg_Target cfg) = None"
  shows "loadgen_Run L fb dial cfg (\<lambda>g. lo_turns (sh_locals s ! g)) = Inr (lg_result L cfg s)"
proof -
  have "shared_ok L fb cfg s" by (rule lgs.exec_ok [OF assms(2) lg_start_ok [OF assms(1)]])
  note t = waited_totals [OF this assms(3)]
  show ?thesis
    unfolding loadgen_Run_def lg_result_def t(4) assms(4)
    unfolding t(1-3) sum_upt by (simp add: comp_def Let_def)
qed

definition ex_turn :: "u64 \<Rightarrow> lg_turn" where
  "ex_turn a = \<lparr>tu_now = 7, tu_answer = (\<lambda>req. Inr \<lparr>Accepted = a, Rejected = 2 - a\<rparr>), tu_elapsed = 5, tu_recording = True\<rparr>"

text \<open>Two goroutines whose calls overlap, so that the additions of the first come after those of the second.\<close>

definition ex_overlap :: "lg_label list" where
  "ex_overlap = [LgCall 0 (ex_turn 1), LgCall 1 (ex_turn 2), LgAdd 1, LgAdd 0, LgAdd 1, LgAdd 1, LgStop 1, LgAdd 0, LgAdd 0, LgStop 0]"

definition ex_overlap_start :: "int list lg_shared" where
  "ex_overlap_start = \<lparr>sh_accepted = 0, sh_rejected = 0, sh_errs = 0, sh_locals = replicate 2
     \<lparr>lo_seq = 0, lo_hist = [], lo_pushed = [], lo_pc = AtTop, lo_turns = []\<rparr>\<rparr>"

definition ex_overlap_end :: "int list lg_shared" where
  "ex_overlap_end = \<lparr>sh_accepted = 3, sh_rejected = 1, sh_errs = 0, sh_locals =
     map (\<lambda>g. \<lparr>lo_seq = 2, lo_hist = [5], lo_pushed =
        [\<lparr>Events = map (\<lambda>k. Some (gen_event (\<lambda>_. 0) ex_cfg g 7 (of_nat (Suc k)))) [0..<2]\<rparr>],
        lo_pc = Stopped, lo_turns = [ex_turn (of_nat (Suc g))]\<rparr>) [0..<2]\<rparr>"

lemma ex_overlap_starts: "lg_start ex_hdr ex_cfg = Returns ex_overlap_start"
  by (simp add: lg_start_def ex_overlap_start_def ex_cfg_def ex_hdr_def hdr_New_def)

lemma ex_overlap_runs: "exec (lg_next ex_hdr (\<lambda>_. 0) ex_cfg) ex_overlap ex_overlap_start = Some ex_overlap_end"
proof -
  have c: "lg_BatchSize ex_cfg = 2" "bad_ticker ex_cfg = False" "hdr_record ex_hdr h v = h @ [v]" for h v
    by (simp_all add: ex_cfg_def bad_ticker_def loadgen_interval_def ex_hdr_def)
  show ?thesis
    by (simp add: ex_overlap_def exec_Cons_iff ex_overlap_start_def lg_call_def lg_stop_def c gen_batch_eq ex_turn_def
        GetAccepted_def GetRejected_def ex_overlap_end_def numeral_2_eq_2 Let_def)
qed

theorem loadgen_interleavings_agree_witness:
  "loadgen_Run ex_hdr (\<lambda>_. 0) (\<lambda>_. None) ex_cfg (\<lambda>g. lo_turns (sh_locals ex_overlap_end ! g)) =
     Inr (lg_result ex_hdr ex_cfg ex_overlap_end) \<and> EventsAccepted (lg_result ex_hdr ex_cfg ex_overlap_end) = 3"
  using loadgen_interleavings_agree [OF ex_overlap_starts ex_overlap_runs, of "\<lambda>_. None"]
  by (simp add: lg_waited_def ex_overlap_end_def lg_result_def Let_def)

end
