(* ===== verification/Load_Run.thy ===== *)
theory Load_Run
  imports Grpc Loadgen_Race Gateway_Properties
begin

text \<open>
  The load generator against the gateway: its calls go through the client stub, the transport and the handler to \<^verbatim>\<open>Push\<close>, and
  what it reports accounts for what it sent.
\<close>

lemma push_sums:
  assumes "Push ops sched req s = Returns (s', resp)"
  shows "Accepted resp + Rejected resp = of_nat (length (GetEvents req))"
proof -
  from Push_result [OF assms] obtain vs tr s1 where
    "push_result ops sched (GetEvents req) (s, \<lparr>Accepted = 0, Rejected = 0\<rparr>) (s1, resp) vs tr" by metis
  then have "length vs = length (GetEvents req)" "Accepted resp = of_nat (count_list vs True)"
    "Rejected resp = of_nat (count_list vs False)" by (simp_all add: push_result_def)
  with count_bools [of vs] show ?thesis by (metis of_nat_add)
qed

text \<open>
  A call of the stub is a call of the gateway: when \<^verbatim>\<open>IngestClient.Push\<close> returns an answer from a server on which the gateway is registered,
  that answer is the one \<^verbatim>\<open>Server.Push\<close> gave to the request as it was received, with the same events, and its two
  counts add up to the number of events the client sent.
\<close>

theorem client_push_is_gateway_push:
  assumes "grpc_transport invoke" and "gateway_services ops sched = Returns reg"
    and "ingestClient_Push invoke reg req opts s = Returns (s', Inr resp)"
  shows "Push ops sched (Some (received req)) s = Returns (s', resp) \<and>
    map event_of_telemetry (GetEvents (Some (received req))) = map event_of_telemetry (GetEvents req) \<and>
    Accepted resp + Rejected resp = of_nat (length (GetEvents req))"
proof -
  from assms(2) have "RegisterIngestServer [] ByValue (gateway_push ops sched) = Returns reg"
    by (simp add: gateway_services_def)
  from grpc_transport.client_push_answered [OF assms(1,3) this]
  have p: "Push ops sched (Some (received req)) s = Returns (s', resp)" by (simp add: gateway_push_answer)
  from push_sums [OF p] p show ?thesis by (simp add: received_events)
qed

lemma received_ex_request: "Some (received ex_request) = ex_request"
  by (simp add: received_def ex_request_def GetEvents_def ex_tele_def)

lemma ex_client_push:
  "ingestClient_Push local_invoke [Ingest_ServiceDesc (gateway_push picky_ops calm)] ex_request []
     (gateway_New (ex_pool 1 2) True (Some [])) =
   Returns (\<lparr>srv_Pool = (ex_pool 1 2)\<lparr>queue := [ex_ev ''a'', ex_ev ''b'']\<rparr>, Shed = True,
        Metrics = Some [IngestTotal_Inc, IngestTotal_Inc, ShedTotal_Inc, RequestLatencySeconds_Observe],
        g_trace = [LSend (ex_ev ''a''), LSend (ex_ev ''b'')]\<rparr>, Inr \<lparr>Accepted = 2, Rejected = 1\<rparr>)"
proof -
  have "gateway_push picky_ops calm ex_request (gateway_New (ex_pool 1 2) True (Some [])) =
    Returns (\<lparr>srv_Pool = (ex_pool 1 2)\<lparr>queue := [ex_ev ''a'', ex_ev ''b'']\<rparr>, Shed = True,
        Metrics = Some [IngestTotal_Inc, IngestTotal_Inc, ShedTotal_Inc, RequestLatencySeconds_Observe],
        g_trace = [LSend (ex_ev ''a''), LSend (ex_ev ''b'')]\<rparr>, Inr \<lparr>Accepted = 2, Rejected = 1\<rparr>)"
    unfolding gateway_push_def ex_shed_push by simp
  then show ?thesis
    by (simp add: ingestClient_Push_def local_invoke_def method_handler_def Ingest_ServiceDesc_def
        Ingest_Push_FullMethodName_def Ingest_Push_Handler_def received_ex_request)
qed

theorem client_push_is_gateway_push_witness:
  "Push picky_ops calm (Some (received ex_request)) (gateway_New (ex_pool 1 2) True (Some [])) =
     Returns (\<lparr>srv_Pool = (ex_pool 1 2)\<lparr>queue := [ex_ev ''a'', ex_ev ''b'']\<rparr>, Shed = True,
        Metrics = Some [IngestTotal_Inc, IngestTotal_Inc, ShedTotal_Inc, RequestLatencySeconds_Observe],
        g_trace = [LSend (ex_ev ''a''), LSend (ex_ev ''b'')]\<rparr>, \<lparr>Accepted = 2, Rejected = 1\<rparr>) \<and>
   (2 :: u64) + 1 = of_nat (length (GetEvents ex_request))"
  using client_push_is_gateway_push [OF gl.grpc_transport_axioms gateway_services_eq ex_client_push] by simp

section \<open>A run of the load generator\<close>

text \<open>An answer that a turn gets without an error comes from the gateway, through the stub.\<close>

definition answered_by_gateway ::
  "('s, 'h) Server invoke \<Rightarrow> 's sink_ops \<Rightarrow> lg_turn \<Rightarrow> bool" where
  "answered_by_gateway invoke ops t \<longleftrightarrow>
     (\<forall>req resp. tu_answer t req = Inr resp \<longrightarrow>
        (\<exists>sched reg s s'. gateway_services ops sched = Returns reg \<and>
           ingestClient_Push invoke reg (Some req) [] s = Returns (s', Inr resp)))"

lemma gateway_answers_add_up:
  assumes "grpc_transport invoke" and "answered_by_gateway invoke ops t"
  shows "answers_add_up t"
  unfolding answers_add_up_def
proof (intro allI impI)
  fix req resp assume "tu_answer t req = Inr resp"
  with assms(2) obtain sched reg s s' where r: "gateway_services ops sched = Returns reg"
    and c: "ingestClient_Push invoke reg (Some req) [] s = Returns (s', Inr resp)"
    unfolding answered_by_gateway_def by blast
  from r have "RegisterIngestServer [] ByValue (gateway_push ops sched) = Returns reg"
    by (simp add: gateway_services_def)
  from grpc_transport.client_push_answered [OF assms(1) c this]
  have "Push ops sched (Some (received (Some req))) s = Returns (s', resp)" by (simp add: gateway_push_answer)
  from push_sums [OF this] show "Accepted resp + Rejected resp = of_nat (length (Events req))"
    by (simp add: GetEvents_def received_def)
qed

text \<open>Every request of a run carries a full batch.\<close>

lemma goroutine_pushes_batches:
  "length (concat (map Events (lg_pushed (loadgen_goroutine L fb cfg g ts)))) = length ts * nat (lg_BatchSize cfg)"
  by (induction ts rule: rev_induct)
    (simp_all add: loadgen_goroutine_def loadgen_turn_def gen_batch_eq Let_def split: sum.split)

lemma run_pushes_batches:
  assumes "shared_ok L fb cfg s"
  shows "(\<Sum>lo\<leftarrow>sh_locals s. length (concat (map Events (lo_pushed lo)))) =
    (\<Sum>g < nat (lg_Concurrency cfg). length (lo_turns (sh_locals s ! g)) * nat (lg_BatchSize cfg))"
  unfolding sum_list_sum_nth using assms
  by (auto simp: shared_ok_def local_ok_def goroutine_pushes_batches atLeast0LessThan intro!: sum.cong)

text \<open>
  C23. The reported numbers account for every event: a run of the load generator whose successful calls are answered by the gateway, under any
  schedule of its goroutines, reports accepted, rejected and failed events that together are the events it sent (a failed call counting as
  one batch; in 64-bit arithmetic).
\<close>

theorem load_run_accounts_for_every_event:
  assumes "grpc_transport invoke" and "lg_start L cfg = Returns s0" and "exec (lg_next L fb cfg) ls s0 = Some s"
    and "lg_waited s"
    and "\<And>lo t. lo \<in> set (sh_locals s) \<Longrightarrow> t \<in> set (lo_turns lo) \<Longrightarrow> answered_by_gateway invoke ops t"
  shows "EventsAccepted (lg_result L cfg s) + EventsRejected (lg_result L cfg s) +
      Errors (lg_result L cfg s) * of_nat (nat (lg_BatchSize cfg)) =
    of_nat (\<Sum>lo\<leftarrow>sh_locals s. length (concat (map Events (lo_pushed lo))))"
proof -
  have ok: "shared_ok L fb cfg s" by (rule lgs.exec_ok [OF assms(3) lg_start_ok [OF assms(2)]])
  show ?thesis
    unfolding run_pushes_batches [OF ok] lg_result_def Let_def
    using waited_adds_up [OF ok assms(4)] gateway_answers_add_up [OF assms(1,5)] by simp
qed

text \<open>A call to a shedding gateway whose queue has one free place.\<close>

definition ex_call :: "IngestRequest \<Rightarrow> go_error + IngestResponse" where
  "ex_call req =
     (case ingestClient_Push local_invoke [Ingest_ServiceDesc (gateway_push picky_ops calm)] (Some req) []
             (gateway_New (ex_pool 0 1) True None) of
        Returns (s, ans) \<Rightarrow> ans
      | _ \<Rightarrow> Inl (ErrorText ''no answer''))"

definition ex_gateway_turn :: lg_turn where
  "ex_gateway_turn = \<lparr>tu_now = 7, tu_answer = ex_call, tu_elapsed = 5, tu_recording = True\<rparr>"

lemma ex_call_two: "ex_call \<lparr>Events = [Some a, Some b]\<rparr> = Inr \<lparr>Accepted = 1, Rejected = 1\<rparr>"
  by (simp add: ex_call_def ingestClient_Push_def local_invoke_def method_handler_def Ingest_ServiceDesc_def
      Ingest_Push_FullMethodName_def Ingest_Push_Handler_def received_def GetEvents_def gateway_push_def
      Push_def gateway_New_def push_event_def calm_def push_shed_def TrySubmit_def chan_send_def ex_pool_def
      observe_def Let_def)

lemma ex_turn_answered: "answered_by_gateway (local_invoke :: (nat, nat) Server invoke) picky_ops ex_gateway_turn"
  unfolding answered_by_gateway_def
proof (intro allI impI)
  fix req resp assume "tu_answer ex_gateway_turn req = Inr resp"
  then obtain s' where "ingestClient_Push local_invoke [Ingest_ServiceDesc (gateway_push picky_ops calm)] (Some req) []
      (gateway_New (ex_pool 0 1) True None) = Returns (s', Inr resp)"
    by (auto simp: ex_gateway_turn_def ex_call_def split: run.splits prod.splits)
  then show "\<exists>sched reg (s :: (nat, nat) Server) s'. gateway_services picky_ops sched = Returns reg \<and>
      ingestClient_Push local_invoke reg (Some req) [] s = Returns (s', Inr resp)"
    using gateway_services_eq by blast
qed

definition ex_load_end :: "int list lg_shared" where
  "ex_load_end = \<lparr>sh_accepted = 1, sh_rejected = 1, sh_errs = 0, sh_locals =
     [\<lparr>lo_seq = 2, lo_hist = [5], lo_pushed =
        [\<lparr>Events = map (\<lambda>k. Some (gen_event (\<lambda>_. 0) ex_cfg 0 7 (of_nat (Suc k)))) [0..<2]\<rparr>],
        lo_pc = Stopped, lo_turns = [ex_gateway_turn]\<rparr>,
      \<lparr>lo_seq = 0, lo_hist = [], lo_pushed = [], lo_pc = Stopped, lo_turns = []\<rparr>]\<rparr>"

lemma ex_load_runs:
  "exec (lg_next ex_hdr (\<lambda>_. 0) ex_cfg)
     [LgCall 0 ex_gateway_turn, LgStop 1, LgAdd 0, LgAdd 0, LgAdd 0, LgStop 0] ex_overlap_start = Some ex_load_end"
proof -
  have c: "lg_BatchSize ex_cfg = 2" "bad_ticker ex_cfg = False" "hdr_record ex_hdr h v = h @ [v]" for h v
    by (simp_all add: ex_cfg_def bad_ticker_def loadgen_interval_def ex_hdr_def)
  show ?thesis
    by (simp add: exec_Cons_iff ex_overlap_start_def lg_call_def lg_stop_def c gen_batch_eq ex_gateway_turn_def
        ex_call_two GetAccepted_def GetRejected_def ex_load_end_def numeral_2_eq_2 Let_def)
qed

theorem load_run_accounts_for_every_event_witness:
  "EventsAccepted (lg_result ex_hdr ex_cfg ex_load_end) + EventsRejected (lg_result ex_hdr ex_cfg ex_load_end) +
     Errors (lg_result ex_hdr ex_cfg ex_load_end) * 2 =
   of_nat (\<Sum>lo\<leftarrow>sh_locals ex_load_end. length (concat (map Events (lo_pushed lo))))"
proof -
  have "lg_waited ex_load_end" "t \<in> set (lo_turns lo) \<Longrightarrow> t = ex_gateway_turn" "lg_BatchSize ex_cfg = 2"
    if "lo \<in> set (sh_locals ex_load_end)" for lo t
    using that by (auto simp: lg_waited_def ex_load_end_def ex_cfg_def)
  then show ?thesis
    using load_run_accounts_for_every_event [OF gl.grpc_transport_axioms ex_overlap_starts ex_load_runs, of picky_ops]
      ex_turn_answered by (auto simp: ex_load_end_def lg_waited_def ex_cfg_def)
qed

end
