(* ===== verification/Protobuf.thy ===== *)
theory Protobuf
  imports Wire
begin

text \<open>
  The proto3 wire format of \<^verbatim>\<open>TelemetryEvent\<close>.  The struct tags of \<^verbatim>\<open>gen/sluice/v1/telemetry.pb.go\<close> fix the field
  numbers and wire kinds (\<open>telemetry_tags\<close>); the protobuf runtime that reads them is outside the repository and stays the
  parameter \<open>marshal\<close>, \<open>unmarshal\<close> of the pipeline.  This theory gives that parameter an instance written from the public
  encoding specification over those tags, proves that it meets the contract of theory \<open>Wire\<close>, and states
  the part of the specification the malformed records of \<^verbatim>\<open>cmd/injectmalformed\<close> rely on.
\<close>

section \<open>The struct tags\<close>

datatype wire_kind = KVarint | KFixed64 | KBytes

record field_tag =
  ft_number :: nat
  ft_kind :: wire_kind
  ft_name :: string

definition telemetry_tags :: "field_tag list" where
  "telemetry_tags =
     [\<lparr>ft_number = 1, ft_kind = KBytes, ft_name = ''device_id''\<rparr>,
      \<lparr>ft_number = 2, ft_kind = KBytes, ft_name = ''idempotency_key''\<rparr>,
      \<lparr>ft_number = 3, ft_kind = KVarint, ft_name = ''event_time_unix_nanos''\<rparr>,
      \<lparr>ft_number = 4, ft_kind = KBytes, ft_name = ''metric''\<rparr>,
      \<lparr>ft_number = 5, ft_kind = KFixed64, ft_name = ''value''\<rparr>]"

fun wire_type :: "wire_kind \<Rightarrow> nat" where
  "wire_type KVarint = 0"
| "wire_type KFixed64 = 1"
| "wire_type KBytes = 2"

section \<open>Varints\<close>

text \<open>Seven bits a byte, least significant first, the high bit set on all but the last.\<close>

fun varint :: "nat \<Rightarrow> bytes" where
  "varint n = (if n < 128 then [char_of n] else char_of (n mod 128 + 128) # varint (n div 128))"

declare varint.simps [simp del]

text \<open>At most \<open>k\<close> bytes are read; the tenth byte of a varint may only add the 64th bit.\<close>

fun read_varint :: "nat \<Rightarrow> bytes \<Rightarrow> (nat \<times> bytes) option" where
  "read_varint 0 bs = None"
| "read_varint (Suc k) [] = None"
| "read_varint (Suc k) (b # bs) =
     (let v = of_char b :: nat
      in if v < 128 then (if k = 0 \<and> 1 < v then None else Some (v, bs))
         else map_option (\<lambda>(w, rest). (v - 128 + 128 * w, rest)) (read_varint k bs))"

text \<open>What fits into \<open>k\<close> bytes: seven bits each, one bit in the last one.\<close>

fun varint_bound :: "nat \<Rightarrow> nat" where
  "varint_bound 0 = 0"
| "varint_bound (Suc k) = (if k = 0 then 2 else 128 * varint_bound k)"

lemma read_varint_varint:
  assumes "n < varint_bound k"
  shows "read_varint k (varint n @ bs) = Some (n, bs)"
  using assms
proof (induction k arbitrary: n)
  case (Suc k)
  show ?case
  proof (cases "n < 128")
    case True
    with Suc.prems show ?thesis by (auto simp: varint.simps [of n])
  next
    case False
    with Suc.prems have "k \<noteq> 0" by (auto split: if_splits)
    with Suc.prems have "n div 128 < varint_bound k"
      by (simp add: less_mult_imp_div_less mult.commute)
    from Suc.IH [OF this] False show ?thesis
      by (simp add: varint.simps [of n])
  qed
qed simp

lemma varint_bound_Suc: "varint_bound (Suc k) = 2 * 128 ^ k"
  by (induction k) simp_all

lemma read_varint_bound: "read_varint k bs = Some (n, rest) \<Longrightarrow> n < varint_bound k"
proof (induction k bs arbitrary: n rest rule: read_varint.induct)
  case (3 k b bs)
  have "of_char b < (256 :: nat)" by simp
  show ?case
  proof (cases "of_char b < (128 :: nat)")
    case True
    moreover have "(128 :: nat) \<le> 2 * 128 ^ k" if "k \<noteq> 0"
      using that self_le_power [of "128 :: nat" k] by simp
    ultimately show ?thesis
      using "3.prems" by (cases "k = 0") (auto simp: Let_def varint_bound_Suc simp del: varint_bound.simps(2) split: if_splits)
  next
    case False
    with "3.prems" obtain w where "read_varint k bs = Some (w, rest)" and n: "n = of_char b - 128 + 128 * w"
      by (auto simp: Let_def)
    with "3.IH" [OF refl False] have "w < varint_bound k" by blast
    moreover from this have "k \<noteq> 0" by (cases k) simp_all
    moreover have "of_char b - 128 < (128 :: nat)" using \<open>of_char b < (256 :: nat)\<close> by arith
    ultimately show ?thesis using n by simp
  qed
qed simp_all

lemma varint_bound_10: "varint_bound 10 = 2 ^ 64"
  using varint_bound_Suc [of 9] by simp

lemma read_varint_shorter: "read_varint k bs = Some (n, rest) \<Longrightarrow> length rest < length bs"
proof (induction k bs arbitrary: n rest rule: read_varint.induct)
  case (3 k b bs)
  then show ?case by (force simp: Let_def split: if_splits)
qed simp_all

section \<open>Little-endian words\<close>

fun le_bytes :: "nat \<Rightarrow> nat \<Rightarrow> bytes" where
  "le_bytes 0 n = []"
| "le_bytes (Suc k) n = char_of (n mod 256) # le_bytes k (n div 256)"

fun le_nat :: "bytes \<Rightarrow> nat" where
  "le_nat [] = 0"
| "le_nat (b # bs) = of_char b + 256 * le_nat bs"

lemma length_le_bytes [simp]: "length (le_bytes k n) = k"
  by (induction k arbitrary: n) simp_all

lemma le_nat_le_bytes: "n < 256 ^ k \<Longrightarrow> le_nat (le_bytes k n) = n"
proof (induction k arbitrary: n)
  case (Suc k)
  from Suc.prems have "n div 256 < 256 ^ k" by (simp add: less_mult_imp_div_less mult.commute)
  from Suc.IH [OF this] show ?case by simp
qed simp

section \<open>Fields\<close>

datatype wire_value = VVarint nat | VFixed64 bytes | VBytes bytes | VFixed32 bytes

fun wire_type_of :: "wire_value \<Rightarrow> nat" where
  "wire_type_of (VVarint n) = 0"
| "wire_type_of (VFixed64 b) = 1"
| "wire_type_of (VBytes b) = 2"
| "wire_type_of (VFixed32 b) = 5"

fun put_value :: "wire_value \<Rightarrow> bytes" where
  "put_value (VVarint n) = varint n"
| "put_value (VFixed64 b) = b"
| "put_value (VBytes b) = varint (length b) @ b"
| "put_value (VFixed32 b) = b"

definition put_field :: "nat \<times> wire_value \<Rightarrow> bytes" where
  "put_field f = varint (fst f * 8 + wire_type_of (snd f)) @ put_value (snd f)"

definition take_exactly :: "nat \<Rightarrow> bytes \<Rightarrow> (bytes \<times> bytes) option" where
  "take_exactly n bs = (if n \<le> length bs then Some (take n bs, drop n bs) else None)"

text \<open>
  Wire types 6 and 7 are reserved, and 3 and 4 are the groups of proto2, of which no field of the
  repository is one: none of them is read.
\<close>

definition get_value :: "nat \<Rightarrow> bytes \<Rightarrow> (wire_value \<times> bytes) option" where
  "get_value wt bs =
     (if wt = 0 then map_option (\<lambda>(n, r). (VVarint n, r)) (read_varint 10 bs)
      else if wt = 1 then map_option (\<lambda>(b, r). (VFixed64 b, r)) (take_exactly 8 bs)
      else if wt = 2 then
        (case read_varint 10 bs of
           None \<Rightarrow> None
         | Some (n, r) \<Rightarrow> map_option (\<lambda>(b, r'). (VBytes b, r')) (take_exactly n r))
      else if wt = 5 then map_option (\<lambda>(b, r). (VFixed32 b, r)) (take_exactly 4 bs)
      else None)"

definition max_field_number :: nat where
  "max_field_number = 2 ^ 29 - 1"

definition get_field :: "bytes \<Rightarrow> ((nat \<times> wire_value) \<times> bytes) option" where
  "get_field bs =
     (case read_varint 10 bs of
        None \<Rightarrow> None
      | Some (tag, r) \<Rightarrow>
          (if tag div 8 = 0 \<or> max_field_number < tag div 8 then None
           else map_option (\<lambda>(v, r'). ((tag div 8, v), r')) (get_value (tag mod 8) r)))"

lemma get_value_length: "get_value wt bs = Some (v, r) \<Longrightarrow> length r \<le> length bs"
  by (auto simp: get_value_def take_exactly_def split: if_splits option.splits dest!: read_varint_shorter)

lemma get_field_shorter: "get_field bs = Some (f, r) \<Longrightarrow> length r < length bs"
  by (auto simp: get_field_def split: if_splits option.splits
      dest!: read_varint_shorter get_value_length)

function get_fields :: "bytes \<Rightarrow> (nat \<times> wire_value) list option" where
  "get_fields bs =
     (if bs = [] then Some []
      else case get_field bs of
        None \<Rightarrow> None
      | Some (f, r) \<Rightarrow> map_option ((#) f) (get_fields r))"
  by pat_completeness auto
termination by (relation "measure length") (auto dest: get_field_shorter)

declare get_fields.simps [simp del]

text \<open>A field that can be written, and that reading gives it back.\<close>

fun value_fits :: "wire_value \<Rightarrow> bool" where
  "value_fits (VVarint n) \<longleftrightarrow> n < 2 ^ 64"
| "value_fits (VFixed64 b) \<longleftrightarrow> length b = 8"
| "value_fits (VBytes b) \<longleftrightarrow> length b < 2 ^ 64"
| "value_fits (VFixed32 b) \<longleftrightarrow> length b = 4"

definition field_fits :: "nat \<times> wire_value \<Rightarrow> bool" where
  "field_fits f \<longleftrightarrow> 0 < fst f \<and> fst f \<le> max_field_number \<and> value_fits (snd f)"

lemma wire_type_less: "wire_type_of v < 8"
  by (cases v) simp_all

lemma read_varint_64 [simp]: "n < 2 ^ 64 \<Longrightarrow> read_varint 10 (varint n @ bs) = Some (n, bs)"
  using read_varint_varint [of n 10 bs] varint_bound_10 by simp

lemma get_put_value:
  assumes "value_fits v"
  shows "get_value (wire_type_of v) (put_value v @ bs) = Some (v, bs)"
  using assms by (cases v) (simp_all add: get_value_def take_exactly_def)

lemma get_put_field:
  assumes "field_fits f"
  shows "get_field (put_field f @ bs) = Some (f, bs)"
proof -
  let ?tag = "fst f * 8 + wire_type_of (snd f)"
  note w = wire_type_less [of "snd f"]
  have "?tag < 2 ^ 64" using assms w by (simp add: field_fits_def max_field_number_def)
  moreover have "?tag div 8 = fst f" "?tag mod 8 = wire_type_of (snd f)" using w by simp_all
  ultimately show ?thesis
    using assms get_put_value [of "snd f" bs]
    by (simp add: get_field_def put_field_def field_fits_def)
qed

lemma put_field_not_Nil [simp]: "put_field f \<noteq> []"
  by (simp add: put_field_def varint.simps)

lemma get_fields_Nil [simp]: "get_fields [] = Some []"
  by (simp add: get_fields.simps)

lemma get_fields_put:
  "list_all field_fits fs \<Longrightarrow> get_fields (concat (map put_field fs)) = Some fs"
  by (induction fs) (simp_all add: get_put_field get_fields.simps)

section \<open>Strings\<close>

text \<open>
  \<^verbatim>\<open>utf8.Valid\<close>: the length of the well-formed sequence a byte string starts with, zero when there is none.  Overlong
  forms, surrogates and code points past U+10FFFF are excluded by the bounds on the second byte.
\<close>

definition cont_byte :: "nat \<Rightarrow> bool" where
  "cont_byte c \<longleftrightarrow> 0x80 \<le> c \<and> c \<le> 0xBF"

definition second_byte :: "nat \<Rightarrow> nat \<Rightarrow> bool" where
  "second_byte a b \<longleftrightarrow>
     (if a = 0xE0 then 0xA0 else if a = 0xF0 then 0x90 else 0x80) \<le> b \<and>
     b \<le> (if a = 0xED then 0x9F else if a = 0xF4 then 0x8F else 0xBF)"

fun utf8_seq :: "nat list \<Rightarrow> nat" where
  "utf8_seq [] = 0"
| "utf8_seq (a # r) =
     (if a < 0x80 then 1
      else if 0xC2 \<le> a \<and> a \<le> 0xDF then
        (if 1 \<le> length r \<and> second_byte a (r ! 0) then 2 else 0)
      else if 0xE0 \<le> a \<and> a \<le> 0xEF then
        (if 2 \<le> length r \<and> second_byte a (r ! 0) \<and> cont_byte (r ! 1) then 3 else 0)
      else if 0xF0 \<le> a \<and> a \<le> 0xF4 then
        (if 3 \<le> length r \<and> second_byte a (r ! 0) \<and> cont_byte (r ! 1) \<and> cont_byte (r ! 2) then 4 else 0)
      else 0)"

function utf8_points :: "nat list \<Rightarrow> bool" where
  "utf8_points bs =
     (if bs = [] then True
      else if utf8_seq bs = 0 then False
      else utf8_points (drop (utf8_seq bs) bs))"
  by pat_completeness auto
termination by (relation "measure length") auto

declare utf8_points.simps [simp del]

definition utf8_valid :: "bytes \<Rightarrow> bool" where
  "utf8_valid b = utf8_points (map of_char b)"

lemma utf8_valid_Nil [simp]: "utf8_valid []"
  by (simp add: utf8_valid_def utf8_points.simps)

text \<open>ASCII text is valid.\<close>

lemma utf8_ascii:
  assumes "\<forall>c \<in> set b. (of_char c :: nat) < 0x80"
  shows "utf8_valid b"
proof -
  have "utf8_points ns" if "\<forall>n \<in> set ns. n < 0x80" for ns
    using that
  proof (induction ns)
    case (Cons n ns)
    then show ?case by (subst utf8_points.simps) simp
  qed (simp add: utf8_points.simps)
  with assms show ?thesis by (simp add: utf8_valid_def)
qed

section \<open>The message\<close>

text \<open>
  A field with its zero value is not written.  The number of a field that is read selects its tag; a field with no
  tag, or of another wire type than its tag has, is passed over; of several the last one counts.
\<close>

definition nonempty_bytes :: "bytes \<Rightarrow> wire_value option" where
  "nonempty_bytes b = (if b = [] then None else Some (VBytes b))"

definition value_of :: "TelemetryEvent \<Rightarrow> string \<Rightarrow> wire_value option" where
  "value_of m name =
     (if name = ''device_id'' then nonempty_bytes (pb_DeviceId m)
      else if name = ''idempotency_key'' then nonempty_bytes (pb_IdempotencyKey m)
      else if name = ''event_time_unix_nanos'' then
        (if pb_EventTimeUnixNanos m = 0 then None else Some (VVarint (unat (pb_EventTimeUnixNanos m))))
      else if name = ''metric'' then nonempty_bytes (pb_Metric m)
      else if name = ''value'' then
        (if pb_Value m = 0 then None else Some (VFixed64 (le_bytes 8 (unat (pb_Value m)))))
      else None)"

definition fields_of :: "TelemetryEvent \<Rightarrow> (nat \<times> wire_value) list" where
  "fields_of m =
     List.map_filter (\<lambda>t. map_option (Pair (ft_number t)) (value_of m (ft_name t))) telemetry_tags"

definition strings_ok :: "TelemetryEvent \<Rightarrow> bool" where
  "strings_ok m \<longleftrightarrow>
     list_all (\<lambda>b. utf8_valid b \<and> length b < 2 ^ 64) [pb_DeviceId m, pb_IdempotencyKey m, pb_Metric m]"

definition wire_marshal :: marshal where
  "wire_marshal m =
     (if strings_ok m then Inr (concat (map put_field (fields_of m)))
      else Inl (ErrorText ''string field contains invalid UTF-8''))"

definition empty_message :: TelemetryEvent where
  "empty_message =
     \<lparr>pb_DeviceId = [], pb_IdempotencyKey = [], pb_EventTimeUnixNanos = 0, pb_Metric = [], pb_Value = 0\<rparr>"

fun store_bytes :: "string \<Rightarrow> bytes \<Rightarrow> TelemetryEvent \<Rightarrow> TelemetryEvent option" where
  "store_bytes name b m =
     (if \<not> utf8_valid b then None
      else if name = ''device_id'' then Some (m\<lparr>pb_DeviceId := b\<rparr>)
      else if name = ''idempotency_key'' then Some (m\<lparr>pb_IdempotencyKey := b\<rparr>)
      else if name = ''metric'' then Some (m\<lparr>pb_Metric := b\<rparr>)
      else Some m)"

fun store_value :: "string \<Rightarrow> wire_value \<Rightarrow> TelemetryEvent \<Rightarrow> TelemetryEvent option" where
  "store_value name (VBytes b) m = store_bytes name b m"
| "store_value name (VVarint n) m =
     Some (if name = ''event_time_unix_nanos'' then m\<lparr>pb_EventTimeUnixNanos := of_nat n\<rparr> else m)"
| "store_value name (VFixed64 b) m = Some (if name = ''value'' then m\<lparr>pb_Value := of_nat (le_nat b)\<rparr> else m)"
| "store_value name (VFixed32 b) m = Some m"

definition store_field :: "nat \<times> wire_value \<Rightarrow> TelemetryEvent \<Rightarrow> TelemetryEvent option" where
  "store_field f m =
     (case find (\<lambda>t. ft_number t = fst f \<and> wire_type (ft_kind t) = wire_type_of (snd f)) telemetry_tags of
        None \<Rightarrow> Some m
      | Some t \<Rightarrow> store_value (ft_name t) (snd f) m)"

fun store_fields :: "(nat \<times> wire_value) list \<Rightarrow> TelemetryEvent \<Rightarrow> TelemetryEvent option" where
  "store_fields [] m = Some m"
| "store_fields (f # fs) m = Option.bind (store_field f m) (store_fields fs)"

definition wire_unmarshal :: unmarshal where
  "wire_unmarshal bs =
     (case Option.bind (get_fields bs) (\<lambda>fs. store_fields fs empty_message) of
        None \<Rightarrow> Inl (ErrorText ''cannot parse invalid wire-format data'')
      | Some m \<Rightarrow> Inr m)"

section \<open>The contract\<close>

lemma unat_u64: "unat (v :: u64) < 18446744073709551616"
  using unsigned_less [of v] by simp

lemma fields_of_eq:
  "fields_of m =
     (if pb_DeviceId m = [] then [] else [(1, VBytes (pb_DeviceId m))]) @
     (if pb_IdempotencyKey m = [] then [] else [(2, VBytes (pb_IdempotencyKey m))]) @
     (if pb_EventTimeUnixNanos m = 0 then [] else [(3, VVarint (unat (pb_EventTimeUnixNanos m)))]) @
     (if pb_Metric m = [] then [] else [(4, VBytes (pb_Metric m))]) @
     (if pb_Value m = 0 then [] else [(5, VFixed64 (le_bytes 8 (unat (pb_Value m))))])"
  by (simp add: fields_of_def telemetry_tags_def value_of_def nonempty_bytes_def List.map_filter_simps)

lemma fields_of_fit: "strings_ok m \<Longrightarrow> list_all field_fits (fields_of m)"
  by (auto simp: fields_of_eq field_fits_def strings_ok_def max_field_number_def unat_u64)

lemma store_field_simps:
  "store_field (Suc 0, VBytes b) m = (if utf8_valid b then Some (m\<lparr>pb_DeviceId := b\<rparr>) else None)"
  "store_field (2, VBytes b) m = (if utf8_valid b then Some (m\<lparr>pb_IdempotencyKey := b\<rparr>) else None)"
  "store_field (3, VVarint n) m = Some (m\<lparr>pb_EventTimeUnixNanos := of_nat n\<rparr>)"
  "store_field (4, VBytes b) m = (if utf8_valid b then Some (m\<lparr>pb_Metric := b\<rparr>) else None)"
  "store_field (5, VFixed64 v) m = Some (m\<lparr>pb_Value := of_nat (le_nat v)\<rparr>)"
  by (simp_all add: store_field_def telemetry_tags_def)

lemma store_fields_append:
  "store_fields (fs @ gs) m = Option.bind (store_fields fs m) (store_fields gs)"
  by (induction fs arbitrary: m) (auto split: Option.bind_split)

lemma le_roundtrip_64: "of_nat (le_nat (le_bytes 8 (unat (v :: 64 word)))) = v"
  using le_nat_le_bytes [of "unat v" 8] unat_u64 [of v] by simp

lemma store_own_fields:
  assumes "strings_ok m"
  shows "store_fields (fields_of m) empty_message = Some m"
proof -
  let ?m1 = "empty_message\<lparr>pb_DeviceId := pb_DeviceId m\<rparr>"
  let ?m2 = "?m1\<lparr>pb_IdempotencyKey := pb_IdempotencyKey m\<rparr>"
  let ?m3 = "?m2\<lparr>pb_EventTimeUnixNanos := pb_EventTimeUnixNanos m\<rparr>"
  let ?m4 = "?m3\<lparr>pb_Metric := pb_Metric m\<rparr>"
  have u: "utf8_valid (pb_DeviceId m)" "utf8_valid (pb_IdempotencyKey m)" "utf8_valid (pb_Metric m)"
    using assms by (simp_all add: strings_ok_def)
  have "store_fields (if pb_DeviceId m = [] then [] else [(1, VBytes (pb_DeviceId m))]) empty_message = Some ?m1"
    using u by (simp add: store_field_simps empty_message_def)
  moreover have "store_fields (if pb_IdempotencyKey m = [] then [] else [(2, VBytes (pb_IdempotencyKey m))]) ?m1 = Some ?m2"
    using u by (simp add: store_field_simps empty_message_def)
  moreover have "store_fields (if pb_EventTimeUnixNanos m = 0 then []
      else [(3, VVarint (unat (pb_EventTimeUnixNanos m)))]) ?m2 = Some ?m3"
    by (simp add: store_field_simps empty_message_def)
  moreover have "store_fields (if pb_Metric m = [] then [] else [(4, VBytes (pb_Metric m))]) ?m3 = Some ?m4"
    using u by (simp add: store_field_simps empty_message_def)
  moreover have "store_fields (if pb_Value m = 0 then []
      else [(5, VFixed64 (le_bytes 8 (unat (pb_Value m))))]) ?m4 = Some (?m4\<lparr>pb_Value := pb_Value m\<rparr>)"
    by (simp add: store_field_simps le_roundtrip_64 empty_message_def)
  moreover have "?m4\<lparr>pb_Value := pb_Value m\<rparr> = m" by (simp add: empty_message_def)
  ultimately show ?thesis unfolding fields_of_eq by (simp add: store_fields_append del: store_fields.simps)
qed

lemma wire_roundtrip: "codec_roundtrip wire_marshal wire_unmarshal"
  by (auto simp: codec_roundtrip_def wire_marshal_def wire_unmarshal_def get_fields_put fields_of_fit
      store_own_fields split: if_splits)

text \<open>What was read can be written again: every string that was stored is valid and has a length that was read.\<close>

lemma get_value_fits: "get_value wt bs = Some (v, r) \<Longrightarrow> value_fits v"
  using varint_bound_10
  by (auto simp: get_value_def take_exactly_def split: if_splits option.splits dest!: read_varint_bound)

lemma get_field_fits:
  assumes "get_field bs = Some (f, r)"
  shows "value_fits (snd f)"
proof -
  from assms obtain tag r' v where "get_value (tag mod 8) r' = Some (v, r)" and "f = (tag div 8, v)"
    by (auto simp: get_field_def split: option.splits if_splits)
  with get_value_fits show ?thesis by simp
qed

lemma get_fields_fit: "get_fields bs = Some fs \<Longrightarrow> list_all (\<lambda>f. value_fits (snd f)) fs"
proof (induction bs arbitrary: fs rule: get_fields.induct)
  case (1 bs)
  show ?case
  proof (cases "bs = []")
    case False
    with "1.prems" obtain f r gs where f: "get_field bs = Some (f, r)" "get_fields r = Some gs" "fs = f # gs"
      by (subst (asm) get_fields.simps) (auto split: option.splits)
    with "1.IH" [OF False f(1) refl] show ?thesis by (simp add: get_field_fits)
  qed (use "1.prems" in simp)
qed

lemma store_field_ok:
  assumes "store_field f m = Some m'" and "value_fits (snd f)" and "strings_ok m"
  shows "strings_ok m'"
  using assms
  by (cases "snd f") (auto simp: store_field_def strings_ok_def split: option.splits if_splits)

lemma store_fields_ok:
  assumes "store_fields fs m = Some m'" and "list_all (\<lambda>f. value_fits (snd f)) fs" and "strings_ok m"
  shows "strings_ok m'"
  using assms
  by (induction fs arbitrary: m) (auto simp: Option.bind_eq_Some_conv intro: store_field_ok)

lemma wire_total: "codec_total_on_decoded wire_marshal wire_unmarshal"
proof -
  have "strings_ok m" if "wire_unmarshal b = Inr m" for b m
  proof -
    from that obtain fs where "get_fields b = Some fs" "store_fields fs empty_message = Some m"
      by (auto simp: wire_unmarshal_def Option.bind_eq_Some_conv split: option.splits)
    with store_fields_ok [OF _ get_fields_fit] show ?thesis
      by (simp add: strings_ok_def empty_message_def)
  qed
  then show ?thesis by (auto simp: codec_total_on_decoded_def wire_marshal_def)
qed

section \<open>Reserved wire types\<close>

text \<open>
  Documented behaviour the malformed records rely on: a message whose first tag carries one of the wire types 6 and
  7, which the encoding leaves undefined, does not parse.
\<close>

definition rejects_reserved :: "unmarshal \<Rightarrow> bool" where
  "rejects_reserved unmarshal \<longleftrightarrow>
     (\<forall>b tag rest. read_varint 10 b = Some (tag, rest) \<longrightarrow> tag mod 8 \<in> {6, 7} \<longrightarrow>
        (\<exists>err. unmarshal b = Inl err))"

lemma wire_rejects_reserved: "rejects_reserved wire_unmarshal"
proof -
  have "get_fields b = None" if "read_varint 10 b = Some (tag, rest)" "tag mod 8 \<in> {6, 7}" for b tag rest
  proof -
    from that(1) have "b \<noteq> []" using read_varint_shorter by fastforce
    moreover from that have "get_field b = None" by (auto simp: get_field_def get_value_def)
    ultimately show ?thesis by (subst get_fields.simps) simp
  qed
  then show ?thesis by (auto simp: rejects_reserved_def wire_unmarshal_def)
qed

end
