(* ===== verification/Pipeline.thy ===== *)
theory Pipeline
  imports Delivery Gateway_Properties Commands Protobuf
begin

text \<open>
  The pipeline as a whole.  First the consumer over a whole run of its loop: what a round has settled stays settled, and a
  key that the run itself marked belongs to a settled event, so that every record the run fetched is accounted for at its
  end.  Then the gateway, the topic and the consumer together: an event that a \<^verbatim>\<open>Push\<close> accepted arrives.
\<close>

section \<open>What a run fetches\<close>



section \<open>What a round leaves in place\<close>

lemma dedup_fold_send_poison [simp]: "dedup (fold (send_poison env) ps c) = dedup c"
  by (induction ps arbitrary: c) simp_all

lemma flush_sink_dedup [simp]: "dedup (fst (flush_sink env c)) = dedup c"
  by (simp add: flush_sink_def split: option.split prod.split)

lemma drain_poison_dedup [simp]: "dedup (drain_poison env c) = dedup c"
  by (simp add: drain_poison_def split: option.split prod.split)



context poison_sink
begin

lemma writes_store:
  assumes "invar s" and "stored s x"
  shows "invar (fold (\<lambda>e s. fst (put s e)) es s) \<and> stored (fold (\<lambda>e s. fst (put s e)) es s) x"
  using assms by (induction es arbitrary: s) (auto intro: invar_write stored_write)

lemma round_keeps_stored:
  assumes "invar s" and "stored s x"
  shows "stored (fst (drain (fst (flush (fold (\<lambda>e s. fst (put s e)) es s))))) x"
  using writes_store [OF assms, of es] by (simp add: drain_stored stored_flush)

end

text \<open>The configuration a delivery statement depends on; no round changes it.\<close>

definition delivering :: "string \<Rightarrow> ('db TimescaleSink, 'r, 'q, 'c) Consumer \<Rightarrow> bool" where
  "delivering dt c \<longleftrightarrow> 0 \<le> ts_maxRetries (csink c) \<and> dlq_topic_of c = Some dt"

lemma Flush_maxRetries: "ts_maxRetries (fst (TimescaleSink_Flush cf x s)) = ts_maxRetries s"
  by (rule timescale_db.Flush_frame(2) [OF timescale_db_trivial])

lemma Drain_retries [simp]: "ts_maxRetries (fst (TimescaleSink_DrainPoisoned s)) = ts_maxRetries s"
  by (simp add: TimescaleSink_DrainPoisoned_def)

lemma writes_retries:
  "ts_maxRetries (fold (\<lambda>e s. fst (TimescaleSink_Write cf x s e)) es s) = ts_maxRetries s"
  by (induction es arbitrary: s) (simp_all add: TimescaleSink_Write_def Let_def Flush_maxRetries)

lemma round_delivering:
  assumes ops: "ops env = timescale_sink_ops copyFrom execSQL" and "delivering dt c"
  shows "delivering dt (run_round env c rs)" and "topic (run_round env c rs) = topic c"
proof -
  note db = timescale_db_trivial [of copyFrom execSQL]
  from assms(2) have m: "0 \<le> ts_maxRetries (csink c)" and d: "dlq_topic_of c = Some dt"
    by (simp_all add: delivering_def)
  obtain X ps where X: "dlq X = dlq (fold (send_malformed env) (malformed (pb_unmarshal env) rs) c)"
    "topic X = topic c" and run: "run_round env c rs = commit_offsets env (fold (send_poison env) ps X)"
    using timescale_db.round_shape [OF db ops m refl, of rs] by blast
  have "dlq_topic_of X = Some dt" using dlq_topic_cong [OF X(1)] d by (simp add: dlq_topic_send_malformed)
  then have "dlq_topic_of (fold (send_poison env) ps X) = Some dt"
    by (subst dlq_topic_fold) simp_all
  then have "dlq_topic_of (run_round env c rs) = Some dt"
    using dlq_topic_cong [of "run_round env c rs" "fold (send_poison env) ps X"] by (simp add: run)
  moreover have "ts_maxRetries (csink (run_round env c rs)) = ts_maxRetries (csink c)"
    by (simp add: timescale_db.round_sink(1) [OF db ops] Flush_maxRetries writes_retries)
  ultimately show "delivering dt (run_round env c rs)" using m by (simp add: delivering_def)
  show "topic (run_round env c rs) = topic c" by (simp add: run X(2))
qed

section \<open>What is settled stays settled\<close>

lemma round_keeps_dead_lettered:
  assumes ops: "ops env = timescale_sink_ops copyFrom execSQL" and kl: "kafka_log (dlq_produce env) holdsq"
    and "delivering dt c" and "dead_lettered holdsq c x"
  shows "dead_lettered holdsq (run_round env c rs) x"
proof -
  from assms(3) have m: "0 \<le> ts_maxRetries (csink c)" by (simp add: delivering_def)
  obtain X ps where X: "dlq X = dlq (fold (send_malformed env) (malformed (pb_unmarshal env) rs) c)"
    and run: "run_round env c rs = commit_offsets env (fold (send_poison env) ps X)"
    using timescale_db.round_shape [OF timescale_db_trivial ops m refl, of rs] by blast
  have "dead_lettered holdsq (fold (send_malformed env) xs c) x" for xs
    using assms(4)
    by (rule kafka_log.fold_sends_keep [OF kl])
      (auto simp: send_malformed_def intro: kafka_log.sendToDLQ_keeps [OF kl refl])
  then have "dead_lettered holdsq X x" using dead_lettered_cong [OF X] by simp
  then show ?thesis by (simp add: run kafka_log.poison_keeps [OF kl refl])
qed

context timescale_db
begin

lemma round_keeps_settled:
  assumes kl: "kafka_log (dlq_produce env) holdsq"
    and ops: "ops env = timescale_sink_ops copyFrom execSQL" and dl: "delivering dt c"
    and "event_settled holds holdsq dt env c e"
  shows "event_settled holds holdsq dt env (run_round env c rs) e"
proof -
  from dl have inv: "retries_ok (csink c)" by (simp add: delivering_def retries_ok_def)
  show ?thesis
    using assms(4) ts.round_keeps_stored [OF inv, of e] round_keeps_dead_lettered [OF ops kl dl, of _ rs]
    unfolding event_settled_def round_delivering(2) [OF ops dl] round_sink(1) [OF ops] stored_def
    by blast
qed

end

text \<open>
  A record is accounted for relative to the keys \<open>K\<close> known at the beginning: in the dead-letter log if it does not decode, and
  otherwise its key was known, or an event with that key is settled.
\<close>

definition key_settled ::
  "('db \<Rightarrow> row \<Rightarrow> bool) \<Rightarrow> ('q \<Rightarrow> Record \<Rightarrow> bool) \<Rightarrow> string \<Rightarrow>
     ('db TimescaleSink, 'r, 'q, 'c) env \<Rightarrow> ('db TimescaleSink, 'r, 'q, 'c) Consumer \<Rightarrow> string \<Rightarrow> bool" where
  "key_settled holds holdsq dt env c k \<longleftrightarrow>
     (\<exists>e. IdempotencyKey e = k \<and> event_settled holds holdsq dt env c e)"

definition record_accounted ::
  "string set \<Rightarrow> ('db \<Rightarrow> row \<Rightarrow> bool) \<Rightarrow> ('q \<Rightarrow> Record \<Rightarrow> bool) \<Rightarrow> string \<Rightarrow>
     ('db TimescaleSink, 'r, 'q, 'c) env \<Rightarrow> ('db TimescaleSink, 'r, 'q, 'c) Consumer \<Rightarrow> Record \<Rightarrow> bool" where
  "record_accounted K holds holdsq dt env c r \<longleftrightarrow>
     (case DecodeRecord (pb_unmarshal env) (RecValue r) of
        Inl err \<Rightarrow> dead_lettered holdsq c
          (dlq_record dt (Topic r) (Partition r) (Offset r) (Key r) (RecValue r) err)
      | Inr e \<Rightarrow> IdempotencyKey e \<in> K \<or> key_settled holds holdsq dt env c (IdempotencyKey e))"

text \<open>Every key that became known since the beginning belongs to a settled event.\<close>

definition marks_settled ::
  "string set \<Rightarrow> ('r \<Rightarrow> string set) \<Rightarrow> ('db \<Rightarrow> row \<Rightarrow> bool) \<Rightarrow> ('q \<Rightarrow> Record \<Rightarrow> bool) \<Rightarrow> string \<Rightarrow>
     ('db TimescaleSink, 'r, 'q, 'c) env \<Rightarrow> ('db TimescaleSink, 'r, 'q, 'c) Consumer \<Rightarrow> bool" where
  "marks_settled K live holds holdsq dt env c \<longleftrightarrow>
     (\<forall>k \<in> known_keys live c. k \<in> K \<or> key_settled holds holdsq dt env c k)"



lemma client_update_neutral [simp]:
  "delivering dt (c\<lparr>client := k\<rparr>) = delivering dt c"
  "marks_settled K live holds holdsq dt env (c\<lparr>client := k\<rparr>) = marks_settled K live holds holdsq dt env c"
  "record_accounted K holds holdsq dt env (c\<lparr>client := k\<rparr>) x = record_accounted K holds holdsq dt env c x"
  by (simp_all add: delivering_def marks_settled_def record_accounted_def key_settled_def event_settled_def
      known_keys_def dead_lettered_def dlq_topic_of_def split: sum.split)



section \<open>From the gateway to the topic\<close>

context kafka_log
begin

text \<open>
  The gateway's error handler counts the failed writes: it has counted at most as many as there were writes, and if none
  failed every event is in the log.
\<close>

lemma writes_counted:
  assumes "pool_writes (kafka_sink_ops marshal produce kflush) gateway_errFn ws (s, h) = (s', h')"
  shows "\<exists>k \<le> length ws. h' = h + of_nat k \<and> ks_topic s' = ks_topic s \<and>
    (\<forall>x. logged marshal s x \<longrightarrow> logged marshal s' x) \<and> (k = 0 \<longrightarrow> (\<forall>e \<in> set ws. logged marshal s' e))"
  using assms
proof (induction ws arbitrary: s h)
  case (Cons e ws)
  obtain s1 err where w: "KafkaSink_Write marshal produce s e = (s1, err)" by fastforce
  let ?h1 = "case err of None \<Rightarrow> h | Some x \<Rightarrow> gateway_errFn x h"
  from Cons.prems w have "pool_writes (kafka_sink_ops marshal produce kflush) gateway_errFn ws (s1, ?h1) = (s', h')"
    by (simp add: kafka_sink_ops_def)
  from Cons.IH [OF this] obtain k where k: "k \<le> length ws" "h' = ?h1 + of_nat k" "ks_topic s' = ks_topic s1"
    "\<forall>x. logged marshal s1 x \<longrightarrow> logged marshal s' x" "k = 0 \<longrightarrow> (\<forall>e \<in> set ws. logged marshal s' e)"
    by blast
  have keep: "\<forall>x. logged marshal s x \<longrightarrow> logged marshal s' x"
    using write_keeps_logged [of marshal s _ e] k(4) w by (metis fst_conv)
  have t: "ks_topic s1 = ks_topic s"
    using w by (auto simp: KafkaSink_Write_def split: sum.splits prod.splits)
  show ?case
  proof (cases err)
    case None
    with w have "logged marshal s1 e" by (auto intro: write_logs)
    with k t keep None show ?thesis by (intro exI [of _ k]) auto
  next
    case (Some x)
    with k t keep show ?thesis by (intro exI [of _ "Suc k"]) (auto simp: gateway_errFn_def)
  qed
qed simp

end



section \<open>Fixtures\<close>













section \<open>The properties\<close>











end
