(* ===== verification/Loss_Test.thy ===== *)
theory Loss_Test
  imports Sink Transitions "HOL-Library.Signed_Division"
begin

text \<open>
  \<^verbatim>\<open>cmd/losstest\<close>: it divides a number of events among goroutines, each of which writes its share to one Kafka sink and
  repeats every write until it succeeds.  The goroutines share the sink, the atomic counter \<^verbatim>\<open>produced\<close> and the wait group, so
  the program is a transition system: one step spawns a goroutine, one step makes an attempt to write, one step counts an event,
  one step ends a goroutine.
\<close>

section \<open>Shares and events\<close>

text \<open>How many events the goroutine \<open>g\<close> produces; Go's division truncates.\<close>

definition loss_share :: "int \<Rightarrow> int \<Rightarrow> int \<Rightarrow> int" where
  "loss_share cnt concurrency g =
     (let n = cnt sdiv concurrency in if g < cnt smod concurrency then n + 1 else n)"

definition loss_event :: "(nat \<Rightarrow> float64) \<Rightarrow> nat \<Rightarrow> nat \<Rightarrow> Event" where
  "loss_event fb gid i =
     \<lparr>DeviceID = ''device-'' @ dec_of_nat gid, IdempotencyKey = ''loss-'' @ dec_of_nat gid @ ''-'' @ dec_of_nat i,
      EventTimeUnixNanos = 0, Metric = ''cpu.util'', Value = fb (i mod 100)\<rparr>"

text \<open>All events of a run, goroutine by goroutine.\<close>

definition loss_events :: "(nat \<Rightarrow> float64) \<Rightarrow> int \<Rightarrow> int \<Rightarrow> Event list" where
  "loss_events fb cnt concurrency =
     concat (map (\<lambda>g. map (loss_event fb g) [0..<nat (loss_share cnt concurrency (int g))]) [0..<nat concurrency])"

section \<open>The goroutines\<close>

text \<open>
  \<open>Attempting i\<close>: at the head of the retry loop for event \<open>i\<close>, or at the end of the loop when \<open>i\<close> is not below the share;
  \<open>Counting i\<close>: event \<open>i\<close> is written, \<^verbatim>\<open>produced.Add(1)\<close> comes next; \<open>Returned\<close>: after \<^verbatim>\<open>wg.Done()\<close>.
\<close>

datatype loss_pc = Attempting nat | Counting nat | Returned

record 's loss_state =
  lt_ks :: 's
  lt_produced :: i64
  lt_wg :: int
  lt_gs :: "(int \<times> loss_pc) list"

datatype loss_label = Spawn | Step nat

definition loss_start :: "'s \<Rightarrow> 's loss_state" where
  "loss_start ks = \<lparr>lt_ks = ks, lt_produced = 0, lt_wg = 0, lt_gs = []\<rparr>"

definition loss_step ::
  "('s \<Rightarrow> Event \<Rightarrow> 's \<times> go_error option) \<Rightarrow> (nat \<Rightarrow> float64) \<Rightarrow> nat \<Rightarrow> int \<times> loss_pc \<Rightarrow> 's loss_state \<Rightarrow>
     's loss_state run" where
  "loss_step put fb g x s =
     (case x of
        (n, Attempting i) \<Rightarrow>
          (if int i < n
           then (case put (lt_ks s) (loss_event fb g i) of
                   (ks', None) \<Rightarrow> Returns (s\<lparr>lt_ks := ks', lt_gs := (lt_gs s)[g := (n, Counting i)]\<rparr>)
                 | (ks', Some err) \<Rightarrow> Returns (s\<lparr>lt_ks := ks'\<rparr>))
           else Returns (s\<lparr>lt_wg := lt_wg s - 1, lt_gs := (lt_gs s)[g := (n, Returned)]\<rparr>))
      | (n, Counting i) \<Rightarrow>
          Returns (s\<lparr>lt_produced := lt_produced s + 1, lt_gs := (lt_gs s)[g := (n, Attempting (Suc i))]\<rparr>)
      | (n, Returned) \<Rightarrow> Blocks)"

text \<open>The loop of \<^verbatim>\<open>main\<close> that starts the goroutines runs beside those already started.\<close>

fun loss_next ::
  "('s \<Rightarrow> Event \<Rightarrow> 's \<times> go_error option) \<Rightarrow> (nat \<Rightarrow> float64) \<Rightarrow> int \<Rightarrow> int \<Rightarrow> loss_label \<Rightarrow>
     's loss_state \<Rightarrow> 's loss_state run" where
  "loss_next put fb cnt concurrency Spawn s =
     (if int (length (lt_gs s)) < concurrency
      then Returns (s\<lparr>lt_wg := lt_wg s + 1,
             lt_gs := lt_gs s @ [(loss_share cnt concurrency (int (length (lt_gs s))), Attempting 0)]\<rparr>)
      else Blocks)"
| "loss_next put fb cnt concurrency (Step g) s =
     (if g < length (lt_gs s) then loss_step put fb g (lt_gs s ! g) s else Blocks)"

text \<open>\<^verbatim>\<open>main\<close> has left its loop and \<^verbatim>\<open>wg.Wait()\<close> returns.\<close>

definition loss_waited :: "int \<Rightarrow> 's loss_state \<Rightarrow> bool" where
  "loss_waited concurrency s \<longleftrightarrow> concurrency \<le> int (length (lt_gs s)) \<and> lt_wg s = 0"

section \<open>What every schedule keeps\<close>

text \<open>How many events of its share a goroutine has counted, and for how many the write has succeeded.\<close>

fun counted :: "int \<times> loss_pc \<Rightarrow> nat" where
  "counted (n, Attempting i) = i"
| "counted (n, Counting i) = i"
| "counted (n, Returned) = nat n"

fun acked :: "int \<times> loss_pc \<Rightarrow> nat" where
  "acked (n, Attempting i) = i"
| "acked (n, Counting i) = Suc i"
| "acked (n, Returned) = nat n"

definition live_share :: "int \<times> loss_pc \<Rightarrow> int" where
  "live_share x = (if snd x = Returned then 0 else 1)"

definition loss_wf :: "int \<Rightarrow> int \<Rightarrow> 's loss_state \<Rightarrow> bool" where
  "loss_wf cnt concurrency s \<longleftrightarrow>
     length (lt_gs s) \<le> nat concurrency \<and>
     (\<forall>g < length (lt_gs s). fst (lt_gs s ! g) = loss_share cnt concurrency (int g) \<and>
        acked (lt_gs s ! g) \<le> nat (loss_share cnt concurrency (int g))) \<and>
     lt_wg s = sum_list (map live_share (lt_gs s)) \<and>
     lt_produced s = of_nat (sum_list (map counted (lt_gs s)))"

lemma loss_start_wf: "loss_wf cnt concurrency (loss_start ks)"
  by (simp add: loss_wf_def loss_start_def)

text \<open>A step of one goroutine that keeps its share and moves its program counter.\<close>

lemma move_wf:
  assumes "loss_wf cnt concurrency s" and "g < length (lt_gs s)" and "lt_gs s ! g = (n, pc)"
    and "acked (n, pc') \<le> nat n"
    and "w = lt_wg s + live_share (n, pc') - live_share (n, pc)"
    and "p + of_nat (counted (n, pc)) = lt_produced s + of_nat (counted (n, pc'))"
  shows "loss_wf cnt concurrency (s\<lparr>lt_ks := ks, lt_wg := w, lt_produced := p, lt_gs := (lt_gs s)[g := (n, pc')]\<rparr>)"
proof -
  note u = sum_list_update_add [OF assms(2), of live_share "(n, pc')"]
    sum_list_update_add [OF assms(2), of counted "(n, pc')"]
  from u(2) have "(of_nat (sum_list (map counted ((lt_gs s)[g := (n, pc')]))) :: i64) + of_nat (counted (n, pc)) =
      of_nat (sum_list (map counted (lt_gs s))) + of_nat (counted (n, pc'))"
    unfolding assms(3) of_nat_add [symmetric] by simp
  with assms(6) assms(1) have "p = of_nat (sum_list (map counted ((lt_gs s)[g := (n, pc')])))"
    by (simp add: loss_wf_def) (metis add_right_imp_eq)
  with assms(1-5) u(1) show ?thesis by (auto simp: loss_wf_def nth_list_update)
qed

text \<open>What a step of a goroutine can be.\<close>

lemma loss_step_cases:
  assumes "loss_wf cnt concurrency s" and "loss_next put fb cnt concurrency (Step g) s = Returns s'"
  obtains (wrote) n i ks' where "g < length (lt_gs s)" "lt_gs s ! g = (n, Attempting i)" "int i < n"
      "put (lt_ks s) (loss_event fb g i) = (ks', None)" "s' = s\<lparr>lt_ks := ks', lt_gs := (lt_gs s)[g := (n, Counting i)]\<rparr>"
    | (failed) n i ks' err where "g < length (lt_gs s)" "lt_gs s ! g = (n, Attempting i)" "int i < n"
      "put (lt_ks s) (loss_event fb g i) = (ks', Some err)" "s' = s\<lparr>lt_ks := ks'\<rparr>"
    | (ended) n i where "g < length (lt_gs s)" "lt_gs s ! g = (n, Attempting i)" "nat n = i"
      "s' = s\<lparr>lt_wg := lt_wg s - 1, lt_gs := (lt_gs s)[g := (n, Returned)]\<rparr>"
    | (added) n i where "g < length (lt_gs s)" "lt_gs s ! g = (n, Counting i)" "Suc i \<le> nat n"
      "s' = s\<lparr>lt_produced := lt_produced s + 1, lt_gs := (lt_gs s)[g := (n, Attempting (Suc i))]\<rparr>"
proof -
  from assms(2) have g: "g < length (lt_gs s)" and st: "loss_step put fb g (lt_gs s ! g) s = Returns s'"
    by (auto split: if_splits)
  obtain n pc where x: "lt_gs s ! g = (n, pc)" by fastforce
  from assms(1) g x have a: "acked (n, pc) \<le> nat n" by (auto simp: loss_wf_def)
  show thesis
  proof (cases pc)
    case (Attempting i)
    obtain ks' r where p: "put (lt_ks s) (loss_event fb g i) = (ks', r)" by fastforce
    show thesis
    proof (cases "int i < n")
      case True
      with st x Attempting p wrote [OF g] failed [OF g] show thesis by (cases r) (auto simp: loss_step_def)
    next
      case False
      with st x Attempting a ended [OF g] show thesis by (auto simp: loss_step_def)
    qed
  qed (use st x a added [OF g] in \<open>auto simp: loss_step_def\<close>)
qed

lemma loss_next_wf:
  assumes "loss_wf cnt concurrency s" and "loss_next put fb cnt concurrency l s = Returns s'"
  shows "loss_wf cnt concurrency s'"
proof (cases l)
  case Spawn
  with assms show ?thesis
    by (auto simp: loss_wf_def nth_append live_share_def less_Suc_eq split: if_splits)
next
  case (Step g)
  note mv = move_wf [OF assms(1)]
  from assms(1) assms(2) [unfolded Step] show ?thesis
  proof (cases rule: loss_step_cases)
    case (wrote n i ks')
    with mv [OF wrote(1,2), of "Counting i" "lt_wg s" "lt_produced s" ks'] show ?thesis by (simp add: live_share_def)
  next
    case failed
    with assms(1) show ?thesis by (auto simp: loss_wf_def)
  next
    case (ended n i)
    with mv [OF ended(1,2), of Returned "lt_wg s - 1" "lt_produced s" "lt_ks s"] show ?thesis by (simp add: live_share_def)
  next
    case (added n i)
    with mv [OF added(1,2), of "Attempting (Suc i)" "lt_wg s" "lt_produced s + 1" "lt_ks s"] show ?thesis
      by (simp add: live_share_def add.commute add.left_commute)
  qed
qed

interpretation lw: invariant_lts "loss_next put fb cnt concurrency" "loss_wf cnt concurrency"
  for put fb cnt concurrency
  by unfold_locales (rule loss_next_wf)

section \<open>Written events stay written\<close>

context sink
begin

definition shares_written :: "(nat \<Rightarrow> float64) \<Rightarrow> 's loss_state \<Rightarrow> bool" where
  "shares_written fb s \<longleftrightarrow>
     invar (lt_ks s) \<and>
     (\<forall>g < length (lt_gs s). \<forall>i < acked (lt_gs s ! g). accounted (lt_ks s) (loss_event fb g i))"

lemma loss_next_written:
  assumes wf: "loss_wf cnt concurrency s" and w: "shares_written fb s"
    and n: "loss_next put fb cnt concurrency l s = Returns s'"
  shows "shares_written fb s'"
proof (cases l)
  case Spawn
  with n w show ?thesis by (auto simp: shares_written_def nth_append less_Suc_eq split: if_splits)
next
  case (Step g)
  have ks: "invar (lt_ks s)" using w by (simp add: shares_written_def)
  have after: "invar ks' \<and> (accounted (lt_ks s) e' \<longrightarrow> accounted ks' e') \<and> (r = None \<longrightarrow> accounted ks' e)"
    if "put (lt_ks s) e = (ks', r)" for e e' ks' r
    using invar_write [OF ks, of e] write_keeps [OF ks, of e' e] write_accounts [OF ks, of e ks'] that by simp
  from wf n [unfolded Step] show ?thesis
  proof (cases rule: loss_step_cases)
    case (wrote n i ks')
    with after [OF wrote(4)] w show ?thesis
      by (auto simp: shares_written_def nth_list_update less_Suc_eq split: if_splits)
  next
    case failed
    with after [OF failed(4)] w show ?thesis by (auto simp: shares_written_def)
  qed (use w in \<open>auto simp: shares_written_def nth_list_update split: if_splits\<close>)
qed

lemma loss_exec_written:
  assumes "exec (loss_next put fb cnt concurrency) ls (loss_start ks) = Some s" and "invar ks"
  shows "loss_wf cnt concurrency s \<and> shares_written fb s"
proof
  show "loss_wf cnt concurrency s" by (rule lw.exec_ok [OF assms(1) loss_start_wf])
  show "shares_written fb s"
  proof (rule lw.exec_keeps [OF assms(1) loss_start_wf, where Q = "shares_written fb"])
    show "shares_written fb (loss_start ks)" using assms(2) by (simp add: shares_written_def loss_start_def)
  qed (rule loss_next_written)
qed

end

section \<open>When the wait is over\<close>

lemma sum_running_nonneg: "0 \<le> sum_list (map live_share xs)"
  by (induction xs) (simp_all add: live_share_def)

lemma all_returned: "sum_list (map live_share xs) = 0 \<longleftrightarrow> (\<forall>x \<in> set xs. snd x = Returned)"
proof (induction xs)
  case (Cons x xs)
  have "live_share x = 0 \<longleftrightarrow> snd x = Returned" "0 \<le> live_share x" by (simp_all add: live_share_def)
  with Cons sum_running_nonneg [of xs] show ?case by (simp add: add_nonneg_eq_0_iff)
qed simp

lemma waited_shape:
  assumes "loss_wf cnt concurrency s" and "loss_waited concurrency s"
  shows "lt_gs s = map (\<lambda>g. (loss_share cnt concurrency (int g), Returned)) [0..<nat concurrency]"
proof (rule nth_equalityI)
  show len: "length (lt_gs s) = length (map (\<lambda>g. (loss_share cnt concurrency (int g), Returned)) [0..<nat concurrency])"
    using assms by (auto simp: loss_wf_def loss_waited_def)
  fix g assume g: "g < length (lt_gs s)"
  from assms have "\<forall>x \<in> set (lt_gs s). snd x = Returned"
    unfolding all_returned [symmetric] by (simp add: loss_wf_def loss_waited_def)
  with g assms(1) len show "lt_gs s ! g = map (\<lambda>g. (loss_share cnt concurrency (int g), Returned)) [0..<nat concurrency] ! g"
    by (simp add: loss_wf_def prod_eq_iff)
qed

lemma loss_share_eq:
  assumes "0 \<le> cnt" and "0 < conc"
  shows "loss_share cnt conc g = cnt div conc + (if g < cnt mod conc then 1 else 0)"
  using assms by (simp add: loss_share_def Let_def signed_divide_int_def signed_modulo_int_def sgn_if)

lemma sum_shares:
  "sum_list (map (\<lambda>g. q + (if g < r then 1 else 0)) [0..<n]) = n * q + min n (r :: nat)"
  by (induction n) auto

lemma shares_add_up:
  assumes "0 \<le> cnt" and "0 < conc"
  shows "int (sum_list (map (\<lambda>g. nat (loss_share cnt conc (int g))) [0..<nat conc])) = cnt"
proof -
  let ?q = "nat (cnt div conc)" and ?r = "nat (cnt mod conc)"
  have "nat (loss_share cnt conc (int g)) = ?q + (if g < ?r then 1 else 0)" for g
    using assms by (auto simp: loss_share_eq nat_add_distrib pos_imp_zdiv_nonneg_iff)
  then have "sum_list (map (\<lambda>g. nat (loss_share cnt conc (int g))) [0..<nat conc]) = nat conc * ?q + min (nat conc) ?r"
    by (simp add: sum_shares)
  also have "min (nat conc) ?r = ?r" using pos_mod_bound [OF assms(2), of cnt] by simp
  finally show ?thesis using assms by (simp add: pos_imp_zdiv_nonneg_iff)
qed

lemma length_loss_events:
  "length (loss_events fb cnt conc) = sum_list (map (\<lambda>g. nat (loss_share cnt conc (int g))) [0..<nat conc])"
  by (simp add: loss_events_def length_concat comp_def)

lemma waited_produced:
  assumes "loss_wf cnt conc s" and "loss_waited conc s" and "0 \<le> cnt" and "0 < conc"
  shows "lt_produced s = of_int cnt"
proof -
  have "lt_produced s = of_nat (sum_list (map (\<lambda>g. nat (loss_share cnt conc (int g))) [0..<nat conc]))"
    using assms(1) by (simp add: loss_wf_def waited_shape [OF assms(1,2)] comp_def)
  then show ?thesis using shares_add_up [OF assms(3,4)] by (metis of_int_of_nat_eq)
qed

context sink
begin

lemma waited_written:
  assumes "loss_wf cnt conc s" and "shares_written fb s" and "loss_waited conc s"
    and "e \<in> set (loss_events fb cnt conc)"
  shows "accounted (lt_ks s) e"
  using assms(2,4) unfolding shares_written_def waited_shape [OF assms(1,3)]
  by (auto simp: loss_events_def)

end

section \<open>The end is reached\<close>

text \<open>
  A sink on which the writes of the test's events fail only finitely often: a failed write lowers \<open>failures\<close>, a
  successful one does not raise it.
\<close>

locale eventually_acking = sink put accounted invar
  for put :: "'s \<Rightarrow> Event \<Rightarrow> 's \<times> go_error option"
    and accounted :: "'s \<Rightarrow> Event \<Rightarrow> bool"
    and invar :: "'s \<Rightarrow> bool" +
  fixes fb :: "nat \<Rightarrow> float64"
    and cnt :: int
    and concurrency :: int
    and failures :: "'s \<Rightarrow> nat"
  assumes failed_write: "e \<in> set (loss_events fb cnt concurrency) \<Longrightarrow> put s e = (s', Some err) \<Longrightarrow>
      failures s' < failures s"
    and done_write: "e \<in> set (loss_events fb cnt concurrency) \<Longrightarrow> put s e = (s', None) \<Longrightarrow>
      failures s' \<le> failures s"

text \<open>Steps a goroutine has before it, and the goroutines that are still to be started.\<close>

fun steps_left :: "int \<times> loss_pc \<Rightarrow> nat" where
  "steps_left (n, Attempting i) = 2 * (nat n - i) + 1"
| "steps_left (n, Counting i) = 2 * (nat n - i)"
| "steps_left (n, Returned) = 0"

definition unspawned :: "int \<Rightarrow> int \<Rightarrow> nat \<Rightarrow> nat" where
  "unspawned cnt concurrency k =
     sum_list (map (\<lambda>g. 2 * nat (loss_share cnt concurrency (int g)) + 2) [k..<nat concurrency])"

lemma unspawned_step:
  assumes "int k < concurrency"
  shows "unspawned cnt concurrency k =
    2 * nat (loss_share cnt concurrency (int k)) + 2 + unspawned cnt concurrency (Suc k)"
  using assms by (simp add: unspawned_def upt_conv_Cons)

context eventually_acking
begin

definition loss_rank :: "'s loss_state \<Rightarrow> nat" where
  "loss_rank s =
     failures (lt_ks s) + sum_list (map steps_left (lt_gs s)) + unspawned cnt concurrency (length (lt_gs s))"

lemma loss_rank_move:
  assumes "g < length (lt_gs s)" and "lt_gs s ! g = x" and "failures ks \<le> failures (lt_ks s)"
    and "steps_left y < steps_left x"
  shows "loss_rank (s\<lparr>lt_ks := ks, lt_wg := w, lt_produced := p, lt_gs := (lt_gs s)[g := y]\<rparr>)
    < loss_rank s"
  using assms sum_list_update_add [OF assms(1), of steps_left y] by (simp add: loss_rank_def)

lemma loss_rank_falls:
  assumes wf: "loss_wf cnt concurrency s" and n: "loss_next put fb cnt concurrency l s = Returns s'"
  shows "loss_rank s' < loss_rank s"
proof (cases l)
  case Spawn
  with n unspawned_step [of "length (lt_gs s)" concurrency cnt] show ?thesis
    by (auto simp: loss_rank_def split: if_splits)
next
  case (Step g)
  with n have g: "g < length (lt_gs s)" and st: "loss_step put fb g (lt_gs s ! g) s = Returns s'"
    by (auto split: if_splits)
  obtain m pc where x: "lt_gs s ! g = (m, pc)" by fastforce
  from wf g x have a: "acked (m, pc) \<le> nat m" by (auto simp: loss_wf_def)
  note mv = loss_rank_move [OF g x]
  show ?thesis
  proof (cases pc)
    case (Attempting i)
    obtain ks' r where p: "put (lt_ks s) (loss_event fb g i) = (ks', r)" by fastforce
    have "int i < m \<Longrightarrow> loss_event fb g i \<in> set (loss_events fb cnt concurrency)"
      using wf g x by (force simp: loss_wf_def loss_events_def)
    with st x Attempting p failed_write [of "loss_event fb g i" "lt_ks s" ks'] done_write [of "loss_event fb g i" "lt_ks s" ks']
      mv [where ks = ks' and y = "(m, Counting i)" and w = "lt_wg s" and p = "lt_produced s"]
      mv [where ks = "lt_ks s" and y = "(m, Returned)" and w = "lt_wg s - 1" and p = "lt_produced s"]
    show ?thesis by (cases r) (auto simp: loss_step_def loss_rank_def split: if_splits)
  next
    case (Counting i)
    with st x a mv [where ks = "lt_ks s" and y = "(m, Attempting (Suc i))" and w = "lt_wg s" and p = "lt_produced s + 1"]
    show ?thesis by (auto simp: loss_step_def)
  next
    case Returned
    with st x show ?thesis by (simp add: loss_step_def)
  qed
qed

lemma loss_progress:
  assumes wf: "loss_wf cnt concurrency s" and nw: "\<not> loss_waited concurrency s"
  shows "\<exists>l s'. loss_next put fb cnt concurrency l s = Returns s'"
proof (cases "int (length (lt_gs s)) < concurrency")
  case True
  then show ?thesis by (intro exI [of _ Spawn]) simp
next
  case False
  with wf nw have "sum_list (map live_share (lt_gs s)) \<noteq> 0" by (simp add: loss_wf_def loss_waited_def)
  then obtain g n pc where "g < length (lt_gs s)" "lt_gs s ! g = (n, pc)" "pc \<noteq> Returned"
    by (auto simp: all_returned in_set_conv_nth)
  then show ?thesis
    by (intro exI [of _ "Step g"]) (cases pc, auto simp: loss_step_def split: prod.split option.split)
qed

end

sublocale eventually_acking \<subseteq> le: draining_lts "loss_next put fb cnt concurrency" "loss_wf cnt concurrency"
    "\<lambda>_. True" "loss_waited concurrency" loss_rank
  by unfold_locales (auto intro: loss_rank_falls loss_progress)

context eventually_acking
begin

text \<open>From its start the test makes boundedly many steps, can always be brought to its end, and stops nowhere else.\<close>

lemma loss_terminates:
  assumes "exec (loss_next put fb cnt concurrency) ls (loss_start ks) = Some s"
  shows "length ls \<le> failures ks + unspawned cnt concurrency 0"
    and "\<exists>ls' s'. exec (loss_next put fb cnt concurrency) ls' s = Some s' \<and> loss_waited concurrency s'"
    and "(\<And>l. exec (loss_next put fb cnt concurrency) (ls @ [l]) (loss_start ks) = None) \<Longrightarrow> loss_waited concurrency s"
proof -
  note r = le.exec_rank [OF assms loss_start_wf TrueI]
  then show "length ls \<le> failures ks + unspawned cnt concurrency 0" by (simp add: loss_rank_def loss_start_def)
  show "\<exists>ls' s'. exec (loss_next put fb cnt concurrency) ls' s = Some s' \<and> loss_waited concurrency s'"
    using le.final_reachable [of s] r by simp
  show "loss_waited concurrency s"
    if "\<And>l. exec (loss_next put fb cnt concurrency) (ls @ [l]) (loss_start ks) = None"
    by (rule le.maximal_is_final [OF assms loss_start_wf TrueI that])
qed

end

end
