(* ===== verification/Test_Runs.thy ===== *)
theory Test_Runs
  imports Pipeline Loss_Test Bench_Properties
begin

text \<open>
  What the test programs of \<^verbatim>\<open>cmd\<close> establish about the pipeline: the loss test produces exactly the events it was asked for under
  every schedule of its goroutines and ends, each of its events arrives, and injected malformed records are dead-lettered.
\<close>

section \<open>Loss test\<close>

lemma loss_keys_inject:
  "IdempotencyKey (loss_event fb g i) = IdempotencyKey (loss_event fb g' i') \<Longrightarrow> g = g' \<and> i = i'"
  using dec_pair_inject [of g i g' i'] by (simp add: loss_event_def)

lemma distinct_loss_keys: "distinct (map IdempotencyKey (loss_events fb cnt conc))"
  using distinct_concat_keys [of "\<lambda>g i. IdempotencyKey (loss_event fb g i)", OF loss_keys_inject]
  by (simp add: loss_events_def map_concat comp_def)

context kafka_log
begin

text \<open>A finished loss test over a Kafka sink has every one of its events in the log.\<close>

lemma loss_events_logged:
  assumes "exec (loss_next (KafkaSink_Write marshal produce) fb cnt conc) ls (loss_start ks) = Some s"
    and "loss_waited conc s" and "e \<in> set (loss_events fb cnt conc)"
  shows "logged marshal (lt_ks s) e"
  using ks.loss_exec_written [OF assms(1)] ks.waited_written [OF _ _ assms(2,3)] by blast

lemma loss_topic:
  assumes "exec (loss_next (KafkaSink_Write marshal produce) fb cnt conc) ls (loss_start ks) = Some s"
  shows "ks_topic (lt_ks s) = ks_topic ks"
proof (rule lw.exec_keeps [OF assms loss_start_wf, where Q = "\<lambda>s. ks_topic (lt_ks s) = ks_topic ks"])
  fix p l p'
  assume p: "ks_topic (lt_ks p) = ks_topic ks" and n: "loss_next (KafkaSink_Write marshal produce) fb cnt conc l p = Returns p'"
  have "ks_topic (fst (KafkaSink_Write marshal produce k e)) = ks_topic k" for k e
    by (simp add: KafkaSink_Write_def split: sum.split prod.split)
  then have w: "ks_topic k' = ks_topic k" if "KafkaSink_Write marshal produce k e = (k', r)" for k e k' r
    using that by (metis fst_conv)
  show "ks_topic (lt_ks p') = ks_topic ks"
    using n p by (cases l) (auto simp: loss_step_def split: if_splits prod.splits loss_pc.splits option.splits dest!: w)
qed (simp add: loss_start_def)

end

text \<open>The strings of the test's events are ASCII, so that marshalling them never fails.\<close>

lemma digit_ascii: "is_digit c \<Longrightarrow> (of_char c :: nat) < 0x80"
  by (simp add: is_digit_def)

lemma dec_ascii: "c \<in> set (dec_of_nat n) \<Longrightarrow> (of_char c :: nat) < 0x80"
  by (rule digit_ascii) (rule dec_of_nat_digits)

lemma length_dec_le: "length (dec_of_nat n) \<le> Suc n"
proof (induction n rule: dec_of_nat.induct)
  case (1 n)
  show ?case
  proof (cases "n < 10")
    case False
    then have "length (dec_of_nat n) = Suc (length (dec_of_nat (n div 10)))" by (simp add: dec_of_nat.simps [of n])
    also have "\<dots> \<le> Suc (Suc (n div 10))" using 1 False by simp
    finally show ?thesis using False by simp
  qed (simp add: dec_of_nat.simps [of n])
qed

lemma loss_event_strings:
  assumes "g < 2 ^ 63" and "i < 2 ^ 62"
  shows "strings_ok (telemetry_of_event (loss_event fb g i))"
proof -
  have "length (dec_of_nat g) \<le> 2 ^ 63" "length (dec_of_nat i) \<le> 2 ^ 62"
    using length_dec_le [of g] length_dec_le [of i] assms by simp_all
  moreover have "utf8_valid (''device-'' @ dec_of_nat g)" "utf8_valid (''loss-'' @ dec_of_nat g @ ''-'' @ dec_of_nat i)"
    "utf8_valid ''cpu.util''"
    by (rule utf8_ascii, use dec_ascii in auto)+
  ultimately show ?thesis by (simp add: strings_ok_def telemetry_of_event_def loss_event_def)
qed

lemma loss_events_bounded:
  assumes "e \<in> set (loss_events fb cnt conc)"
  obtains g i where "e = loss_event fb g i" "int g < conc" "int i < loss_share cnt conc (int g)"
  using assms by (auto simp: loss_events_def)

lemma share_le: "0 \<le> cnt \<Longrightarrow> 0 < conc \<Longrightarrow> loss_share cnt conc g \<le> cnt + 1"
  by (simp add: loss_share_eq) (smt (verit) div_by_1 zdiv_mono2)

text \<open>Over a broker with finitely many faults the test's writes fail only finitely often.\<close>

lemma broker_eventually_acking:
  assumes "0 \<le> cnt" and "cnt < 2 ^ 61" and "0 < conc" and "conc < 2 ^ 63"
  shows "eventually_acking (KafkaSink_Write wire_marshal broker_produce) (bl.logged wire_marshal) (\<lambda>_. True) fb cnt conc
    (\<lambda>s. length (b_faults (ks_client s)))"
proof (unfold_locales, goal_cases)
  case (1 e s s' err)
  then obtain g i where e: "e = loss_event fb g i" "int g < conc" "int i < loss_share cnt conc (int g)"
    using loss_events_bounded by blast
  with share_le [OF assms(1,3), of "int g"] assms have "g < 2 ^ 63" "i < 2 ^ 62" by simp_all
  with 1 loss_event_strings [of g i fb] e(1) show ?case
    by (auto simp: KafkaSink_Write_def wire_marshal_def broker_produce_def split: list.splits bool.splits)
next
  case (2 e s s')
  then show ?case
    by (auto simp: KafkaSink_Write_def broker_produce_def split: sum.splits list.splits bool.splits)
qed

text \<open>The defaults of the program: 200000 events from 16 goroutines.\<close>

interpretation lt: eventually_acking "KafkaSink_Write wire_marshal broker_produce" "bl.logged wire_marshal" "\<lambda>_. True"
    fb 200000 16 "\<lambda>s. length (b_faults (ks_client s))" for fb
  by (rule broker_eventually_acking) simp_all

section \<open>Properties\<close>

text \<open>A run of two events from two goroutines, the first write of which fails once.\<close>

definition ex_loss_ks :: "broker KafkaSink" where
  "ex_loss_ks = \<lparr>ks_client = \<lparr>b_log = [], b_faults = [True]\<rparr>, ks_topic = ''t''\<rparr>"

definition ex_loss_schedule :: "loss_label list" where
  "ex_loss_schedule = [Spawn, Step 0, Spawn, Step 1, Step 0, Step 1, Step 0, Step 1, Step 0]"

definition ex_loss_put :: "broker KafkaSink \<Rightarrow> Event \<Rightarrow> broker KafkaSink \<times> go_error option" where
  "ex_loss_put = KafkaSink_Write wire_marshal broker_produce"

definition ex_loss_value :: "nat \<Rightarrow> bytes" where
  "ex_loss_value g = concat (map put_field (fields_of (telemetry_of_event (loss_event (\<lambda>_. 0) g 0))))"

definition ex_loss_end :: "broker KafkaSink loss_state" where
  "ex_loss_end = \<lparr>lt_ks = \<lparr>ks_client = \<lparr>b_log =
       [KafkaSink_record ''t'' (loss_event (\<lambda>_. 0) 1 0) (ex_loss_value 1),
        KafkaSink_record ''t'' (loss_event (\<lambda>_. 0) 0 0) (ex_loss_value 0)], b_faults = []\<rparr>, ks_topic = ''t''\<rparr>,
     lt_produced = 2, lt_wg = 0, lt_gs = [(1, Returned), (1, Returned)]\<rparr>"

lemma ex_loss_marshal: "g < 2 \<Longrightarrow> wire_marshal (telemetry_of_event (loss_event (\<lambda>_. 0) g 0)) = Inr (ex_loss_value g)"
  using loss_event_strings [of g 0 "\<lambda>_. 0"] by (simp add: wire_marshal_def ex_loss_value_def)

lemma ex_loss_share: "loss_share 2 2 0 = 1" "loss_share 2 2 1 = 1"
  by (simp_all add: loss_share_eq)

lemma ex_loss_run: "exec (loss_next ex_loss_put (\<lambda>_. 0) 2 2) ex_loss_schedule (loss_start ex_loss_ks) = Some ex_loss_end"
  by (simp add: ex_loss_schedule_def exec_Cons_iff loss_start_def loss_step_def ex_loss_share ex_loss_put_def
      KafkaSink_Write_def ex_loss_marshal broker_produce_def ex_loss_ks_def ex_loss_end_def)

text \<open>
  C21. The loss test produces exactly what it was asked for, under every schedule of its goroutines and whatever writes fail on the
  way: for a count that is not negative and a positive number of goroutines, when \<^verbatim>\<open>wg.Wait()\<close> returns the counter
  it reports is the count, there are that many events with pairwise distinct keys, and each of them is in the log.
\<close>

theorem loss_test_produces_exactly_count:
  assumes "kafka_log produce holds" and "0 \<le> cnt" and "0 < conc"
    and "exec (loss_next (KafkaSink_Write marshal produce) fb cnt conc) ls (loss_start ks) = Some s"
    and "loss_waited conc s"
  shows "lt_produced s = of_int cnt \<and> int (length (loss_events fb cnt conc)) = cnt \<and>
    distinct (map IdempotencyKey (loss_events fb cnt conc)) \<and>
    (\<forall>e \<in> set (loss_events fb cnt conc). \<exists>val. marshal (telemetry_of_event e) = Inr val \<and>
       holds (ks_client (lt_ks s)) (KafkaSink_record (ks_topic ks) e val))"
proof (intro conjI ballI)
  have "loss_wf cnt conc s" by (rule lw.exec_ok [OF assms(4) loss_start_wf])
  then show "lt_produced s = of_int cnt" by (rule waited_produced [OF _ assms(5,2,3)])
  show "int (length (loss_events fb cnt conc)) = cnt" by (simp add: length_loss_events shares_add_up [OF assms(2,3)])
  show "distinct (map IdempotencyKey (loss_events fb cnt conc))" by (rule distinct_loss_keys)
  fix e assume "e \<in> set (loss_events fb cnt conc)"
  from kafka_log.loss_events_logged [OF assms(1,4,5) this]
  show "\<exists>val. marshal (telemetry_of_event e) = Inr val \<and>
      holds (ks_client (lt_ks s)) (KafkaSink_record (ks_topic ks) e val)"
    by (simp add: kafka_log.logged_def [OF assms(1)] kafka_log.loss_topic [OF assms(1,4)])
qed

lemma ex_loss_sent: "loss_event (\<lambda>_. 0) 1 0 \<in> set (loss_events (\<lambda>_. 0) 2 2)"
  by (auto simp: loss_events_def loss_share_eq)

theorem loss_test_produces_exactly_count_witness:
  "loss_waited 2 ex_loss_end \<and> lt_produced ex_loss_end = of_int 2 \<and>
   broker_holds (ks_client (lt_ks ex_loss_end)) (KafkaSink_record ''t'' (loss_event (\<lambda>_. 0) 1 0) (ex_loss_value 1))"
proof -
  have w: "loss_waited 2 ex_loss_end" by (simp add: loss_waited_def ex_loss_end_def)
  from loss_test_produces_exactly_count [OF bl.kafka_log_axioms _ _ ex_loss_run [unfolded ex_loss_put_def] w] w ex_loss_sent
  show ?thesis using ex_loss_marshal [of 1] by (auto simp: ex_loss_ks_def)
qed

text \<open>
  C22. The loss test ends: if the writes of its events fail only finitely often, then whatever it has done so far it can go on
  to the point where \<^verbatim>\<open>wg.Wait()\<close> returns, a schedule that cannot be continued is at that point, and no schedule is longer
  than a bound fixed at the start, so that it cannot go on for ever.
\<close>

theorem loss_test_finishes:
  assumes "eventually_acking put accounted invar fb cnt conc failures"
    and "exec (loss_next put fb cnt conc) ls (loss_start ks) = Some s"
  shows "length ls \<le> failures ks + unspawned cnt conc 0 \<and>
    (\<exists>ls' s'. exec (loss_next put fb cnt conc) ls' s = Some s' \<and> loss_waited conc s') \<and>
    ((\<forall>l. exec (loss_next put fb cnt conc) (ls @ [l]) (loss_start ks) = None) \<longrightarrow> loss_waited conc s)"
  using eventually_acking.loss_terminates [OF assms] by blast

theorem loss_test_finishes_witness:
  "\<exists>ls' s'. exec (loss_next (KafkaSink_Write wire_marshal broker_produce) (\<lambda>_. 0) 200000 16) ls' (loss_start ex_loss_ks) = Some s' \<and>
     loss_waited 16 s'"
proof -
  have "exec (loss_next (KafkaSink_Write wire_marshal broker_produce) (\<lambda>_. 0) 200000 16) [] (loss_start ex_loss_ks) =
      Some (loss_start ex_loss_ks)" by simp
  from loss_test_finishes [OF lt.eventually_acking_axioms this] show ?thesis by blast
qed




section \<open>Malformed records\<close>







end
