(* ===== verification/Flags.thy ===== *)
theory Flags
  imports Json
begin

text \<open>
  The part of Go's \<^verbatim>\<open>flag\<close> package the programs under \<^verbatim>\<open>cmd\<close> use: string, integer, boolean and duration flags, the parsing of the
  command line by \<^verbatim>\<open>flag.Parse\<close>, and under it \<^verbatim>\<open>strconv.ParseInt\<close> with base 0, \<^verbatim>\<open>strconv.ParseBool\<close> and \<^verbatim>\<open>time.ParseDuration\<close>.  An error
  of any of them ends the program with status 2, so that only its presence matters.
\<close>

section \<open>Integers\<close>

abbreviation byte :: "char \<Rightarrow> nat" where
  "byte c \<equiv> of_char c"

text \<open>\<^verbatim>\<open>lower(c)\<close>: the byte with bit 5 set.\<close>

definition lower :: "char \<Rightarrow> nat" where
  "lower c = (if byte c div 32 mod 2 = 1 then byte c else byte c + 32)"

definition digit_value :: "char \<Rightarrow> nat option" where
  "digit_value c =
     (if is_digit c then Some (byte c - 48)
      else if 97 \<le> lower c \<and> lower c \<le> 122 then Some (lower c - 97 + 10)
      else None)"

fun read_digits :: "nat \<Rightarrow> nat \<Rightarrow> string \<Rightarrow> nat option" where
  "read_digits b n [] = Some n"
| "read_digits b n (c # s) =
     (if c = CHR ''_'' then read_digits b n s
      else case digit_value c of
        None \<Rightarrow> None
      | Some d \<Rightarrow> if b \<le> d then None else read_digits b (n * b + d) s)"

text \<open>The base and the digits after its prefix.\<close>

definition base_of :: "string \<Rightarrow> nat \<times> string" where
  "base_of s =
     (if s \<noteq> [] \<and> hd s = CHR ''0'' then
        (if 3 \<le> length s \<and> lower (s ! 1) = 98 then (2, drop 2 s)
         else if 3 \<le> length s \<and> lower (s ! 1) = 111 then (8, drop 2 s)
         else if 3 \<le> length s \<and> lower (s ! 1) = 120 then (16, drop 2 s)
         else (8, drop 1 s))
      else (10, s))"

text \<open>\<^verbatim>\<open>underscoreOK\<close>: the last thing seen, and the rule that an underscore stands between digits or after a base prefix.\<close>

datatype saw = SawStart | SawDigit | SawUnderscore | SawOther

fun underscores :: "bool \<Rightarrow> saw \<Rightarrow> string \<Rightarrow> bool" where
  "underscores hex sw [] = (sw \<noteq> SawUnderscore)"
| "underscores hex sw (c # s) =
     (if is_digit c \<or> (hex \<and> 97 \<le> lower c \<and> lower c \<le> 102) then underscores hex SawDigit s
      else if c = CHR ''_'' then (if sw = SawDigit then underscores hex SawUnderscore s else False)
      else if sw = SawUnderscore then False
      else underscores hex SawOther s)"

definition underscoreOK :: "string \<Rightarrow> bool" where
  "underscoreOK s =
     (if 2 \<le> length s \<and> hd s = CHR ''0'' \<and> lower (s ! 1) \<in> {98, 111, 120}
      then underscores (lower (s ! 1) = 120) SawDigit (drop 2 s)
      else underscores False SawStart s)"

definition ParseUint :: "string \<Rightarrow> nat option" where
  "ParseUint s =
     (if s = [] then None
      else case base_of s of
        (b, ds) \<Rightarrow>
          (case read_digits b 0 ds of
             None \<Rightarrow> None
           | Some n \<Rightarrow> if 2 ^ 64 \<le> n \<or> (CHR ''_'' \<in> set ds \<and> \<not> underscoreOK s) then None else Some n))"

text \<open>The sign in front of a number.\<close>

definition signed :: "string \<Rightarrow> bool \<times> string" where
  "signed s =
     (case s of
        [] \<Rightarrow> (False, [])
      | c # s' \<Rightarrow> if c = CHR ''-'' then (True, s') else if c = CHR ''+'' then (False, s') else (False, s))"

definition ParseInt :: "string \<Rightarrow> int option" where
  "ParseInt s =
     (case signed s of
        (neg, u) \<Rightarrow>
          (case ParseUint u of
             None \<Rightarrow> None
           | Some n \<Rightarrow>
               (if \<not> neg \<and> 2 ^ 63 \<le> n then None
                else if neg \<and> 2 ^ 63 < n then None
                else Some (if neg then - int n else int n))))"

section \<open>Booleans\<close>

definition ParseBool :: "string \<Rightarrow> bool option" where
  "ParseBool s =
     (if s \<in> {''1'', ''t'', ''T'', ''true'', ''TRUE'', ''True''} then Some True
      else if s \<in> {''0'', ''f'', ''F'', ''false'', ''FALSE'', ''False''} then Some False
      else None)"

section \<open>Durations\<close>

text \<open>A duration is a number of nanoseconds.  The micro sign has two encodings.\<close>

definition unitMap :: "string \<Rightarrow> nat option" where
  "unitMap u =
     map_of [(''ns'', 1), (''us'', 1000), ([CHR 0xC2, CHR 0xB5, CHR ''s''], 1000), ([CHR 0xCE, CHR 0xBC, CHR ''s''], 1000),
       (''ms'', 1000000), (''s'', 1000000000), (''m'', 60000000000), (''h'', 3600000000000)] u"

text \<open>\<^verbatim>\<open>leadingInt\<close>: the number in front and the rest; an error when it passes two to the 63rd.\<close>

fun leadingInt :: "nat \<Rightarrow> string \<Rightarrow> (nat \<times> string) option" where
  "leadingInt x [] = Some (x, [])"
| "leadingInt x (c # s) =
     (if \<not> is_digit c then Some (x, c # s)
      else if 2 ^ 63 div 10 < x then None
      else let y = x * 10 + (byte c - 48) in if 2 ^ 63 < y then None else leadingInt y s)"

text \<open>\<^verbatim>\<open>leadingFraction\<close>: numerator, scale and rest; digits that no longer fit are read and ignored.\<close>

fun leadingFraction :: "bool \<Rightarrow> nat \<Rightarrow> nat \<Rightarrow> string \<Rightarrow> nat \<times> nat \<times> string" where
  "leadingFraction ovf x scale [] = (x, scale, [])"
| "leadingFraction ovf x scale (c # s) =
     (if \<not> is_digit c then (x, scale, c # s)
      else if ovf then leadingFraction True x scale s
      else if (2 ^ 63 - 1) div 10 < x then leadingFraction True x scale s
      else let y = x * 10 + (byte c - 48)
           in if 2 ^ 63 < y then leadingFraction True x scale s else leadingFraction False y (scale * 10) s)"

definition in_unit :: "char \<Rightarrow> bool" where
  "in_unit c \<longleftrightarrow> c \<noteq> CHR ''.'' \<and> \<not> is_digit c"

text \<open>\<^verbatim>\<open>uint64(float64(f) * (float64(unit) / scale))\<close>.\<close>

definition fraction_part :: "nat \<Rightarrow> nat \<Rightarrow> nat \<Rightarrow> nat" where
  "fraction_part f scale unit =
     (case round64 (float_of_int (int f) * div64 (of_nat unit) (of_nat scale)) of
        Some x \<Rightarrow> nat \<lfloor>x\<rfloor>
      | None \<Rightarrow> 0)"

text \<open>One turn of the loop of \<^verbatim>\<open>ParseDuration\<close>: the nanoseconds of a number with its unit, and the rest.\<close>

definition number_part :: "string \<Rightarrow> (nat \<times> nat \<times> nat \<times> string) option" where
  "number_part s =
     (if s = [] \<or> \<not> (hd s = CHR ''.'' \<or> is_digit (hd s)) then None
      else case leadingInt 0 s of
        None \<Rightarrow> None
      | Some (v, s1) \<Rightarrow>
          (case (if s1 \<noteq> [] \<and> hd s1 = CHR ''.'' then leadingFraction False 0 1 (tl s1) else (0, 1, s1)) of
             (f, scale, s2) \<Rightarrow>
               if length s1 = length s \<and> (s1 = [] \<or> hd s1 \<noteq> CHR ''.'' \<or> length s2 = length (tl s1)) then None
               else Some (v, f, scale, s2)))"

definition duration_part :: "string \<Rightarrow> (nat \<times> string) option" where
  "duration_part s =
     (case number_part s of
        None \<Rightarrow> None
      | Some (v, f, scale, s2) \<Rightarrow>
          (let u = takeWhile in_unit s2; rest = dropWhile in_unit s2
           in if u = [] then None
              else case unitMap u of
                None \<Rightarrow> None
              | Some unit \<Rightarrow>
                  if 2 ^ 63 div unit < v then None
                  else (let w = v * unit + (if 0 < f then fraction_part f scale unit else 0)
                        in if 2 ^ 63 < w then None else Some (w, rest))))"

lemma leadingInt_shorter: "leadingInt x s = Some (v, s') \<Longrightarrow> length s' \<le> length s"
  by (induction x s arbitrary: v s' rule: leadingInt.induct) (fastforce simp: Let_def split: if_splits)+

lemma leadingFraction_shorter: "leadingFraction ovf x scale s = (f, sc, s') \<Longrightarrow> length s' \<le> length s"
  by (induction ovf x scale s arbitrary: f sc s' rule: leadingFraction.induct) (fastforce simp: Let_def split: if_splits)+

lemma number_part_shorter: "number_part s = Some (v, f, scale, s') \<Longrightarrow> length s' \<le> length s"
  by (fastforce simp: number_part_def dest: leadingInt_shorter leadingFraction_shorter
      split: if_splits option.splits prod.splits)

lemma duration_part_shorter:
  assumes "duration_part s = Some (w, s')"
  shows "length s' < length s"
proof -
  from assms obtain v f scale s2 where n: "number_part s = Some (v, f, scale, s2)"
    and u: "takeWhile in_unit s2 \<noteq> []" "s' = dropWhile in_unit s2"
    by (auto simp: duration_part_def Let_def split: option.splits if_splits)
  have "length (takeWhile in_unit s2) + length (dropWhile in_unit s2) = length s2"
    by (metis length_append takeWhile_dropWhile_id)
  moreover have "0 < length (takeWhile in_unit s2)" using u(1) by blast
  ultimately show ?thesis unfolding u(2) using number_part_shorter [OF n] by linarith
qed

text \<open>The sum is a 64-bit word and is compared after it has wrapped.\<close>

function duration_sum :: "nat \<Rightarrow> string \<Rightarrow> nat option" where
  "duration_sum d s =
     (if s = [] then Some d
      else case duration_part s of
        None \<Rightarrow> None
      | Some (w, s') \<Rightarrow> (let e = (d + w) mod 2 ^ 64 in if 2 ^ 63 < e then None else duration_sum e s'))"
  by auto
termination by (relation "measure (length \<circ> snd)") (simp, metis comp_apply duration_part_shorter in_measure snd_conv)

declare duration_sum.simps [simp del]

definition ParseDuration :: "string \<Rightarrow> int option" where
  "ParseDuration s =
     (case signed s of
        (neg, u) \<Rightarrow>
          (if u = ''0'' then Some 0
           else if u = [] then None
           else case duration_sum 0 u of
             None \<Rightarrow> None
           | Some d \<Rightarrow>
               (if neg then Some (- int d)
                else if 2 ^ 63 - 1 < d then None
                else Some (int d))))"

section \<open>Flag sets\<close>

datatype flag_value = StringValue string | IntValue int | BoolValue bool | DurationValue int

text \<open>A flag set: the flags in the order they are defined, with the values their variables hold.\<close>

type_synonym flag_set = "(string \<times> flag_value) list"

text \<open>\<^verbatim>\<open>Value.Set\<close>: the type of the flag decides how the text is read.\<close>

fun set_value :: "flag_value \<Rightarrow> string \<Rightarrow> flag_value option" where
  "set_value (StringValue _) s = Some (StringValue s)"
| "set_value (IntValue _) s = map_option IntValue (ParseInt s)"
| "set_value (BoolValue _) s = map_option BoolValue (ParseBool s)"
| "set_value (DurationValue _) s = map_option DurationValue (ParseDuration s)"

fun is_bool :: "flag_value \<Rightarrow> bool" where
  "is_bool (BoolValue _) = True"
| "is_bool _ = False"

section \<open>Parsing\<close>

datatype parsed = Parsed flag_set "string list" | Exits int

datatype parse_step = Stops "string list" | Continues flag_set "string list" | Fails int

text \<open>The name of a flag and the value after the first equals sign that is not in front.\<close>

definition split_flag :: "string \<Rightarrow> string \<times> string option" where
  "split_flag n =
     (let name = hd n # takeWhile (\<lambda>c. c \<noteq> CHR ''='') (tl n); rest = dropWhile (\<lambda>c. c \<noteq> CHR ''='') (tl n)
      in (name, if rest = [] then None else Some (tl rest)))"

definition update_flag :: "flag_set \<Rightarrow> string \<Rightarrow> flag_value \<Rightarrow> flag_set" where
  "update_flag fs name v = map (\<lambda>(n, w). if n = name then (n, v) else (n, w)) fs"

definition store_flag :: "flag_set \<Rightarrow> string \<Rightarrow> flag_value \<Rightarrow> string \<Rightarrow> string list \<Rightarrow> parse_step" where
  "store_flag fs name w text args =
     (case set_value w text of
        None \<Rightarrow> Fails 2
      | Some v \<Rightarrow> Continues (update_flag fs name v) args)"

text \<open>\<^verbatim>\<open>parseOne\<close>.  Asking for help ends the program with status 0.\<close>

definition parse_one :: "flag_set \<Rightarrow> string \<Rightarrow> string list \<Rightarrow> parse_step" where
  "parse_one fs s args =
     (if length s < 2 \<or> hd s \<noteq> CHR ''-'' then Stops (s # args)
      else if s = ''--'' then Stops args
      else let n = (if s ! 1 = CHR ''-'' then drop 2 s else drop 1 s)
           in if n = [] \<or> hd n = CHR ''-'' \<or> hd n = CHR ''='' then Fails 2
              else case split_flag n of
                (name, val) \<Rightarrow>
                  (case map_of fs name of
                     None \<Rightarrow> Fails (if name \<in> {''help'', ''h''} then 0 else 2)
                   | Some w \<Rightarrow>
                       if is_bool w then store_flag fs name w (case val of None \<Rightarrow> ''true'' | Some t \<Rightarrow> t) args
                       else (case val of
                               Some t \<Rightarrow> store_flag fs name w t args
                             | None \<Rightarrow>
                                 (case args of
                                    [] \<Rightarrow> Fails 2
                                  | t # args' \<Rightarrow> store_flag fs name w t args'))))"

lemma parse_one_shorter: "parse_one fs s args = Continues fs' args' \<Longrightarrow> length args' \<le> length args"
  by (auto simp: parse_one_def store_flag_def Let_def split: if_splits prod.splits option.splits list.splits)

function flag_Parse :: "flag_set \<Rightarrow> string list \<Rightarrow> parsed" where
  "flag_Parse fs [] = Parsed fs []"
| "flag_Parse fs (s # args) =
     (case parse_one fs s args of
        Stops rest \<Rightarrow> Parsed fs rest
      | Fails status \<Rightarrow> Exits status
      | Continues fs' args' \<Rightarrow> flag_Parse fs' args')"
  by pat_completeness auto
termination
  by (relation "measure (length \<circ> snd)") (auto dest: parse_one_shorter)

section \<open>Types and ranges\<close>

datatype flag_kind = StringKind | IntKind | BoolKind | DurationKind

fun kind_of :: "flag_value \<Rightarrow> flag_kind" where
  "kind_of (StringValue _) = StringKind"
| "kind_of (IntValue _) = IntKind"
| "kind_of (BoolValue _) = BoolKind"
| "kind_of (DurationValue _) = DurationKind"

definition int64 :: "int \<Rightarrow> bool" where
  "int64 i \<longleftrightarrow> - (2 ^ 63) \<le> i \<and> i < 2 ^ 63"

fun in_range :: "flag_value \<Rightarrow> bool" where
  "in_range (IntValue i) = int64 i"
| "in_range (DurationValue d) = int64 d"
| "in_range _ = True"

lemma ParseInt_range: "ParseInt s = Some i \<Longrightarrow> int64 i"
  by (auto simp: ParseInt_def int64_def split: prod.splits option.splits if_splits)

lemma duration_sum_bound: "duration_sum d s = Some e \<Longrightarrow> d \<le> 2 ^ 63 \<Longrightarrow> e \<le> 2 ^ 63"
proof (induction d s rule: duration_sum.induct)
  case (1 d s)
  from "1.prems"(1) consider "s = []" "e = d"
    | w s' where "s \<noteq> []" "duration_part s = Some (w, s')" "\<not> 2 ^ 63 < (d + w) mod 2 ^ 64"
      "duration_sum ((d + w) mod 2 ^ 64) s' = Some e"
    unfolding duration_sum.simps [of d s] by (auto simp: Let_def split: if_splits option.splits)
  then show ?case
  proof cases
    case 2
    with "1.IH" [OF 2(1,2) refl refl 2(3,4)] show ?thesis by simp
  qed (use "1.prems"(2) in simp)
qed

lemma ParseDuration_range: "ParseDuration s = Some d \<Longrightarrow> int64 d"
  by (auto simp: ParseDuration_def int64_def split: prod.splits option.splits if_splits dest!: duration_sum_bound)

lemma set_value_typed: "set_value w s = Some v \<Longrightarrow> kind_of v = kind_of w \<and> in_range v"
  by (cases w) (auto dest: ParseInt_range ParseDuration_range)

text \<open>Two states of one flag set: the same flags with the same types.\<close>

definition same_flags :: "flag_set \<Rightarrow> flag_set \<Rightarrow> bool" where
  "same_flags fs gs \<longleftrightarrow> map fst fs = map fst gs \<and> map (kind_of \<circ> snd) fs = map (kind_of \<circ> snd) gs"

lemma update_flag_typed:
  assumes "map_of fs name = Some w" and "kind_of v = kind_of w" and "distinct (map fst fs)"
  shows "same_flags fs (update_flag fs name v)"
  unfolding same_flags_def update_flag_def using assms
  by (auto simp: comp_def case_prod_beta) (metis eq_key_imp_eq_value)

lemma parse_one_typed:
  assumes "parse_one fs s args = Continues fs' args'" and "distinct (map fst fs)"
  shows "same_flags fs fs' \<and> ((\<forall>v \<in> snd ` set fs. in_range v) \<longrightarrow> (\<forall>v \<in> snd ` set fs'. in_range v))"
proof -
  from assms(1) obtain name w t v where v: "map_of fs name = Some w" "set_value w t = Some v" "fs' = update_flag fs name v"
    by (auto simp: parse_one_def store_flag_def Let_def split: if_splits prod.splits option.splits list.splits)
  with set_value_typed [OF v(2)] update_flag_typed [OF v(1) _ assms(2)] show ?thesis
    by (auto simp: update_flag_def split: if_splits)
qed

lemma flag_Parse_typed:
  assumes "flag_Parse fs args = Parsed fs' rest" and "distinct (map fst fs)"
  shows "same_flags fs fs' \<and> ((\<forall>v \<in> snd ` set fs. in_range v) \<longrightarrow> (\<forall>v \<in> snd ` set fs'. in_range v))"
  using assms
proof (induction fs args rule: flag_Parse.induct)
  case (2 fs s args)
  show ?case
  proof (cases "parse_one fs s args")
    case (Continues fs1 args1)
    note t = parse_one_typed [OF Continues "2.prems"(2)]
    then have "distinct (map fst fs1)" using "2.prems"(2) by (simp add: same_flags_def)
    with "2.IH" [OF Continues _ this] "2.prems"(1) Continues have "same_flags fs1 fs' \<and>
        ((\<forall>v \<in> snd ` set fs1. in_range v) \<longrightarrow> (\<forall>v \<in> snd ` set fs'. in_range v))" by simp
    with t show ?thesis unfolding same_flags_def by metis
  qed (use 2 in \<open>simp_all add: same_flags_def\<close>)
qed (simp add: same_flags_def)

section \<open>Reading what is printed\<close>

definition dec_value :: "nat \<Rightarrow> string \<Rightarrow> nat" where
  "dec_value x ds = foldl (\<lambda>a c. 10 * a + (of_char c - 48)) x ds"

lemma dec_value_simps [simp]:
  "dec_value x [] = x" "dec_value x (c # ds) = dec_value (10 * x + (of_char c - 48)) ds"
  by (simp_all add: dec_value_def)

lemma dec_value_ge: "x \<le> dec_value x ds"
proof (induction ds arbitrary: x)
  case (Cons c ds)
  from Cons [of "10 * x + (of_char c - 48)"] show ?case by simp
qed simp

lemma dec_value_dec [simp]: "dec_value 0 (dec_of_nat n) = n"
  using nat_of_dec_of_nat [of n] by (simp add: dec_value_def nat_of_dec_def)

lemma read_digits_dec:
  assumes "\<And>c. c \<in> set ds \<Longrightarrow> is_digit c"
  shows "read_digits 10 x ds = Some (dec_value x ds)"
  using assms
proof (induction ds arbitrary: x)
  case (Cons c ds)
  from Cons.prems [of c] have "is_digit c" by simp
  then have "c \<noteq> CHR ''_''" "byte c - 48 < 10" by (auto simp: is_digit_def)
  with Cons \<open>is_digit c\<close> show ?case by (simp add: digit_value_def mult.commute)
qed simp

lemma leadingInt_dec:
  assumes "\<And>c. c \<in> set ds \<Longrightarrow> is_digit c" and "dec_value x ds \<le> 2 ^ 63"
  shows "leadingInt x (ds @ s) = leadingInt (dec_value x ds) s"
  using assms
proof (induction ds arbitrary: x)
  case (Cons c ds)
  let ?y = "10 * x + (byte c - 48)"
  have "?y \<le> 2 ^ 63" using dec_value_ge [of ?y ds] Cons.prems(2) by simp
  with Cons show ?case by (simp add: mult.commute)
qed simp

lemma hd_dec: "0 < n \<Longrightarrow> hd (dec_of_nat n) \<noteq> CHR ''0''"
proof (induction n rule: dec_of_nat.induct)
  case (1 n)
  have "digit d \<noteq> CHR ''0''" if "0 < d" "d < 10" for d
    using of_char_digit [OF that(2)] that(1) by auto
  with 1 show ?case by (subst dec_of_nat.simps) (auto simp: hd_append)
qed

lemma dec_prefix_cases: "\<exists>c s. dec_of_nat n = c # s \<and> is_digit c"
proof -
  obtain c s where "dec_of_nat n = c # s" by (cases "dec_of_nat n") auto
  with dec_of_nat_digits [of c n] show ?thesis by simp
qed

lemma signed_dec [simp]:
  "signed (dec_of_nat n @ s) = (False, dec_of_nat n @ s)" "signed (CHR ''-'' # s) = (True, s)"
  using dec_prefix_cases [of n] by (auto simp: signed_def is_digit_def)

lemma ParseUint_dec: "n < 2 ^ 64 \<Longrightarrow> ParseUint (dec_of_nat n) = Some n"
proof -
  assume n: "n < 2 ^ 64"
  have u: "CHR ''_'' \<notin> set (dec_of_nat n)" using dec_of_nat_digits [of "CHR ''_''" n] by (auto simp: is_digit_def)
  have r: "read_digits 10 0 (dec_of_nat n) = Some n" using read_digits_dec [of "dec_of_nat n" 0] dec_of_nat_digits by simp
  show ?thesis
  proof (cases "n = 0")
    case True
    have "dec_of_nat 0 = ''0''" by code_simp
    with True show ?thesis by (simp add: ParseUint_def base_of_def)
  next
    case False
    then have "base_of (dec_of_nat n) = (10, dec_of_nat n)" using hd_dec by (simp add: base_of_def)
    with u r n show ?thesis by (simp add: ParseUint_def)
  qed
qed

lemma ParseInt_dec: "int64 i \<Longrightarrow> ParseInt (dec_of_int i) = Some i"
  using signed_dec(1) [of "nat i" "[]"] ParseUint_dec [of "nat i"] ParseUint_dec [of "nat (- i)"]
  by (auto simp: ParseInt_def dec_of_int_def int64_def)

lemma duration_part_dec:
  assumes "n \<le> 2 ^ 63"
  shows "duration_part (dec_of_nat n @ ''ns'') = Some (n, [])"
proof -
  have "leadingInt 0 (dec_of_nat n @ ''ns'') = Some (n, ''ns'')"
    using leadingInt_dec [of "dec_of_nat n" 0 "''ns''"] dec_of_nat_digits assms by (simp add: is_digit_def)
  then have "number_part (dec_of_nat n @ ''ns'') = Some (n, 0, 1, ''ns'')"
    using dec_prefix_cases [of n] by (auto simp: number_part_def)
  then show ?thesis using assms by (simp add: duration_part_def in_unit_def is_digit_def unitMap_def)
qed

lemma ParseDuration_dec: "int64 d \<Longrightarrow> ParseDuration (dec_of_int d @ ''ns'') = Some d"
proof -
  assume d: "int64 d"
  have s: "duration_sum 0 (dec_of_nat n @ ''ns'') = Some n" if "n \<le> 2 ^ 63" for n
    using duration_part_dec [OF that] that by (simp add: duration_sum.simps [of _ "_ @ _"] duration_sum.simps [of _ "[]"] Let_def)
  have z: "dec_of_nat n @ ''ns'' \<noteq> ''0''" for n by (cases "dec_of_nat n") auto
  show ?thesis
  proof (cases "d < 0")
    case True
    with d s [of "nat (- d)"] z show ?thesis by (simp add: ParseDuration_def dec_of_int_def int64_def)
  next
    case False
    with d s [of "nat d"] z show ?thesis by (simp add: ParseDuration_def dec_of_int_def int64_def)
  qed
qed

text \<open>The text of a value that gives it back.\<close>

fun value_text :: "flag_value \<Rightarrow> string" where
  "value_text (StringValue s) = s"
| "value_text (IntValue i) = dec_of_int i"
| "value_text (BoolValue b) = (if b then ''true'' else ''false'')"
| "value_text (DurationValue d) = dec_of_int d @ ''ns''"

lemma set_value_text: "kind_of v = kind_of w \<Longrightarrow> in_range v \<Longrightarrow> set_value w (value_text v) = Some v"
  by (cases v; cases w) (auto simp: ParseInt_dec ParseDuration_dec ParseBool_def)

section \<open>Command lines\<close>

definition flag_arg :: "string \<times> flag_value \<Rightarrow> string" where
  "flag_arg f = CHR ''-'' # fst f @ CHR ''='' # value_text (snd f)"

definition well_named :: "string \<Rightarrow> bool" where
  "well_named n \<longleftrightarrow> n \<noteq> [] \<and> hd n \<noteq> CHR ''-'' \<and> CHR ''='' \<notin> set n"

lemma split_flag_arg: "well_named n \<Longrightarrow> split_flag (n @ CHR ''='' # t) = (n, Some t)"
proof -
  assume n: "well_named n"
  then obtain c m where m: "n = c # m" "CHR ''='' \<notin> set m" by (cases n) (auto simp: well_named_def)
  then have "takeWhile (\<lambda>c. c \<noteq> CHR ''='') (m @ CHR ''='' # t) = m"
    "dropWhile (\<lambda>c. c \<noteq> CHR ''='') (m @ CHR ''='' # t) = CHR ''='' # t"
    by (subst takeWhile_append2 dropWhile_append2; auto)+
  with m(1) show ?thesis by (simp add: split_flag_def Let_def)
qed

lemma split_flag_bare: "well_named n \<Longrightarrow> split_flag n = (n, None)"
  by (cases n) (auto simp: well_named_def split_flag_def Let_def takeWhile_eq_all_conv dropWhile_eq_Nil_conv)

lemma parse_flag_arg:
  assumes "well_named n" and "map_of fs n = Some w" and "kind_of v = kind_of w" and "in_range v"
  shows "parse_one fs (flag_arg (n, v)) args = Continues (update_flag fs n v) args"
proof -
  obtain c m where n: "n = c # m" "c \<noteq> CHR ''-''" "c \<noteq> CHR ''=''"
    using assms(1) by (cases n) (auto simp: well_named_def)
  with split_flag_arg [OF assms(1), of "value_text v"] assms(2) set_value_text [OF assms(3,4)]
  show ?thesis by (simp add: parse_one_def flag_arg_def store_flag_def)
qed

lemma map_of_update_flag:
  "map_of (update_flag fs n v) m = (if m = n \<and> map_of fs n \<noteq> None then Some v else map_of fs m)"
  by (induction fs) (auto simp: update_flag_def)

text \<open>Each argument sets its flag, a later one overriding an earlier one.\<close>

lemma flag_Parse_args:
  assumes "\<And>n v. (n, v) \<in> set us \<Longrightarrow> well_named n \<and> in_range v \<and> (\<exists>w. map_of fs n = Some w \<and> kind_of v = kind_of w)"
    and "distinct (map fst fs)"
  shows "flag_Parse fs (map flag_arg us @ args) = flag_Parse (fold (\<lambda>(n, v) fs. update_flag fs n v) us fs) args"
  using assms
proof (induction us arbitrary: fs)
  case (Cons u us)
  obtain n v where u: "u = (n, v)" by (cases u)
  from Cons.prems(1) [of n v] u obtain w where w: "well_named n" "in_range v" "map_of fs n = Some w" "kind_of v = kind_of w"
    by auto
  let ?fs = "update_flag fs n v"
  have same: "same_flags fs ?fs" by (rule update_flag_typed [OF w(3,4) Cons.prems(2)])
  have "\<exists>w'. map_of ?fs m = Some w' \<and> kind_of x = kind_of w'" if "(m, x) \<in> set us" for m x
  proof -
    from Cons.prems(1) [of m x] that obtain w' where w': "map_of fs m = Some w'" "kind_of x = kind_of w'" by auto
    with w(3,4) show ?thesis by (cases "m = n") (simp_all add: map_of_update_flag)
  qed
  moreover have "distinct (map fst ?fs)" using same Cons.prems(2) by (simp add: same_flags_def)
  ultimately have "flag_Parse ?fs (map flag_arg us @ args) =
      flag_Parse (fold (\<lambda>(n, v) fs. update_flag fs n v) us ?fs) args"
    using Cons.IH [of ?fs] Cons.prems(1) by force
  with u parse_flag_arg [OF w(1,3,4,2), of "map flag_arg us @ args"] show ?case by simp
qed simp

text \<open>Arguments for all flags of a set put it into any state of the same flags.\<close>

lemma update_flag_notin: "n \<notin> fst ` set fs \<Longrightarrow> update_flag fs n v = fs"
  by (induction fs) (auto simp: update_flag_def)

lemma fold_update_all:
  assumes "map fst fs = map fst gs" and "distinct (map fst pre @ map fst gs)"
  shows "fold (\<lambda>(n, v) fs. update_flag fs n v) gs (pre @ fs) = pre @ gs"
  using assms
proof (induction gs arbitrary: pre fs)
  case (Cons g gs)
  obtain n v where g: "g = (n, v)" by (cases g)
  from Cons.prems(1) g obtain w fs' where fs: "fs = (n, w) # fs'" "map fst fs' = map fst gs" by (cases fs) auto
  from Cons.prems(2) g fs have "n \<notin> fst ` set pre" "n \<notin> set (map fst gs)" by auto
  then have n: "n \<notin> fst ` set pre" "n \<notin> fst ` set fs'" unfolding fs(2) [symmetric] by simp_all
  have "update_flag (pre @ (n, w) # fs') n v = (pre @ [(n, v)]) @ fs'"
    using update_flag_notin [OF n(1)] update_flag_notin [OF n(2)] by (simp add: update_flag_def)
  with Cons.IH [of fs' "pre @ [(n, v)]"] Cons.prems(2) fs g show ?case by simp
qed simp

lemma flag_Parse_all:
  assumes "same_flags fs gs" and "distinct (map fst fs)" and "\<And>f. f \<in> set gs \<Longrightarrow> well_named (fst f) \<and> in_range (snd f)"
  shows "flag_Parse fs (map flag_arg gs @ args) = flag_Parse gs args"
proof -
  have "\<exists>w. map_of fs n = Some w \<and> kind_of v = kind_of w" if "(n, v) \<in> set gs" for n v
  proof -
    from that obtain i where i: "i < length gs" "gs ! i = (n, v)" by (auto simp: in_set_conv_nth)
    from assms(1) have "length fs = length gs" unfolding same_flags_def by (metis length_map)
    with i have "fst (fs ! i) = n" "kind_of (snd (fs ! i)) = kind_of v" "fs ! i \<in> set fs"
      using assms(1) unfolding same_flags_def by (metis (no_types) fst_conv nth_map, metis (no_types) comp_apply nth_map snd_conv, simp)
    then show ?thesis using assms(2) by (intro exI [of _ "snd (fs ! i)"]) (metis map_of_eq_Some_iff prod.collapse)
  qed
  then have "flag_Parse fs (map flag_arg gs @ args) = flag_Parse (fold (\<lambda>(n, v) fs. update_flag fs n v) gs fs) args"
    using assms(2,3) by (intro flag_Parse_args) force+
  also have "fold (\<lambda>(n, v) fs. update_flag fs n v) gs fs = gs"
    using fold_update_all [of fs gs "[]"] assms(1,2) by (simp add: same_flags_def)
  finally show ?thesis .
qed

text \<open>A flag that is not defined ends the program.\<close>

lemma flag_Parse_undefined:
  assumes "well_named n" and "map_of fs n = None" and "n \<notin> {''help'', ''h''}"
  shows "flag_Parse fs ((CHR ''-'' # n) # args) = Exits 2" "flag_Parse fs ((CHR ''-'' # n @ CHR ''='' # t) # args) = Exits 2"
proof -
  obtain c m where "n = c # m" "c \<noteq> CHR ''-''" "c \<noteq> CHR ''=''"
    using assms(1) by (cases n) (auto simp: well_named_def)
  with split_flag_bare [OF assms(1)] split_flag_arg [OF assms(1), of t] assms(2,3)
  show "flag_Parse fs ((CHR ''-'' # n) # args) = Exits 2" "flag_Parse fs ((CHR ''-'' # n @ CHR ''='' # t) # args) = Exits 2"
    by (simp_all add: parse_one_def)
qed

end
