(* ===== verification/Process.thy ===== *)
theory Process
  imports Reporting Flush_Race Delivery
begin

text \<open>
  The consumer process over a Timescale sink, with everything in it that moves: the goroutine of \<^verbatim>\<open>Consumer.Run\<close>,
  the sink's \<^verbatim>\<open>tickerLoop\<close>, and the death of the process at any point, also in the middle of a flush, after which a new process
  resumes from the committed offsets.  \<^verbatim>\<open>Run\<close> is the step function of theory \<open>Reporting\<close>, its calls of the sink broken up into
  the steps of theory \<open>Flush_Race\<close>.
\<close>

section \<open>The process\<close>

text \<open>
  Where the main goroutine is in a call of the sink: not in one; in \<^verbatim>\<open>Write\<close>, past the mutex and about to call
  \<^verbatim>\<open>Flush\<close>; or in \<^verbatim>\<open>Flush\<close>.  An \<open>Inside Idle\<close> is a flush that is about to return.
\<close>

datatype sink_call = Outside | Entering | Inside flush_pc

fun call_batch :: "sink_call \<Rightarrow> Event list" where
  "call_batch (Inside f) = in_batch f"
| "call_batch k = []"

text \<open>
  What follows the sink's answer, which is nil: the end of \<^verbatim>\<open>persist\<close>, or the observation of the flush time.  \<open>run_step\<close> of
  theory \<open>Reporting\<close> has the same two continuations after the whole call.
\<close>

fun call_returns ::
  "run_pc \<Rightarrow> ('s, 'r, 'q, 'c) Consumer \<Rightarrow> (sink_call \<times> run_pc \<times> ('s, 'r, 'q, 'c) Consumer) run" where
  "call_returns (Persisting (d # ds) (b # bs)) c =
     Returns (Outside, Persisting ds bs, metric ConsumedTotal_Inc (c\<lparr>consumed := consumed c + 1\<rparr>))"
| "call_returns Flushing c = Returns (Outside, Draining, metric BatchFlushSeconds_Observe c)"
| "call_returns _ c = Blocks"

definition start_flush ::
  "run_pc \<Rightarrow> ('db TimescaleSink, 'r, 'q, 'c) Consumer \<Rightarrow>
     (sink_call \<times> run_pc \<times> ('db TimescaleSink, 'r, 'q, 'c) Consumer) run" where
  "start_flush pc c = (case flush_begin (csink c) of (s', f) \<Rightarrow> Returns (Inside f, pc, c\<lparr>csink := s'\<rparr>))"

text \<open>The critical section of \<^verbatim>\<open>Write\<close>, and what it does next.\<close>

definition start_write ::
  "Event \<Rightarrow> run_pc \<Rightarrow> ('db TimescaleSink, 'r, 'q, 'c) Consumer \<Rightarrow>
     (sink_call \<times> run_pc \<times> ('db TimescaleSink, 'r, 'q, 'c) Consumer) run" where
  "start_write e pc c =
     (let s1 = (csink c)\<lparr>ts_buffer := ts_buffer (csink c) @ [e]\<rparr>
      in if int (length (ts_buffer s1)) \<ge> ts_batchSize s1 then Returns (Entering, pc, c\<lparr>csink := s1\<rparr>)
         else call_returns pc (c\<lparr>csink := s1\<rparr>))"

fun main_step ::
  "'db copy_from \<Rightarrow> 'db exec_sql \<Rightarrow> ('db TimescaleSink, 'r, 'q, 'c) env \<Rightarrow> sink_call \<Rightarrow> run_pc \<Rightarrow>
     ('db TimescaleSink, 'r, 'q, 'c) Consumer \<Rightarrow>
     (sink_call \<times> run_pc \<times> ('db TimescaleSink, 'r, 'q, 'c) Consumer) run" where
  "main_step copyFrom execSQL env (Inside f) pc c =
     (if f = Idle then call_returns pc c
      else (case flush_step copyFrom execSQL (csink c) f of (s', f') \<Rightarrow> Returns (Inside f', pc, c\<lparr>csink := s'\<rparr>)))"
| "main_step copyFrom execSQL env Entering pc c = start_flush pc c"
| "main_step copyFrom execSQL env Outside Flushing c = start_flush Flushing c"
| "main_step copyFrom execSQL env Outside (Persisting (d # ds) (False # bs)) c =
     start_write (dr_event d) (Persisting (d # ds) (False # bs)) c"
| "main_step copyFrom execSQL env Outside pc c =
     (case run_step env pc c of
        Returns (pc', c') \<Rightarrow> Returns (Outside, pc', c')
      | Blocks \<Rightarrow> Blocks
      | Panics m \<Rightarrow> Panics m)"

record ('db, 'r, 'q, 'c) process =
  pr_consumer :: "('db TimescaleSink, 'r, 'q, 'c) Consumer"
  pr_pc :: run_pc
  pr_call :: sink_call
  pr_ticker :: flush_pc

datatype process_label = Main | TickBegin | TickFlushStep | Crash

definition process_start :: "('db TimescaleSink, 'r, 'q, 'c) Consumer \<Rightarrow> ('db, 'r, 'q, 'c) process" where
  "process_start c = \<lparr>pr_consumer = c, pr_pc = Polling, pr_call = Outside, pr_ticker = Idle\<rparr>"

text \<open>
  A step of the process.  \<open>rejoin\<close> is the Kafka client of the next process of the group, which starts from the committed offsets.
\<close>

fun process_next ::
  "'db copy_from \<Rightarrow> 'db exec_sql \<Rightarrow> ('db TimescaleSink, 'r, 'q, 'c) env \<Rightarrow> ('c \<Rightarrow> 'c) \<Rightarrow>
     process_label \<Rightarrow> ('db, 'r, 'q, 'c) process \<Rightarrow> ('db, 'r, 'q, 'c) process run" where
  "process_next copyFrom execSQL env rejoin Main p =
     (case main_step copyFrom execSQL env (pr_call p) (pr_pc p) (pr_consumer p) of
        Returns (k, pc, c) \<Rightarrow> Returns (p\<lparr>pr_call := k, pr_pc := pc, pr_consumer := c\<rparr>)
      | Blocks \<Rightarrow> Blocks
      | Panics m \<Rightarrow> Panics m)"
| "process_next copyFrom execSQL env rejoin TickBegin p =
     (if pr_ticker p \<noteq> Idle then Blocks
      else if ts_flushInterval (csink (pr_consumer p)) \<le> 0 then Panics bad_interval
      else (case flush_begin (csink (pr_consumer p)) of
              (s', f) \<Rightarrow> Returns (p\<lparr>pr_consumer := (pr_consumer p)\<lparr>csink := s'\<rparr>, pr_ticker := f\<rparr>)))"
| "process_next copyFrom execSQL env rejoin TickFlushStep p =
     (if pr_ticker p = Idle then Blocks
      else (case flush_step copyFrom execSQL (csink (pr_consumer p)) (pr_ticker p) of
              (s', f) \<Rightarrow> Returns (p\<lparr>pr_consumer := (pr_consumer p)\<lparr>csink := s'\<rparr>, pr_ticker := f\<rparr>)))"
| "process_next copyFrom execSQL env rejoin Crash p =
     Returns (process_start ((restart (pr_consumer p))\<lparr>client := rejoin (client (pr_consumer p))\<rparr>))"

text \<open>
  The schedules of interest: those in which the process stays alive, and those in which \<^verbatim>\<open>Run\<close> calls
  \<^verbatim>\<open>DrainPoisoned\<close> while the ticker is not in a flush.
\<close>

definition guarded :: "('l \<Rightarrow> 'p \<Rightarrow> bool) \<Rightarrow> ('l \<Rightarrow> 'p \<Rightarrow> 'p run) \<Rightarrow> 'l \<Rightarrow> 'p \<Rightarrow> 'p run" where
  "guarded ok nxt l p = (if ok l p then nxt l p else Blocks)"

lemma guarded_Returns: "guarded ok nxt l p = Returns p' \<longleftrightarrow> ok l p \<and> nxt l p = Returns p'"
  by (simp add: guarded_def)

definition stays_alive :: "process_label \<Rightarrow> ('db, 'r, 'q, 'c) process \<Rightarrow> bool" where
  "stays_alive l p \<longleftrightarrow> l \<noteq> Crash"

definition drains_between_ticks :: "process_label \<Rightarrow> ('db, 'r, 'q, 'c) process \<Rightarrow> bool" where
  "drains_between_ticks l p \<longleftrightarrow> l = Main \<and> pr_pc p = Draining \<longrightarrow> pr_ticker p = Idle"

section \<open>The process takes the steps of \<^verbatim>\<open>Run\<close>\<close>

text \<open>A number of steps of the main goroutine.\<close>

fun main_steps ::
  "'db copy_from \<Rightarrow> 'db exec_sql \<Rightarrow> ('db TimescaleSink, 'r, 'q, 'c) env \<Rightarrow> nat \<Rightarrow>
     sink_call \<times> run_pc \<times> ('db TimescaleSink, 'r, 'q, 'c) Consumer \<Rightarrow>
     (sink_call \<times> run_pc \<times> ('db TimescaleSink, 'r, 'q, 'c) Consumer) option" where
  "main_steps copyFrom execSQL env 0 st = Some st"
| "main_steps copyFrom execSQL env (Suc n) st =
     (case st of (k, pc, c) \<Rightarrow>
        (case main_step copyFrom execSQL env k pc c of
           Returns st' \<Rightarrow> main_steps copyFrom execSQL env n st'
         | _ \<Rightarrow> None))"

lemma main_steps_add:
  "main_steps cf x env (m + n) st = Option.bind (main_steps cf x env m st) (main_steps cf x env n)"
  by (induction m arbitrary: st) (auto split: prod.split run.split)

lemma main_steps_trans:
  assumes "main_steps cf x env m st = Some st1" and "main_steps cf x env n st1 = Some st2"
  shows "main_steps cf x env (m + n) st = Some st2"
  using assms by (simp add: main_steps_add)

text \<open>A flush in progress that no other goroutine disturbs.\<close>

lemma main_steps_flush:
  assumes "flush_run cf x n (csink c, f) = (s', Idle)"
  shows "\<exists>m. main_steps cf x env m (Inside f, pc, c) = Some (Inside Idle, pc, c\<lparr>csink := s'\<rparr>)"
  using assms
proof (induction n arbitrary: c f)
  case 0
  then show ?case by (intro exI [of _ 0]) simp
next
  case (Suc n)
  obtain s1 f1 where st: "flush_step cf x (csink c) f = (s1, f1)" by fastforce
  show ?case
  proof (cases "f = Idle")
    case True
    with Suc.IH [of c Idle] Suc.prems show ?thesis by simp
  next
    case False
    from Suc.prems st Suc.IH [of "c\<lparr>csink := s1\<rparr>" f1]
    obtain m where "main_steps cf x env m (Inside f1, pc, c\<lparr>csink := s1\<rparr>) = Some (Inside Idle, pc, c\<lparr>csink := s'\<rparr>)"
      by auto
    with st False show ?thesis by (intro exI [of _ "Suc m"]) simp
  qed
qed

lemma main_steps_whole_flush:
  assumes "call_returns pc (c\<lparr>csink := fst (TimescaleSink_Flush cf x (csink c))\<rparr>) = Returns st"
    and "main_step cf x env k pc c = start_flush pc c"
  shows "\<exists>m. main_steps cf x env m (k, pc, c) = Some st"
proof -
  let ?s' = "fst (TimescaleSink_Flush cf x (csink c))"
  obtain s1 f where b: "flush_begin (csink c) = (s1, f)" by fastforce
  from flush_in_steps [of cf x "csink c"] b obtain n where "flush_run cf x n (csink (c\<lparr>csink := s1\<rparr>), f) = (?s', Idle)"
    by (auto simp: flush_ends_def)
  from main_steps_flush [OF this, of env pc]
  obtain m where "main_steps cf x env m (Inside f, pc, c\<lparr>csink := s1\<rparr>) = Some (Inside Idle, pc, c\<lparr>csink := ?s'\<rparr>)" by auto
  moreover have "main_steps cf x env 1 (Inside Idle, pc, c\<lparr>csink := ?s'\<rparr>) = Some st" using assms(1) by simp
  ultimately have "main_steps cf x env (m + 1) (Inside f, pc, c\<lparr>csink := s1\<rparr>) = Some st" by (rule main_steps_trans)
  then show ?thesis using assms(2) b by (intro exI [of _ "Suc (m + 1)"]) (simp add: start_flush_def)
qed

lemma Flush_answer: "TimescaleSink_Flush cf x s = (fst (TimescaleSink_Flush cf x s), None)"
  using timescale_db.Flush_nil [OF timescale_db_trivial, of cf x s] by (metis prod.collapse)

text \<open>The positions at which \<^verbatim>\<open>Run\<close> calls the sink.\<close>

fun calls_sink :: "run_pc \<Rightarrow> bool" where
  "calls_sink Flushing = True"
| "calls_sink (Persisting (d # ds) (b # bs)) \<longleftrightarrow> \<not> b"
| "calls_sink _ = False"

lemma main_step_outside:
  "\<not> calls_sink pc \<Longrightarrow> main_step cf x env Outside pc c =
     (case run_step env pc c of Returns (pc', c') \<Rightarrow> Returns (Outside, pc', c') | Blocks \<Rightarrow> Blocks | Panics m \<Rightarrow> Panics m)"
  by (cases "(cf, x, env, Outside, pc, c)" rule: main_step.cases) auto

text \<open>
  Left alone, the main goroutine makes exactly the steps of \<open>run_step\<close>, each of its sink calls in finitely many steps.
\<close>

lemma main_steps_make_run_step:
  assumes ops: "ops env = timescale_sink_ops cf x" and run: "run_step env pc c = Returns (pc', c')"
  shows "\<exists>m. main_steps cf x env m (Outside, pc, c) = Some (Outside, pc', c')"
proof (cases pc rule: calls_sink.cases)
  case 1
  have "call_returns Flushing (c\<lparr>csink := fst (TimescaleSink_Flush cf x (csink c))\<rparr>) = Returns (Outside, pc', c')"
    using run 1 Flush_answer [of cf x "csink c"]
    by (auto simp: flush_sink_def ops timescale_sink_ops_def split: prod.splits)
  from main_steps_whole_flush [OF this, of env Outside] 1 show ?thesis by simp
next
  case (2 d ds b bs)
  show ?thesis
  proof (cases b)
    case True
    with 2 run show ?thesis by (intro exI [of _ 1]) (simp add: main_step_outside)
  next
    case False
    let ?s1 = "(csink c)\<lparr>ts_buffer := ts_buffer (csink c) @ [dr_event d]\<rparr>"
    have r: "call_returns pc (c\<lparr>csink := fst (TimescaleSink_Write cf x (csink c) (dr_event d))\<rparr>) = Returns (Outside, pc', c')"
      using run 2 False by (auto simp: persist_poison ops timescale_sink_ops_def)
    show ?thesis
    proof (cases "int (length (ts_buffer ?s1)) \<ge> ts_batchSize ?s1")
      case True
      with r have "call_returns pc (c\<lparr>csink := ?s1, csink := fst (TimescaleSink_Flush cf x (csink (c\<lparr>csink := ?s1\<rparr>)))\<rparr>) = Returns (Outside, pc', c')"
        by (simp add: TimescaleSink_Write_def Let_def)
      from main_steps_whole_flush [OF this, of env Entering]
      obtain m where "main_steps cf x env m (Entering, pc, c\<lparr>csink := ?s1\<rparr>) = Some (Outside, pc', c')" by auto
      with True False 2 show ?thesis by (intro exI [of _ "Suc m"]) (simp add: start_write_def)
    next
      case small: False
      with r False 2 show ?thesis
        by (intro exI [of _ 1]) (simp add: start_write_def TimescaleSink_Write_def Let_def)
    qed
  qed
qed (use run in \<open>auto intro!: exI [of _ 1] simp: main_step_outside\<close>)

end
