(* ===== verification/Recovery.thy ===== *)
theory Recovery
  imports Process Pipeline
begin

text \<open>
  What the order of the consumer's loop (write, flush, dead-letter, then commit) guarantees when the process of theory \<open>Process\<close> may
  die at any step: a record whose offset is committed is in the table or in the dead-letter log, and a new process works off the rest.
  The Kafka client enters as the locale \<open>group_client\<close>.
\<close>

section \<open>What is in the memory of the process\<close>

text \<open>
  The records and events a state of the process still has to deal with.  Once \<^verbatim>\<open>Write\<close> has the event of the record at the
  head of the loop, the record counts as the sink's.
\<close>

fun loop_records :: "sink_call \<Rightarrow> run_pc \<Rightarrow> Record set" where
  "loop_records k (Decoding rs ds) = set rs \<union> dr_record ` set ds"
| "loop_records k (Checking ds) = dr_record ` set ds"
| "loop_records k (Persisting ds bs) = dr_record ` set (if k = Outside then ds else tl ds)"
| "loop_records k _ = {}"

fun drained_events :: "run_pc \<Rightarrow> Event set" where
  "drained_events (DeadLettering ps) = PoisonEvent ` set ps"
| "drained_events _ = {}"

definition sink_events :: "sink_call \<Rightarrow> flush_pc \<Rightarrow> 'db TimescaleSink \<Rightarrow> Event set" where
  "sink_events k f s = set (ts_buffer s) \<union> set (call_batch k) \<union> set (in_batch f) \<union> PoisonEvent ` set (ts_poisoned s)"

definition in_memory ::
  "unmarshal \<Rightarrow> sink_call \<Rightarrow> run_pc \<Rightarrow> flush_pc \<Rightarrow> 'db TimescaleSink \<Rightarrow> Record \<Rightarrow> bool" where
  "in_memory u k pc f s r \<longleftrightarrow> r \<in> loop_records k pc \<or>
     (\<exists>e \<in> sink_events k f s \<union> drained_events pc. DecodeRecord u (RecValue r) = Inr e)"

text \<open>The shape of the positions \<^verbatim>\<open>Run\<close> reaches when no duplicate check is configured.\<close>

definition decoded_as :: "unmarshal \<Rightarrow> decodedRecord list \<Rightarrow> bool" where
  "decoded_as u ds \<longleftrightarrow> (\<forall>d \<in> set ds. DecodeRecord u (RecValue (dr_record d)) = Inr (dr_event d))"

fun position_ok :: "unmarshal \<Rightarrow> sink_call \<Rightarrow> run_pc \<Rightarrow> bool" where
  "position_ok u k (Decoding rs ds) \<longleftrightarrow> k = Outside \<and> decoded_as u ds"
| "position_ok u k (Checking ds) \<longleftrightarrow> k = Outside \<and> decoded_as u ds"
| "position_ok u k (Persisting ds bs) \<longleftrightarrow>
     decoded_as u ds \<and> bs = replicate (length ds) False \<and> (k \<noteq> Outside \<longrightarrow> ds \<noteq> [])"
| "position_ok u k Flushing \<longleftrightarrow> k \<noteq> Entering"
| "position_ok u k _ \<longleftrightarrow> k = Outside"

fun call_ok :: "sink_call \<Rightarrow> bool" where
  "call_ok (Inside f) \<longleftrightarrow> pc_ok f"
| "call_ok _ \<longleftrightarrow> True"

text \<open>
  What the order of the steps gives when \<^verbatim>\<open>Run\<close> drains the poison list between two flushes of the ticker: after its own flush
  nothing is buffered, and after the drain nothing is left in the sink at all.
\<close>

fun emptied :: "sink_call \<Rightarrow> run_pc \<Rightarrow> flush_pc \<Rightarrow> 'db TimescaleSink \<Rightarrow> bool" where
  "emptied k Flushing f s \<longleftrightarrow> k = Outside \<or> ts_buffer s = []"
| "emptied k Draining f s \<longleftrightarrow> ts_buffer s = []"
| "emptied k (DeadLettering ps) f s \<longleftrightarrow> ts_buffer s = [] \<and> ts_poisoned s = [] \<and> f = Idle"
| "emptied k Committing f s \<longleftrightarrow> ts_buffer s = [] \<and> ts_poisoned s = [] \<and> f = Idle"
| "emptied k _ f s \<longleftrightarrow> True"

section \<open>The Kafka client of a consumer group\<close>

text \<open>
  What the loop relies on of the client.  \<open>committed\<close> are the records below the committed offsets of the group, \<open>delivered\<close> those
  that this client has returned from polls and not yet committed.  A poll commits nothing (\<^verbatim>\<open>DisableAutoCommit\<close>) and delivers
  nothing but what it returns; a commit, acknowledged or not, covers at most what was delivered; the client of the next process
  knows the committed offsets only.
\<close>

locale group_client =
  fixes pollFetches :: "'c \<Rightarrow> 'c \<times> Fetches"
    and commitOffsets :: "'c \<Rightarrow> 'c \<times> go_error option"
    and rejoin :: "'c \<Rightarrow> 'c"
    and committed :: "'c \<Rightarrow> Record set"
    and delivered :: "'c \<Rightarrow> Record set"
  assumes poll_commits_nothing: "committed (fst (pollFetches k)) = committed k"
    and poll_delivers: "delivered (fst (pollFetches k)) \<subseteq> delivered k \<union> set (f_records (snd (pollFetches k)))"
    and commit_covers: "committed (fst (commitOffsets k)) \<subseteq> committed k \<union> delivered k"
    and commit_delivers: "delivered (fst (commitOffsets k)) \<subseteq> delivered k"
    and rejoin_committed: "committed (rejoin k) = committed k"
    and rejoin_delivered: "delivered (rejoin k) = {}"

text \<open>A record is handled when the table or the dead-letter log has what became of it.\<close>

definition record_handled ::
  "('db \<Rightarrow> row \<Rightarrow> bool) \<Rightarrow> ('q \<Rightarrow> Record \<Rightarrow> bool) \<Rightarrow> string \<Rightarrow>
     ('db TimescaleSink, 'r, 'q, 'c) env \<Rightarrow> ('db TimescaleSink, 'r, 'q, 'c) Consumer \<Rightarrow> Record \<Rightarrow> bool" where
  "record_handled holds holdsq dt env c r \<longleftrightarrow>
     (case DecodeRecord (pb_unmarshal env) (RecValue r) of
        Inl err \<Rightarrow> dead_lettered holdsq c
          (dlq_record dt (Topic r) (Partition r) (Offset r) (Key r) (RecValue r) err)
      | Inr e \<Rightarrow> event_settled holds holdsq dt env c e)"

section \<open>What a step does with the client\<close>

definition client_step :: "('s, 'r, 'q, 'c) env \<Rightarrow> run_pc \<Rightarrow> 'c \<Rightarrow> run_pc \<Rightarrow> 'c \<Rightarrow> bool" where
  "client_step env pc k pc' k' \<longleftrightarrow>
     (case pc of
        Polling \<Rightarrow> k' = fst (poll env k) \<and> (pc' = Decoding (f_records (snd (poll env k))) [] \<or> (\<exists>e. pc' = RunReturned e))
      | Committing \<Rightarrow> k' = fst (commit env k) \<and> pc' = Polling
      | _ \<Rightarrow> k' = k \<and> \<not> (\<exists>e. pc' = RunReturned e))"

lemma persist_client [simp]: "client (persist env c r e) = client c"
  by (simp add: persist_def split: prod.split option.split)

lemma flush_sink_client: "flush_sink env c = (c', err) \<Longrightarrow> client c' = client c"
  by (auto simp: flush_sink_def split: option.splits prod.splits)

lemma run_client_step:
  "run_step env pc c = Returns (pc', c') \<Longrightarrow> client_step env pc (client c) pc' (client c')"
  by (induction env pc c rule: run_step.induct)
    (auto simp: client_step_def check_seen_def Let_def dest: flush_sink_client
      split: if_splits option.splits prod.splits sum.splits)

lemma call_client_step:
  "call_returns pc c = Returns (k', pc', c') \<Longrightarrow> calls_sink pc \<Longrightarrow> client_step env pc (client c) pc' (client c')"
  by (cases "(pc, c)" rule: call_returns.cases) (auto simp: client_step_def)

section \<open>One step of the main goroutine\<close>

locale consumer_process =
  timescale_db copyFrom execSQL holds + dl: kafka_log "dlq_produce env" holdsq +
  gc: group_client "poll env" "commit env" rejoin committed delivered
  for copyFrom :: "'db copy_from" and execSQL :: "'db exec_sql" and holds :: "'db \<Rightarrow> row \<Rightarrow> bool"
    and env :: "('db TimescaleSink, 'r, 'q, 'c) env" and holdsq :: "'q \<Rightarrow> Record \<Rightarrow> bool"
    and rejoin :: "'c \<Rightarrow> 'c" and committed :: "'c \<Rightarrow> Record set" and delivered :: "'c \<Rightarrow> Record set" +
  fixes dt :: string
  assumes acks: "always_acks (dlq_produce env)"
    and sink_ops: "ops env = timescale_sink_ops copyFrom execSQL"
begin

abbreviation handled :: "('db TimescaleSink, 'r, 'q, 'c) Consumer \<Rightarrow> Record \<Rightarrow> bool" where
  "handled \<equiv> record_handled holds holdsq dt env"

abbreviation remembered :: "sink_call \<Rightarrow> run_pc \<Rightarrow> flush_pc \<Rightarrow> ('db TimescaleSink, 'r, 'q, 'c) Consumer \<Rightarrow> Record \<Rightarrow> bool" where
  "remembered k pc f c r \<equiv> in_memory (pb_unmarshal env) k pc f (csink c) r"

text \<open>What a step keeps of the table, the dead-letter log and the configuration.\<close>

definition keeps :: "('db TimescaleSink, 'r, 'q, 'c) Consumer \<Rightarrow> ('db TimescaleSink, 'r, 'q, 'c) Consumer \<Rightarrow> bool" where
  "keeps c c' \<longleftrightarrow> (\<forall>e. stored (csink c) e \<longrightarrow> stored (csink c') e) \<and>
     (\<forall>x. dead_lettered holdsq c x \<longrightarrow> dead_lettered holdsq c' x) \<and> topic c' = topic c"

lemma keeps_handled: "keeps c c' \<Longrightarrow> handled c r \<Longrightarrow> handled c' r"
  by (auto simp: keeps_def record_handled_def event_settled_def stored_def split: sum.splits)

lemma keeps_refl: "csink c' = csink c \<Longrightarrow> dlq c' = dlq c \<Longrightarrow> topic c' = topic c \<Longrightarrow> keeps c c'"
  using dead_lettered_cong [of c' c] by (simp add: keeps_def)

lemma keeps_sink:
  "(\<And>e. stored (csink c) e \<Longrightarrow> stored s' e) \<Longrightarrow> keeps c (c\<lparr>csink := s'\<rparr>)"
  by (simp add: keeps_def dead_lettered_def)

lemma keeps_send: "keeps c (sendToDLQ env c t p off k v e)"
  by (simp add: keeps_def dl.sendToDLQ_keeps [OF refl])

definition process_ok :: "sink_call \<Rightarrow> run_pc \<Rightarrow> flush_pc \<Rightarrow> ('db TimescaleSink, 'r, 'q, 'c) Consumer \<Rightarrow> bool" where
  "process_ok k pc f c \<longleftrightarrow> dedup c = None \<and> delivering dt c \<and> position_ok (pb_unmarshal env) k pc \<and> call_ok k \<and> pc_ok f"

text \<open>What has to be shown of a step from \<open>(k, pc, c)\<close> to \<open>(k', pc', c')\<close> while the ticker is at \<open>f\<close>.\<close>

definition good_step ::
  "flush_pc \<Rightarrow> sink_call \<times> run_pc \<times> ('db TimescaleSink, 'r, 'q, 'c) Consumer \<Rightarrow>
     sink_call \<times> run_pc \<times> ('db TimescaleSink, 'r, 'q, 'c) Consumer \<Rightarrow> bool" where
  "good_step f st st' \<longleftrightarrow> (case (st, st') of ((k, pc, c), (k', pc', c')) \<Rightarrow>
     process_ok k' pc' f c' \<and> keeps c c' \<and>
     (\<forall>r. remembered k pc f c r \<longrightarrow> handled c' r \<or> remembered k' pc' f c' r) \<and>
     (emptied k pc f (csink c) \<and> (pc = Draining \<longrightarrow> f = Idle) \<longrightarrow> emptied k' pc' f (csink c')))"

lemma good_call_returns:
  assumes "process_ok k pc f c" and "call_returns pc c = Returns st'" and "k = Inside Idle"
  shows "good_step f (k, pc, c) st'"
  using assms
  by (cases "(pc, c)" rule: call_returns.cases)
    (auto simp: good_step_def process_ok_def decoded_as_def in_memory_def sink_events_def delivering_def dlq_topic_of_def
      intro: keeps_refl)

lemma good_start_flush:
  assumes "process_ok k pc f c" and "start_flush pc c = Returns st'" and "calls_sink pc" and "\<forall>g. k \<noteq> Inside g" 
    and "k = Outside \<Longrightarrow> pc = Flushing"
  shows "good_step f (k, pc, c) st'"
proof -
  obtain s' g where b: "flush_begin (csink c) = (s', g)" by fastforce
  with assms(2) have st': "st' = (Inside g, pc, c\<lparr>csink := s'\<rparr>)" by (simp add: start_flush_def)
  have k: "call_batch k = []" using assms(4) by (cases k) auto
  show ?thesis
    using assms(1,3,5) flush_begin_frame [OF b] k
    by (cases pc rule: calls_sink.cases)
      (auto simp: st' good_step_def process_ok_def delivering_def dlq_topic_of_def in_memory_def sink_events_def
        stored_def intro!: keeps_sink)
qed

lemma good_start_write:
  assumes "process_ok Outside pc f c" and "pc = Persisting (d # ds) (False # bs)" and "start_write (dr_event d) pc c = Returns st'"
  shows "good_step f (Outside, pc, c) st'"
  using assms
  by (auto simp: start_write_def Let_def good_step_def process_ok_def decoded_as_def in_memory_def sink_events_def
      delivering_def dlq_topic_of_def stored_def keeps_def dead_lettered_def split: if_splits)

lemma flush_remembers:
  assumes "remembered k pc f c r" and "loop_records k' pc = loop_records k pc"
    and "sink_events k f (csink c) \<subseteq> sink_events k' f' s' \<union> {e. stored s' e}"
  shows "handled (c\<lparr>csink := s'\<rparr>) r \<or> remembered k' pc f' (c\<lparr>csink := s'\<rparr>) r"
  using assms by (auto simp: in_memory_def record_handled_def event_settled_def stored_def)

lemma loop_records_Inside: "loop_records (Inside g') pc = loop_records (Inside g) pc"
  by (cases pc) simp_all

lemma good_flush_step:
  assumes "process_ok (Inside g) pc f c" and "flush_step copyFrom execSQL (csink c) g = (s', g')"
  shows "good_step f (Inside g, pc, c) (Inside g', pc, c\<lparr>csink := s'\<rparr>)"
proof -
  from assms(1) have g: "pc_ok g" "0 \<le> ts_maxRetries (csink c)"
    by (simp_all add: process_ok_def delivering_def)
  note a = flush_step_accounts [OF assms(2) g] and fr = flush_step_frame [OF assms(2) g(1)]
  have k: "keeps c (c\<lparr>csink := s'\<rparr>)" using a by (intro keeps_sink) blast
  have "handled (c\<lparr>csink := s'\<rparr>) r \<or> remembered (Inside g') pc f (c\<lparr>csink := s'\<rparr>) r"
    if "remembered (Inside g) pc f c r" for r
    using that loop_records_Inside by (rule flush_remembers) (use a fr in \<open>auto simp: sink_events_def\<close>)
  moreover have "emptied (Inside g') pc f s'" if "emptied (Inside g) pc f (csink c)"
    using that fr assms(1) by (cases pc) (auto simp: process_ok_def)
  moreover have "position_ok u (Inside g') pc" if "position_ok u (Inside g) pc" for u
    using that by (cases pc) auto
  ultimately show ?thesis
    using assms(1) fr k by (auto simp: good_step_def process_ok_def delivering_def dlq_topic_of_def)
qed

lemma handled_malformed:
  assumes "DecodeRecord (pb_unmarshal env) (RecValue r) = Inl err" and "delivering dt c"
  shows "handled (sendToDLQ env c (Topic r) (Partition r) (Offset r) (Key r) (RecValue r) err) r"
  using assms dl.sendToDLQ_lands [OF refl acks] by (simp add: record_handled_def delivering_def)

lemma handled_poisoned:
  assumes "DecodeRecord (pb_unmarshal env) (RecValue r) = Inr (PoisonEvent p)" and "delivering dt c"
  shows "handled (send_poison env p c) r"
proof -
  have "dead_lettered holdsq (send_poison env p c) (poison_record env dt (topic c) p)"
    using dl.poison_lands [OF refl acks _ _ refl, of c dt p "[p]"] assms(2) by (simp add: delivering_def)
  moreover have "p = \<lparr>PoisonEvent = PoisonEvent p, PoisonErr = PoisonErr p\<rparr>" by simp
  ultimately have "\<exists>err. dead_lettered holdsq (send_poison env p c)
      (poison_record env dt (topic c) \<lparr>PoisonEvent = PoisonEvent p, PoisonErr = err\<rparr>)" by metis
  then show ?thesis using assms(1) by (simp add: record_handled_def event_settled_def)
qed

lemma good_decode:
  assumes ok: "process_ok Outside (Decoding (r # rs) ds) f c"
    and step: "run_step env (Decoding (r # rs) ds) c = Returns (pc', c')"
  shows "good_step f (Outside, Decoding (r # rs) ds, c) (Outside, pc', c')"
proof (cases "DecodeRecord (pb_unmarshal env) (RecValue r)")
  case (Inl err)
  from ok have "delivering dt c" by (simp add: process_ok_def)
  from handled_malformed [OF Inl this] Inl ok step show ?thesis
    by (auto simp: good_step_def process_ok_def delivering_def in_memory_def intro: keeps_send)
next
  case (Inr e)
  with ok step show ?thesis
    by (auto simp: good_step_def process_ok_def decoded_as_def in_memory_def intro: keeps_refl)
qed

lemma good_dead_letter:
  assumes ok: "process_ok Outside (DeadLettering (p # ps)) f c"
  shows "good_step f (Outside, DeadLettering (p # ps), c) (Outside, DeadLettering ps, send_poison env p c)"
proof -
  from ok have "delivering dt c" by (simp add: process_ok_def)
  note h = handled_poisoned [OF _ this]
  have "keeps c (send_poison env p c)" by (simp add: send_poison_def keeps_send)
  with ok h show ?thesis
    by (auto simp: good_step_def process_ok_def delivering_def in_memory_def)
qed

lemma good_drain:
  assumes ok: "process_ok Outside Draining f c" and step: "run_step env Draining c = Returns (pc', c')"
  shows "good_step f (Outside, Draining, c) (Outside, pc', c')"
proof -
  let ?s = "(csink c)\<lparr>ts_poisoned := []\<rparr>"
  have "pc' = DeadLettering (ts_poisoned (csink c))" "c' = c\<lparr>csink := ?s\<rparr>"
    using step by (simp_all add: sink_ops timescale_sink_ops_def TimescaleSink_DrainPoisoned_def)
  moreover have "keeps c (c\<lparr>csink := ?s\<rparr>)" by (rule keeps_sink) (simp add: stored_def)
  ultimately show ?thesis
    using ok by (auto simp: good_step_def process_ok_def delivering_def dlq_topic_of_def in_memory_def sink_events_def)
qed

lemma good_run_step:
  assumes ok: "process_ok Outside pc f c" and out: "\<not> calls_sink pc" and step: "run_step env pc c = Returns (pc', c')"
  shows "good_step f (Outside, pc, c) (Outside, pc', c')"
proof (cases pc)
  case Polling
  with ok step show ?thesis
    by (auto simp: good_step_def process_ok_def decoded_as_def in_memory_def delivering_def dlq_topic_of_def Let_def
        split: prod.splits if_splits intro: keeps_refl)
next
  case (Decoding rs ds)
  show ?thesis
  proof (cases rs)
    case Nil
    with Decoding ok step show ?thesis
      by (auto simp: good_step_def process_ok_def in_memory_def split: if_splits intro: keeps_refl)
  next
    case (Cons r rs')
    with Decoding ok step good_decode show ?thesis by blast
  qed
next
  case (Checking ds)
  with ok step show ?thesis
    by (auto simp: good_step_def process_ok_def in_memory_def check_seen_def Let_def intro: keeps_refl)
next
  case (Persisting ds bs)
  with ok out have "ds = []" "bs = []" by (cases ds; simp add: process_ok_def)+
  with Persisting ok step show ?thesis
    by (auto simp: good_step_def process_ok_def in_memory_def intro: keeps_refl)
next
  case Draining
  with ok step good_drain show ?thesis by blast
next
  case (DeadLettering ps)
  show ?thesis
  proof (cases ps)
    case Nil
    with DeadLettering ok step show ?thesis
      by (auto simp: good_step_def process_ok_def in_memory_def intro: keeps_refl)
  next
    case (Cons p ps')
    with DeadLettering ok step good_dead_letter [of p ps' f c] show ?thesis by simp
  qed
next
  case Committing
  with ok step show ?thesis
    by (auto simp: good_step_def process_ok_def in_memory_def delivering_def dlq_topic_of_def commit_offsets_def intro: keeps_refl)
qed (use out step in simp_all)

text \<open>A position inside a call of the sink is one from which the sink is called.\<close>

lemma in_call: "process_ok k pc f c \<Longrightarrow> k \<noteq> Outside \<Longrightarrow> calls_sink pc"
  by (cases pc rule: calls_sink.cases) (auto simp: process_ok_def)

lemma client_stays: "calls_sink pc \<Longrightarrow> client_step env pc k pc k"
  by (cases pc rule: calls_sink.cases) (auto simp: client_step_def)

lemma main_step_good:
  assumes ok: "process_ok k pc f c" and step: "main_step copyFrom execSQL env k pc c = Returns (k', pc', c')"
  shows "good_step f (k, pc, c) (k', pc', c') \<and> client_step env pc (client c) pc' (client c')"
proof (cases k)
  case (Inside g)
  note cs = in_call [OF ok, unfolded Inside, simplified]
  show ?thesis
  proof (cases "g = Idle")
    case True
    with step Inside have cr: "call_returns pc c = Returns (k', pc', c')" by simp
    from good_call_returns [OF ok cr] call_client_step [OF cr cs, of env] Inside True show ?thesis by simp
  next
    case False
    with step Inside ok good_flush_step [of g pc f c] client_stays [OF cs] show ?thesis
      by (auto split: prod.splits)
  qed
next
  case Entering
  with ok have cs: "calls_sink pc" by (auto intro: in_call)
  from Entering step have s: "start_flush pc c = Returns (k', pc', c')" by simp
  then have "pc' = pc" "client c' = client c" by (auto simp: start_flush_def split: prod.splits)
  with good_start_flush [OF ok s cs] Entering client_stays [OF cs] show ?thesis by simp
next
  case Outside
  show ?thesis
  proof (cases "calls_sink pc")
    case False
    with step Outside obtain "k' = Outside" "run_step env pc c = Returns (pc', c')"
      by (auto simp: main_step_outside split: run.splits)
    with good_run_step [OF ok [unfolded Outside] False] run_client_step Outside show ?thesis by simp
  next
    case cs: True
    then consider (a) "pc = Flushing" | (b) d ds bs where "pc = Persisting (d # ds) (False # bs)"
      by (cases pc rule: calls_sink.cases) auto
    then show ?thesis
    proof cases
      case a
      with Outside step have s: "start_flush pc c = Returns (k', pc', c')" by simp
      then have "pc' = pc" "client c' = client c" by (auto simp: start_flush_def split: prod.splits)
      with good_start_flush [OF ok s cs] Outside a client_stays [OF cs] show ?thesis by simp
    next
      case b
      with Outside step have s: "start_write (dr_event d) pc c = Returns (k', pc', c')" by simp
      have "client_step env pc (client c) pc' (client c')"
        using s cs call_client_step [OF _ cs, of "c\<lparr>csink := s\<rparr>" for s] client_stays [OF cs]
        by (auto simp: start_write_def Let_def split: if_splits)
      with good_start_write [OF ok [unfolded Outside] b s] Outside show ?thesis by simp
    qed
  qed
qed

section \<open>Every schedule\<close>

text \<open>
  Two invariants.  The first is about schedules without a crash: what was ever delivered is handled or still in memory.  The second
  also allows crashes, and is about the schedules in which \<^verbatim>\<open>Run\<close> drains the poison list only between two flushes of
  the ticker: what is committed is handled.
\<close>

definition delivered_traced :: "('db, 'r, 'q, 'c) process \<Rightarrow> bool" where
  "delivered_traced p \<longleftrightarrow> (\<exists>e. pr_pc p = RunReturned e) \<or>
     (\<forall>r \<in> delivered (client (pr_consumer p)). handled (pr_consumer p) r \<or>
        remembered (pr_call p) (pr_pc p) (pr_ticker p) (pr_consumer p) r)"

definition traced :: "('db, 'r, 'q, 'c) process \<Rightarrow> bool" where
  "traced p \<longleftrightarrow> process_ok (pr_call p) (pr_pc p) (pr_ticker p) (pr_consumer p) \<and> delivered_traced p \<and>
     (\<forall>r \<in> committed (client (pr_consumer p)). handled (pr_consumer p) r \<or>
        remembered (pr_call p) (pr_pc p) (pr_ticker p) (pr_consumer p) r)"

definition safe :: "('db, 'r, 'q, 'c) process \<Rightarrow> bool" where
  "safe p \<longleftrightarrow> process_ok (pr_call p) (pr_pc p) (pr_ticker p) (pr_consumer p) \<and> delivered_traced p \<and>
     emptied (pr_call p) (pr_pc p) (pr_ticker p) (csink (pr_consumer p)) \<and>
     (\<forall>r \<in> committed (client (pr_consumer p)). handled (pr_consumer p) r)"

text \<open>A step of the main goroutine, on the records known before it.\<close>

lemma main_keeps_traced:
  assumes "good_step f (k, pc, c) (k', pc', c')"
  shows "handled c r \<or> remembered k pc f c r \<Longrightarrow> handled c' r \<or> remembered k' pc' f c' r"
    and "handled c r \<Longrightarrow> handled c' r"
  using assms keeps_handled by (auto simp: good_step_def)

lemma main_keeps_delivered:
  assumes "process_ok (pr_call p) (pr_pc p) (pr_ticker p) (pr_consumer p)" and "delivered_traced p"
    and "process_next copyFrom execSQL env rejoin Main p = Returns p'"
  shows "delivered_traced p'"
proof -
  from assms(3) obtain k' pc' c' where
    step: "main_step copyFrom execSQL env (pr_call p) (pr_pc p) (pr_consumer p) = Returns (k', pc', c')"
    and p': "p' = p\<lparr>pr_call := k', pr_pc := pc', pr_consumer := c'\<rparr>" by (auto split: run.splits)
  note g = main_step_good [OF assms(1) step]
  note keep = main_keeps_traced(1) [OF g [THEN conjunct1]]
  have cl: "client_step env (pr_pc p) (client (pr_consumer p)) pc' (client c')" using g by blast
  show ?thesis
  proof (cases "\<exists>e. pc' = RunReturned e")
    case True
    then show ?thesis by (simp add: delivered_traced_def p')
  next
    case False
    have "\<not> (\<exists>e. pr_pc p = RunReturned e)"
      using step assms(1) by (auto simp: process_ok_def)
    moreover have "r \<in> delivered (client (pr_consumer p)) \<or> remembered k' pc' (pr_ticker p) c' r"
      if "r \<in> delivered (client c')" for r
      using that cl False gc.poll_delivers [of "client (pr_consumer p)"] gc.commit_delivers [of "client (pr_consumer p)"]
      by (auto simp: client_step_def in_memory_def split: run_pc.splits)
    ultimately show ?thesis
      using assms(2) keep unfolding delivered_traced_def by (auto simp: p')
  qed
qed

text \<open>A step of the ticker changes the sink only, and what it takes it keeps.\<close>

lemma tick_good:
  assumes ok: "process_ok (pr_call p) (pr_pc p) (pr_ticker p) (pr_consumer p)"
    and step: "process_next copyFrom execSQL env rejoin l p = Returns p'" and l: "l = TickBegin \<or> l = TickFlushStep"
  obtains s' f' where "p' = p\<lparr>pr_consumer := (pr_consumer p)\<lparr>csink := s'\<rparr>, pr_ticker := f'\<rparr>"
    and "process_ok (pr_call p) (pr_pc p) f' ((pr_consumer p)\<lparr>csink := s'\<rparr>)"
    and "keeps (pr_consumer p) ((pr_consumer p)\<lparr>csink := s'\<rparr>)"
    and "sink_events (pr_call p) (pr_ticker p) (csink (pr_consumer p)) \<subseteq>
      sink_events (pr_call p) f' s' \<union> {e. stored s' e}"
    and "emptied (pr_call p) (pr_pc p) (pr_ticker p) (csink (pr_consumer p)) \<Longrightarrow> emptied (pr_call p) (pr_pc p) f' s'"
  using l
proof (elim disjE)
  let ?c = "pr_consumer p"
  assume l: "l = TickBegin"
  obtain s' f' where b: "flush_begin (csink ?c) = (s', f')" by fastforce
  note fr = flush_begin_frame [OF b]
  from step l b have p': "pr_ticker p = Idle" "p' = p\<lparr>pr_consumer := ?c\<lparr>csink := s'\<rparr>, pr_ticker := f'\<rparr>"
    by (auto split: if_splits)
  have "f' = Idle" if "ts_buffer (csink ?c) = []" using b that by (auto simp: flush_begin_def drainBuffer_def)
  then have e: "emptied (pr_call p) (pr_pc p) f' s'"
    if "emptied (pr_call p) (pr_pc p) (pr_ticker p) (csink ?c)"
    using that fr p'(1) by (cases "pr_pc p") auto
  have k: "keeps ?c (?c\<lparr>csink := s'\<rparr>)" by (rule keeps_sink) (simp add: fr stored_def)
  show thesis
    by (rule that [OF p'(2) _ k _ e])
      (use ok p'(1) fr in \<open>auto simp: process_ok_def delivering_def dlq_topic_of_def sink_events_def\<close>)
next
  let ?c = "pr_consumer p"
  assume l: "l = TickFlushStep"
  obtain s' f' where b: "flush_step copyFrom execSQL (csink ?c) (pr_ticker p) = (s', f')" by fastforce
  from ok have t: "pc_ok (pr_ticker p)" "0 \<le> ts_maxRetries (csink ?c)" by (simp_all add: process_ok_def delivering_def)
  note a = flush_step_accounts [OF b t] and fr = flush_step_frame [OF b t(1)]
  from step l b have p': "pr_ticker p \<noteq> Idle" "p' = p\<lparr>pr_consumer := ?c\<lparr>csink := s'\<rparr>, pr_ticker := f'\<rparr>"
    by (auto split: if_splits)
  have e: "emptied (pr_call p) (pr_pc p) f' s'"
    if "emptied (pr_call p) (pr_pc p) (pr_ticker p) (csink ?c)"
    using that fr p'(1) by (cases "pr_pc p") auto
  have k: "keeps ?c (?c\<lparr>csink := s'\<rparr>)" using a by (intro keeps_sink) blast
  show thesis
    by (rule that [OF p'(2) _ k _ e])
      (use ok fr a in \<open>auto simp: process_ok_def delivering_def dlq_topic_of_def sink_events_def\<close>)
qed

lemma tick_keeps:
  assumes "process_ok (pr_call p) (pr_pc p) (pr_ticker p) (pr_consumer p)"
    and "process_next copyFrom execSQL env rejoin l p = Returns p'" and "l = TickBegin \<or> l = TickFlushStep"
  shows "traced p \<Longrightarrow> traced p'" and "safe p \<Longrightarrow> safe p'"
proof -
  from assms obtain s' f' where t: "p' = p\<lparr>pr_consumer := (pr_consumer p)\<lparr>csink := s'\<rparr>, pr_ticker := f'\<rparr>"
    "process_ok (pr_call p) (pr_pc p) f' ((pr_consumer p)\<lparr>csink := s'\<rparr>)"
    "keeps (pr_consumer p) ((pr_consumer p)\<lparr>csink := s'\<rparr>)"
    "sink_events (pr_call p) (pr_ticker p) (csink (pr_consumer p)) \<subseteq> sink_events (pr_call p) f' s' \<union> {e. stored s' e}"
    "emptied (pr_call p) (pr_pc p) (pr_ticker p) (csink (pr_consumer p)) \<longrightarrow> emptied (pr_call p) (pr_pc p) f' s'"
    by (rule tick_good) blast
  note h = keeps_handled [OF t(3)] and m = flush_remembers [OF _ refl t(4)]
  show "traced p'" if "traced p"
    using that t(2) h m unfolding traced_def delivered_traced_def by (fastforce simp: t(1))
  show "safe p'" if "safe p"
    using that t(2,5) h m unfolding safe_def delivered_traced_def by (fastforce simp: t(1))
qed

lemma main_keeps:
  assumes "process_next copyFrom execSQL env rejoin Main p = Returns p'"
  shows "traced p \<Longrightarrow> traced p'"
    and "safe p \<Longrightarrow> drains_between_ticks Main p \<Longrightarrow> safe p'"
proof -
  let ?c = "pr_consumer p"
  from assms obtain k' pc' c' where
    step: "main_step copyFrom execSQL env (pr_call p) (pr_pc p) ?c = Returns (k', pc', c')"
    and p': "p' = p\<lparr>pr_call := k', pr_pc := pc', pr_consumer := c'\<rparr>" by (auto split: run.splits)
  have new: "committed (client c') \<subseteq> committed (client ?c) \<union> (if pr_pc p = Committing then delivered (client ?c) else {})"
    if "client_step env (pr_pc p) (client ?c) pc' (client c')"
    using that gc.poll_commits_nothing gc.commit_covers by (auto simp: client_step_def split: run_pc.splits)
  show "traced p'" if t: "traced p"
  proof -
    from t have ok: "process_ok (pr_call p) (pr_pc p) (pr_ticker p) ?c" and d: "delivered_traced p" by (auto simp: traced_def)
    note g = main_step_good [OF ok step]
    from new [OF g [THEN conjunct2]] t d main_keeps_traced(1) [OF g [THEN conjunct1]]
      main_keeps_delivered [OF ok d assms] g
    show ?thesis unfolding traced_def delivered_traced_def good_step_def
      by (auto simp: p' split: if_splits)
  qed
  show "safe p'" if t: "safe p" and q: "drains_between_ticks Main p"
  proof -
    from t have ok: "process_ok (pr_call p) (pr_pc p) (pr_ticker p) ?c" and d: "delivered_traced p"
      and e: "emptied (pr_call p) (pr_pc p) (pr_ticker p) (csink ?c)" by (auto simp: safe_def)
    note g = main_step_good [OF ok step]
    have "handled ?c r" if "pr_pc p = Committing" "r \<in> delivered (client ?c)" for r
      using that d e ok by (auto simp: delivered_traced_def in_memory_def sink_events_def process_ok_def)
    then have "handled ?c r" if "r \<in> committed (client c')" for r
      using that new [OF g [THEN conjunct2]] t by (auto simp: safe_def split: if_splits)
    with main_keeps_traced(2) [OF g [THEN conjunct1]] main_keeps_delivered [OF ok d assms] g e q
    show ?thesis by (auto simp: safe_def p' good_step_def drains_between_ticks_def)
  qed
qed

lemma restart_frame [simp]:
  "ts_pool (csink (restart c)) = ts_pool (csink c)" "dlq (restart c) = dlq c" "topic (restart c) = topic c"
  "dedup (restart c) = dedup c" "ts_maxRetries (csink (restart c)) = ts_maxRetries (csink c)"
  by (simp_all add: restart_def)

text \<open>The next process knows only what is committed, and that is handled.\<close>

lemma crash_keeps_safe:
  assumes "safe p" and "process_next copyFrom execSQL env rejoin Crash p = Returns p'"
  shows "safe p'"
proof -
  let ?c' = "(restart (pr_consumer p))\<lparr>client := rejoin (client (pr_consumer p))\<rparr>"
  have p': "p' = process_start ?c'" using assms(2) by simp
  have "keeps (pr_consumer p) ?c'" by (simp add: keeps_def stored_def dead_lettered_def)
  note h = keeps_handled [OF this]
  from assms(1) h show ?thesis
    by (auto simp: safe_def p' process_start_def process_ok_def delivering_def dlq_topic_of_def delivered_traced_def
        gc.rejoin_committed gc.rejoin_delivered)
qed

lemma traced_step:
  assumes "traced p" and "guarded stays_alive (process_next copyFrom execSQL env rejoin) l p = Returns p'"
  shows "traced p'"
proof -
  from assms(2) have l: "l \<noteq> Crash" and n: "process_next copyFrom execSQL env rejoin l p = Returns p'"
    by (simp_all add: guarded_def stays_alive_def split: if_splits)
  from assms(1) have ok: "process_ok (pr_call p) (pr_pc p) (pr_ticker p) (pr_consumer p)" by (simp add: traced_def)
  show ?thesis
    using l n main_keeps(1) [OF _ assms(1)] tick_keeps(1) [OF ok n _ assms(1)] by (cases l) blast+
qed

lemma safe_step:
  assumes "safe p" and "guarded drains_between_ticks (process_next copyFrom execSQL env rejoin) l p = Returns p'"
  shows "safe p'"
proof -
  from assms(2) have g: "drains_between_ticks l p" and n: "process_next copyFrom execSQL env rejoin l p = Returns p'"
    by (simp_all add: guarded_def split: if_splits)
  from assms(1) have ok: "process_ok (pr_call p) (pr_pc p) (pr_ticker p) (pr_consumer p)" by (simp add: safe_def)
  show ?thesis
    using g n main_keeps(2) [OF _ assms(1)] tick_keeps(2) [OF ok n _ assms(1)] crash_keeps_safe [OF assms(1)]
    by (cases l) blast+
qed

end

sublocale consumer_process \<subseteq> tr: invariant_lts "guarded stays_alive (process_next copyFrom execSQL env rejoin)" traced
  by unfold_locales (rule traced_step)

sublocale consumer_process \<subseteq> sf: invariant_lts "guarded drains_between_ticks (process_next copyFrom execSQL env rejoin)" safe
  by unfold_locales (rule safe_step)

context consumer_process
begin

text \<open>A process that begins with nothing committed.\<close>

definition begins :: "('db TimescaleSink, 'r, 'q, 'c) Consumer \<Rightarrow> bool" where
  "begins c \<longleftrightarrow> dedup c = None \<and> delivering dt c \<and> committed (client c) = {} \<and> delivered (client c) = {}"

lemma begins_safe: "begins c \<Longrightarrow> safe (process_start c) \<and> traced (process_start c)"
  by (auto simp: begins_def safe_def traced_def process_start_def process_ok_def delivered_traced_def)

lemma committed_handled:
  assumes "begins c" and "exec (guarded drains_between_ticks (process_next copyFrom execSQL env rejoin)) ls (process_start c) = Some p"
    and "r \<in> committed (client (pr_consumer p))"
  shows "handled (pr_consumer p) r"
  using sf.exec_ok [OF assms(2)] begins_safe [OF assms(1)] assms(3) by (simp add: safe_def)

lemma committed_traced:
  assumes "begins c" and "exec (guarded stays_alive (process_next copyFrom execSQL env rejoin)) ls (process_start c) = Some p"
    and "r \<in> committed (client (pr_consumer p))"
  shows "handled (pr_consumer p) r \<or> remembered (pr_call p) (pr_pc p) (pr_ticker p) (pr_consumer p) r"
  using tr.exec_ok [OF assms(2)] begins_safe [OF assms(1)] assms(3) by (simp add: traced_def)

end

section \<open>A new process works off the log\<close>

lemma run_steps_make_main_steps:
  assumes ops: "ops env = timescale_sink_ops cf x"
    and run: "exec (running_next env) (replicate n OfRun) \<lparr>ru_consumer = c, ru_pc = pc, ru_report = rp\<rparr> =
      Some \<lparr>ru_consumer = c', ru_pc = pc', ru_report = rp'\<rparr>"
  shows "\<exists>m. main_steps cf x env m (Outside, pc, c) = Some (Outside, pc', c')"
  using run
proof (induction n arbitrary: pc c)
  case 0
  then show ?case by (intro exI [of _ 0]) simp
next
  case (Suc n)
  then obtain pc1 c1 where s: "run_step env pc c = Returns (pc1, c1)"
    and r: "exec (running_next env) (replicate n OfRun) \<lparr>ru_consumer = c1, ru_pc = pc1, ru_report = rp\<rparr> =
      Some \<lparr>ru_consumer = c', ru_pc = pc', ru_report = rp'\<rparr>"
    by (auto simp: exec_Cons_iff split: run.splits)
  from main_steps_make_run_step [OF ops s] Suc.IH [OF r] show ?case using main_steps_trans by blast
qed

text \<open>A poll that returns records, and the round after it.\<close>

lemma round_in_main_steps:
  assumes ops: "ops env = timescale_sink_ops cf x"
    and "f_ctxErr (snd (poll env (client c))) = None" and "\<not> f_isClientClosed (snd (poll env (client c)))"
  shows "\<exists>m. main_steps cf x env m (Outside, Polling, c) =
    Some (Outside, Polling, run_round env (c\<lparr>client := fst (poll env (client c))\<rparr>) (f_records (snd (poll env (client c)))))"
proof -
  let ?c1 = "c\<lparr>client := fst (poll env (client c))\<rparr>" and ?rs = "f_records (snd (poll env (client c)))"
  have "run_step env Polling c = Returns (Decoding ?rs [], ?c1)"
    using assms(2,3) by (cases "poll env (client c)") (simp add: Let_def)
  from main_steps_make_run_step [OF ops this]
  obtain m where m: "main_steps cf x env m (Outside, Polling, c) = Some (Outside, Decoding ?rs [], ?c1)" by auto
  obtain n where "exec (running_next env) (replicate n OfRun) \<lparr>ru_consumer = ?c1, ru_pc = Decoding ?rs [], ru_report = report_start\<rparr> =
      Some \<lparr>ru_consumer = run_round env ?c1 ?rs, ru_pc = Polling, ru_report = report_start\<rparr>"
    using settles_Decoding [of env ?rs "[]" ?c1] unfolding settles_def finish_round by blast
  from run_steps_make_main_steps [OF ops this] main_steps_trans [OF m] show ?thesis by blast
qed

lemma main_steps_exec:
  assumes "main_steps cf x env m (k, pc, c) = Some (k', pc', c')"
  shows "exec (guarded drains_between_ticks (process_next cf x env rejoin)) (replicate m Main)
    \<lparr>pr_consumer = c, pr_pc = pc, pr_call = k, pr_ticker = Idle\<rparr> =
    Some \<lparr>pr_consumer = c', pr_pc = pc', pr_call = k', pr_ticker = Idle\<rparr>"
  using assms
proof (induction m arbitrary: k pc c)
  case (Suc m)
  then obtain k1 pc1 c1 where s: "main_step cf x env k pc c = Returns (k1, pc1, c1)"
    and r: "main_steps cf x env m (k1, pc1, c1) = Some (k', pc', c')" by (auto split: run.splits)
  have "guarded drains_between_ticks (process_next cf x env rejoin) Main
      \<lparr>pr_consumer = c, pr_pc = pc, pr_call = k, pr_ticker = Idle\<rparr> =
    Returns \<lparr>pr_consumer = c1, pr_pc = pc1, pr_call = k1, pr_ticker = Idle\<rparr>"
    using s by (simp add: guarded_def drains_between_ticks_def)
  with Suc.IH [OF r] show ?case by (simp add: exec.simps(2))
qed simp

text \<open>
  A client over a log that has stopped growing, which a poll always answers.  \<open>todo\<close> bounds the rounds that are left: a poll and
  the commit after it lower it, and at zero the offsets have passed the whole log.
\<close>

locale log_client = group_client pollFetches commitOffsets rejoin committed delivered
  for pollFetches :: "'c \<Rightarrow> 'c \<times> Fetches" and commitOffsets :: "'c \<Rightarrow> 'c \<times> go_error option"
    and rejoin :: "'c \<Rightarrow> 'c" and committed :: "'c \<Rightarrow> Record set" and delivered :: "'c \<Rightarrow> Record set" +
  fixes logged :: "'c \<Rightarrow> Record set" and todo :: "'c \<Rightarrow> nat"
  assumes poll_answers: "f_ctxErr (snd (pollFetches k)) = None" "\<not> f_isClientClosed (snd (pollFetches k))"
    and log_stays: "logged (fst (pollFetches k)) = logged k" "logged (fst (commitOffsets k)) = logged k" "logged (rejoin k) = logged k"
    and todo_falls: "todo k \<noteq> 0 \<Longrightarrow> todo (fst (commitOffsets (fst (pollFetches k)))) < todo k"
    and todo_done: "todo k = 0 \<Longrightarrow> logged k \<subseteq> committed k"

locale replayed_process = consumer_process copyFrom execSQL holds env holdsq rejoin committed delivered dt +
  lc: log_client "poll env" "commit env" rejoin committed delivered logged todo
  for copyFrom :: "'db copy_from" and execSQL :: "'db exec_sql" and holds :: "'db \<Rightarrow> row \<Rightarrow> bool"
    and env :: "('db TimescaleSink, 'r, 'q, 'c) env" and holdsq :: "'q \<Rightarrow> Record \<Rightarrow> bool"
    and rejoin :: "'c \<Rightarrow> 'c" and committed :: "'c \<Rightarrow> Record set" and delivered :: "'c \<Rightarrow> Record set" and dt :: string
    and logged :: "'c \<Rightarrow> Record set" and todo :: "'c \<Rightarrow> nat"
begin

lemma log_worked_off:
  "\<exists>m c'. main_steps copyFrom execSQL env m (Outside, Polling, c) = Some (Outside, Polling, c') \<and>
     logged (client c) \<subseteq> committed (client c') \<and> logged (client c') = logged (client c)"
proof (induction "todo (client c)" arbitrary: c rule: less_induct)
  case less
  show ?case
  proof (cases "todo (client c) = 0")
    case True
    from lc.todo_done [OF this] show ?thesis by (intro exI [of _ 0]) simp
  next
    case False
    let ?c1 = "c\<lparr>client := fst (poll env (client c))\<rparr>" and ?rs = "f_records (snd (poll env (client c)))"
    let ?r = "run_round env ?c1 ?rs"
    obtain m where m: "main_steps copyFrom execSQL env m (Outside, Polling, c) = Some (Outside, Polling, ?r)"
      using round_in_main_steps [OF sink_ops lc.poll_answers] by blast
    have cl: "client ?r = fst (commit env (fst (poll env (client c))))"
      using timescale_round_sink(2) [OF sink_ops refl, of ?c1] by simp
    from less [of ?r] lc.todo_falls [OF False] obtain m' c' where
      "main_steps copyFrom execSQL env m' (Outside, Polling, ?r) = Some (Outside, Polling, c')"
      "logged (client ?r) \<subseteq> committed (client c')" "logged (client c') = logged (client ?r)" unfolding cl by blast
    with main_steps_trans [OF m] show ?thesis unfolding cl lc.log_stays by blast
  qed
qed

lemma restarted_process_completes:
  assumes "begins c" and "exec (guarded drains_between_ticks (process_next copyFrom execSQL env rejoin)) ls (process_start c) = Some p"
  shows "\<exists>n p'. exec (guarded drains_between_ticks (process_next copyFrom execSQL env rejoin)) (Crash # replicate n Main) p = Some p' \<and>
    (\<forall>r \<in> logged (client (pr_consumer p)). r \<in> committed (client (pr_consumer p')) \<and> handled (pr_consumer p') r)"
proof -
  let ?nxt = "guarded drains_between_ticks (process_next copyFrom execSQL env rejoin)"
  let ?c0 = "(restart (pr_consumer p))\<lparr>client := rejoin (client (pr_consumer p))\<rparr>"
  have cr: "?nxt Crash p = Returns (process_start ?c0)" by (simp add: guarded_def drains_between_ticks_def)
  obtain m c' where m: "main_steps copyFrom execSQL env m (Outside, Polling, ?c0) = Some (Outside, Polling, c')"
    and l: "logged (client ?c0) \<subseteq> committed (client c')" using log_worked_off by blast
  let ?p' = "\<lparr>pr_consumer = c', pr_pc = Polling, pr_call = Outside, pr_ticker = Idle\<rparr>"
  from main_steps_exec [OF m] cr have e: "exec ?nxt (Crash # replicate m Main) p = Some ?p'"
    unfolding exec_Cons_iff process_start_def by blast
  have "safe p" using sf.exec_ok [OF assms(2)] begins_safe [OF assms(1)] by blast
  then have "safe ?p'" using sf.exec_ok [OF e] by blast
  with l e lc.log_stays(3) show ?thesis by (intro exI [of _ m] exI [of _ ?p']) (auto simp: safe_def)
qed

end

end
