(* ===== verification/Recovery_Properties.thy ===== *)
theory Recovery_Properties
  imports Recovery Schema
begin

text \<open>
  The delivery guarantees of the consumer process under crashes, over a partition that is a list and the table of the schema.
\<close>

section \<open>A partition\<close>

text \<open>
  A client of one partition whose log is a list: the committed offset, how far the polls are ahead of it, a bound on the records of a poll (one
  more than \<open>pl_extra\<close>), and which of the coming commits fail.
\<close>

record partition_client =
  pl_log :: "Record list"
  pl_offset :: nat
  pl_ahead :: nat
  pl_extra :: nat
  pl_faults :: "bool list"

definition pl_poll :: "partition_client \<Rightarrow> partition_client \<times> Fetches" where
  "pl_poll k =
     (let rs = take (Suc (pl_extra k)) (drop (pl_offset k + pl_ahead k) (pl_log k))
      in (k\<lparr>pl_ahead := pl_ahead k + length rs\<rparr>,
          \<lparr>f_ctxErr = None, f_isClientClosed = False, f_errors = [], f_records = rs\<rparr>))"

definition pl_commit :: "partition_client \<Rightarrow> partition_client \<times> go_error option" where
  "pl_commit k =
     (case pl_faults k of
        True # fs \<Rightarrow> (k\<lparr>pl_faults := fs\<rparr>, Some (ErrorText ''coordinator not available''))
      | _ \<Rightarrow> (k\<lparr>pl_faults := tl (pl_faults k), pl_offset := pl_offset k + pl_ahead k, pl_ahead := 0\<rparr>, None))"

definition pl_rejoin :: "partition_client \<Rightarrow> partition_client" where
  "pl_rejoin k = k\<lparr>pl_ahead := 0\<rparr>"

definition pl_committed :: "partition_client \<Rightarrow> Record set" where
  "pl_committed k = set (take (pl_offset k) (pl_log k))"





text \<open>The consumer over such a partition, the table of the schema and a dead-letter log that acknowledges.\<close>

definition partition_env :: "unmarshal \<Rightarrow> marshal \<Rightarrow> (pg TimescaleSink, keyspace, broker, partition_client) env" where
  "partition_env u m = \<lparr>ops = timescale_sink_ops pg_copy pg_exec, redis_exec = k_exec, dlq_produce = ack_produce,
     pb_unmarshal = u, pb_marshal = m, poll = pl_poll, commit = pl_commit\<rparr>"


section \<open>The table under crashes\<close>







section \<open>A run with a crash\<close>

definition ex_partition :: partition_client where
  "ex_partition = \<lparr>pl_log = [ex_record ''a'', ex_record []], pl_offset = 0, pl_ahead = 0, pl_extra = 4, pl_faults = [True]\<rparr>"

definition ex_crash_env :: "(pg TimescaleSink, keyspace, broker, partition_client) env" where
  "ex_crash_env = partition_env ex_unmarshal ex_marshal"

definition ex_crash_consumer :: "(pg TimescaleSink, keyspace, broker, partition_client) Consumer" where
  "ex_crash_consumer = \<lparr>client = ex_partition, csink = ex_sink, dedup = None,
     dlq = Some \<lparr>dp_client = \<lparr>b_log = [], b_faults = []\<rparr>, dp_topic = ''dlq''\<rparr>,
     group = ''g'', topic = ''t'', maxRetries = 1, metrics = Some [], consumed = 0, deduped = 0, dlqSent = 0\<rparr>"







section \<open>Properties\<close>







text \<open>The ticker takes the buffer, and \<^verbatim>\<open>Run\<close> flushes, drains and commits past it.\<close>

definition ex_overtaken_consumer :: "(pg TimescaleSink, keyspace, broker, partition_client) Consumer" where
  "ex_overtaken_consumer = ex_crash_consumer\<lparr>client := ex_partition\<lparr>pl_faults := []\<rparr>\<rparr>"



text \<open>
  The restriction to schedules that drain between two flushes of the ticker is needed: let that process die now, and the record
  is committed and nowhere.
\<close>

lemma ex_lost_run:
  "map_option (\<lambda>p. (pg_rows (ts_pool (csink (pr_consumer p))), map_option (\<lambda>q. map RecValue (b_log (dp_client q))) (dlq (pr_consumer p)),
       pl_offset (client (pr_consumer p)), pl_log (client (pr_consumer p))))
     (exec (process_next pg_copy pg_exec ex_crash_env pl_rejoin)
       (replicate 6 Main @ [TickBegin] @ replicate 6 Main @ [Crash]) (process_start ex_overtaken_consumer)) =
   Some ([], Some [[]], 2, pl_log ex_partition)"
  by code_simp

lemma crash_in_ticker_flush_loses_committed_record:
  "\<exists>p. exec (process_next pg_copy pg_exec ex_crash_env pl_rejoin)
      (replicate 6 Main @ [TickBegin] @ replicate 6 Main @ [Crash]) (process_start ex_overtaken_consumer) = Some p \<and>
    ex_record ''a'' \<in> pl_committed (client (pr_consumer p)) \<and>
    \<not> record_handled pg_holds broker_holds ''dlq'' ex_crash_env (pr_consumer p) (ex_record ''a'')"
proof -
  obtain p where p: "exec (process_next pg_copy pg_exec ex_crash_env pl_rejoin)
      (replicate 6 Main @ [TickBegin] @ replicate 6 Main @ [Crash]) (process_start ex_overtaken_consumer) = Some p"
    and s: "pg_rows (ts_pool (csink (pr_consumer p))) = []"
      "map_option (\<lambda>q. map RecValue (b_log (dp_client q))) (dlq (pr_consumer p)) = Some [[]]"
      "ex_record ''a'' \<in> pl_committed (client (pr_consumer p))"
    using ex_lost_run by (auto simp: pl_committed_def ex_partition_def)
  have "marshalEvent ex_marshal (ex_event ''a'') = ''a''"
    by (simp add: marshalEvent_def ex_marshal_def telemetry_of_event_def ex_event_def)
  then have "\<not> dead_lettered broker_holds (pr_consumer p)
      (poison_record ex_crash_env ''dlq'' (topic (pr_consumer p)) \<lparr>PoisonEvent = ex_event ''a'', PoisonErr = err\<rparr>)" for err
    using s(2) by (auto simp: dead_lettered_def broker_holds_def poison_record_def dlq_record_def ex_crash_env_def partition_env_def)
  then have "\<not> record_handled pg_holds broker_holds ''dlq'' ex_crash_env (pr_consumer p) (ex_record ''a'')"
    using s(1) by (simp add: record_handled_def event_settled_def ex_crash_env_def partition_env_def DecodeRecord_def
        ex_unmarshal_def ex_record_def pg_holds_def pg_keys_def)
  with p s(3) show ?thesis by blast
qed











end
