(* ===== verification/Json_Number.thy ===== *)
theory Json_Number
  imports Json
begin

text \<open>
  The numbers in JSON text as Go's \<^verbatim>\<open>encoding/json\<close> reads and writes them: the grammar of a number literal, and the text of a float64, which has
  the fewest digits that read back as the same number.  A printed float64 is read back as itself (\<open>reread_float\<close>), and every result of a
  rounding is a float64 (\<open>round64_float64\<close>).
\<close>

section \<open>Powers of ten and digit strings\<close>

definition pow10 :: "int \<Rightarrow> rat" where
  "pow10 k = (if 0 \<le> k then 10 ^ nat k else 1 / 10 ^ nat (- k))"

lemma pow10_pos [simp]: "0 < pow10 k"
  by (simp add: pow10_def)

lemma pow10_nonneg: "0 \<le> k \<Longrightarrow> pow10 k = 10 ^ nat k"
  by (simp add: pow10_def)

lemma pow10_neg: "k \<le> 0 \<Longrightarrow> pow10 k = 1 / 10 ^ nat (- k)"
  by (auto simp: pow10_def)

lemma pow10_shift: "pow10 (k - int n) * 10 ^ n = pow10 k"
proof -
  consider "int n \<le> k" | "0 \<le> k" "k < int n" | "k < 0" by linarith
  then show ?thesis
  proof cases
    case 1
    then have "nat k = nat (k - int n) + n" by linarith
    with 1 show ?thesis by (simp add: pow10_def power_add)
  next
    case 2
    then have "n = nat (- (k - int n)) + nat k" by linarith
    then have "(10 :: rat) ^ n = 10 ^ nat (- (k - int n)) * 10 ^ nat k" by (metis power_add)
    with 2 show ?thesis by (simp add: pow10_def)
  next
    case 3
    then have "nat (- (k - int n)) = nat (- k) + n" by linarith
    with 3 show ?thesis by (simp add: pow10_def power_add)
  qed
qed

lemma nat_of_dec_append: "nat_of_dec (s @ t) = nat_of_dec s * 10 ^ length t + nat_of_dec t"
  by (induction t rule: rev_induct) (simp_all add: append_assoc [symmetric] algebra_simps del: append_assoc, simp add: nat_of_dec_def)

lemma nat_of_dec_Nil [simp]: "nat_of_dec [] = 0"
  by (simp add: nat_of_dec_def)

lemma nat_of_dec_zeros [simp]: "nat_of_dec (replicate n (CHR ''0'')) = 0"
  by (induction n) (simp_all add: nat_of_dec_def)

lemma nat_of_dec_pad: "nat_of_dec (replicate n (CHR ''0'') @ s) = nat_of_dec s"
  by (simp add: nat_of_dec_append)

lemma dec_of_nat_hd: "0 < n \<Longrightarrow> hd (dec_of_nat n) \<noteq> CHR ''0''"
proof (induction n rule: dec_of_nat.induct)
  case (1 n)
  show ?case
  proof (cases "n < 10")
    case True
    have "(of_char (digit n) :: nat) \<noteq> of_char (CHR ''0'')" using True "1.prems" by simp
    then have "digit n \<noteq> CHR ''0''" by metis
    with True show ?thesis by (simp add: dec_of_nat.simps [of n])
  next
    case False
    with 1 show ?thesis by (simp add: dec_of_nat.simps [of n] hd_append)
  qed
qed

section \<open>Number literals\<close>

text \<open>
  The grammar of a number: a sign, an integer part without leading zeros, a fraction and an exponent.  Each part returns what it
  read and the rest.  The literal ends where the grammar ends; what may follow it is for the caller to say.
\<close>

definition scan_digits :: "string \<Rightarrow> (string \<times> string) option" where
  "scan_digits s = (let d = takeWhile is_digit s in if d = [] then None else Some (d, dropWhile is_digit s))"

fun scan_int :: "string \<Rightarrow> (string \<times> string) option" where
  "scan_int [] = None"
| "scan_int (c # s) = (if c = CHR ''0'' then Some ([c], s) else scan_digits (c # s))"

fun scan_frac :: "string \<Rightarrow> (string option \<times> string) option" where
  "scan_frac [] = Some (None, [])"
| "scan_frac (c # s) =
     (if c = CHR ''.'' then map_option (\<lambda>(d, r). (Some d, r)) (scan_digits s) else Some (None, c # s))"

definition scan_sign :: "string \<Rightarrow> int \<times> string" where
  "scan_sign s =
     (case s of
        c # r \<Rightarrow> if c = CHR ''-'' then (- 1, r) else if c = CHR ''+'' then (1, r) else (1, s)
      | [] \<Rightarrow> (1, s))"

fun scan_exp :: "string \<Rightarrow> (int option \<times> string) option" where
  "scan_exp [] = Some (None, [])"
| "scan_exp (c # s) =
     (if c = CHR ''e'' \<or> c = CHR ''E''
      then (case scan_sign s of (sg, r) \<Rightarrow> map_option (\<lambda>(d, r'). (Some (sg * int (nat_of_dec d)), r')) (scan_digits r))
      else Some (None, c # s))"

definition literal_value :: "string \<Rightarrow> string option \<Rightarrow> int option \<Rightarrow> rat" where
  "literal_value i fr ex =
     (let f = (case fr of None \<Rightarrow> [] | Some f \<Rightarrow> f); e = (case ex of None \<Rightarrow> 0 | Some e \<Rightarrow> e)
      in of_nat (nat_of_dec (i @ f)) * pow10 (e - int (length f)))"

definition literal :: "bool \<Rightarrow> string \<Rightarrow> string option \<Rightarrow> int option \<Rightarrow> json" where
  "literal neg i fr ex =
     (if fr = None \<and> ex = None then JInt (if neg then - int (nat_of_dec i) else int (nat_of_dec i))
      else JDec (if neg then - literal_value i fr ex else literal_value i fr ex))"

definition scan_parts :: "string \<Rightarrow> ((string \<times> string option \<times> int option) \<times> string) option" where
  "scan_parts s =
     Option.bind (scan_int s) (\<lambda>(i, s1).
     Option.bind (scan_frac s1) (\<lambda>(fr, s2).
     Option.bind (scan_exp s2) (\<lambda>(ex, s3). Some ((i, fr, ex), s3))))"

definition scan_number :: "string \<Rightarrow> (json \<times> string) option" where
  "scan_number s =
     (let neg = (s \<noteq> [] \<and> hd s = CHR ''-'')
      in map_option (\<lambda>((i, fr, ex), r). (literal neg i fr ex, r)) (scan_parts (if neg then tl s else s)))"

text \<open>A text that cannot be the continuation of a number.\<close>

definition ends_number :: "string \<Rightarrow> bool" where
  "ends_number r \<longleftrightarrow> r = [] \<or> \<not> is_digit (hd r) \<and> hd r \<noteq> CHR ''.'' \<and> hd r \<noteq> CHR ''e'' \<and> hd r \<noteq> CHR ''E''"

definition no_digit_next :: "string \<Rightarrow> bool" where
  "no_digit_next r \<longleftrightarrow> r = [] \<or> \<not> is_digit (hd r)"

lemma scan_digits_app:
  assumes "list_all is_digit d" and "d \<noteq> []" and "no_digit_next r"
  shows "scan_digits (d @ r) = Some (d, r)"
proof -
  have "takeWhile is_digit (d @ r) = d" "dropWhile is_digit (d @ r) = r"
    using assms by (cases r; force simp: no_digit_next_def list_all_iff takeWhile_append dropWhile_append)+
  with assms(2) show ?thesis by (simp add: scan_digits_def Let_def)
qed

lemma scan_int_app:
  assumes "list_all is_digit d" and "d = ''0'' \<or> d \<noteq> [] \<and> hd d \<noteq> CHR ''0''" and "no_digit_next r"
  shows "scan_int (d @ r) = Some (d, r)"
proof (cases "d = ''0''")
  case False
  with assms obtain c d' where "d = c # d'" "c \<noteq> CHR ''0''" by (cases d) auto
  with scan_digits_app [OF assms(1) _ assms(3)] show ?thesis by simp
qed simp

text \<open>Printed integers.\<close>

lemma dec_digits: "list_all is_digit (dec_of_nat n)"
  by (auto simp: list_all_iff dec_of_nat_digits)

lemma dec_of_nat_0: "dec_of_nat 0 = ''0''"
  by code_simp

lemma scan_int_dec:
  assumes "no_digit_next r" shows "scan_int (dec_of_nat n @ r) = Some (dec_of_nat n, r)"
proof (cases "n = 0")
  case True
  with scan_int_app [of "dec_of_nat 0" r] assms show ?thesis by (simp add: dec_of_nat_0 dec_digits)
next
  case False
  with scan_int_app [OF dec_digits _ assms, of n] dec_of_nat_hd [of n] show ?thesis by simp
qed

lemma ends_number_parts:
  "ends_number r \<Longrightarrow> no_digit_next r" "ends_number r \<Longrightarrow> scan_frac r = Some (None, r)" "ends_number r \<Longrightarrow> scan_exp r = Some (None, r)"
  by (cases r; auto simp: ends_number_def no_digit_next_def)+

lemma dec_not_dash: "dec_of_nat n @ r \<noteq> []" "hd (dec_of_nat n @ r) \<noteq> CHR ''-''"
  using dec_of_nat_digits [of "hd (dec_of_nat n)" n] by (auto simp: hd_append)

lemma scan_number_int:
  assumes "ends_number r" shows "scan_number (dec_of_int i @ r) = Some (JInt i, r)"
  using scan_int_dec [OF ends_number_parts(1) [OF assms]] ends_number_parts(2,3) [OF assms] dec_not_dash [of "nat i" r]
  by (auto simp: scan_number_def scan_parts_def dec_of_int_def literal_def Let_def)

section \<open>Printing a float64\<close>

text \<open>
  A float64 is printed with the fewest significant digits that read back as the same number, and among those as close to it as
  possible.  \<open>shortest_at k x\<close> looks for an integer \<open>d\<close> for which \<open>d\<close> times ten to the \<open>k\<close> reads back as \<open>x\<close>, for falling \<open>k\<close>; at the
  exponent -1074 every float64 has its exact expansion.
\<close>

definition float64 :: "rat \<Rightarrow> bool" where
  "float64 x \<longleftrightarrow> round64 x = Some x"

definition reads_back :: "rat \<Rightarrow> int \<Rightarrow> int \<Rightarrow> bool" where
  "reads_back x k d \<longleftrightarrow> 0 < d \<and> round64 (of_int d * pow10 k) = Some x"

definition float_grid :: nat where
  "float_grid = 1074"

function shortest_at :: "int \<Rightarrow> rat \<Rightarrow> int \<times> int" where
  "shortest_at k x =
     (if k \<le> - int float_grid then (round_even (x * 10 ^ float_grid), - int float_grid)
      else (case find (reads_back x k) [round_even (x / pow10 k), \<lfloor>x / pow10 k\<rfloor>, \<lfloor>x / pow10 k\<rfloor> + 1] of
              Some d \<Rightarrow> (d, k)
            | None \<Rightarrow> shortest_at (k - 1) x))"
  by pat_completeness auto
termination by (relation "measure (\<lambda>(k, x). nat (k + int float_grid))") auto

declare shortest_at.simps [simp del]

text \<open>The exponent of the leading digit of a positive number: \<open>10 ^ e \<le> x < 10 ^ (e + 1)\<close>.\<close>

definition decade :: "rat \<Rightarrow> int" where
  "decade x =
     (if 1 \<le> x then int (length (dec_of_nat (nat \<lfloor>x\<rfloor>))) - 1
      else - int (length (dec_of_nat (nat (\<lceil>1 / x\<rceil> - 1)))))"

text \<open>
  At the first digit the search may meet the next power of ten (the float64 nearest to \<open>1 / 10 ^ 7\<close> is a little below it): ten
  units are one of the next place.
\<close>

definition shortest :: "rat \<Rightarrow> int \<times> int" where
  "shortest x = (case shortest_at (decade x) x of (d, k) \<Rightarrow> if d mod 10 = 0 then (d div 10, k + 1) else (d, k))"

text \<open>The two formats of \<^verbatim>\<open>floatEncoder\<close>, for digits \<open>s\<close> with the exponent \<open>k\<close> of the last one.\<close>

definition plain_digits :: "string \<Rightarrow> int \<Rightarrow> string" where
  "plain_digits s k =
     (if 0 \<le> k then s @ replicate (nat k) (CHR ''0'')
      else (let f = nat (- k); t = replicate (Suc f - length s) (CHR ''0'') @ s
            in take (length t - f) t @ CHR ''.'' # drop (length t - f) t))"

definition exp_digits :: "string \<Rightarrow> int \<Rightarrow> string" where
  "exp_digits s k =
     (let e = k + int (length s) - 1
      in take 1 s @ (if tl s = [] then [] else CHR ''.'' # tl s) @ ''e'' @
         (if e < 0 then CHR ''-'' # dec_of_nat (nat (- e)) else CHR ''+'' # dec_of_nat (nat e)))"

definition json_float :: "rat \<Rightarrow> string" where
  "json_float x =
     (if x = 0 then ''0''
      else (case shortest \<bar>x\<bar> of
              (d, k) \<Rightarrow>
                (let s = dec_of_nat (nat d)
                 in (if x < 0 then ''-'' else []) @
                    (if \<bar>x\<bar> < 1 / 10 ^ 6 \<or> 10 ^ 21 \<le> \<bar>x\<bar> then exp_digits s k else plain_digits s k))))"

lemma float64_grid:
  assumes "float64 x" obtains j :: int where "x = of_int j / 2 ^ float_grid"
proof (cases "x = 0")
  case True
  with that [of 0] show ?thesis by simp
next
  case False
  define m where "m = max (binade \<bar>x\<bar> - 52) (- int float_grid)"
  have m: "- int float_grid \<le> m" by (simp add: m_def)
  obtain i :: int where x: "x = of_int i * pow2 m"
    using assms False unfolding float64_def round64_def Let_def m_def float_grid_def by (auto split: if_splits) metis
  have "pow2 m * 2 ^ float_grid = 2 ^ nat (m + int float_grid)"
  proof (cases "0 \<le> m")
    case True
    then have "nat (m + int float_grid) = nat m + float_grid" by linarith
    with True show ?thesis by (simp add: pow2_def power_add)
  next
    case False
    with m have "float_grid = nat (m + int float_grid) + nat (- m)" by linarith
    then have "(2 :: rat) ^ float_grid = 2 ^ nat (m + int float_grid) * 2 ^ nat (- m)" by (metis power_add)
    with False show ?thesis by (simp add: pow2_def)
  qed
  then have "x * 2 ^ float_grid = of_int (i * 2 ^ nat (m + int float_grid))" by (subst x) (simp add: mult.assoc)
  then have "x = of_int (i * 2 ^ nat (m + int float_grid)) / 2 ^ float_grid" by (simp add: eq_divide_eq)
  with that show ?thesis by blast
qed

lemma exact_expansion:
  assumes "float64 x" and "0 < x"
  shows "reads_back x (- int float_grid) (round_even (x * 10 ^ float_grid))"
proof -
  from float64_grid [OF assms(1)] obtain j :: int where j: "x = of_int j / 2 ^ float_grid" .
  have "(10 :: rat) ^ float_grid = 2 ^ float_grid * 5 ^ float_grid" by (simp flip: power_mult_distrib)
  then have i: "x * 10 ^ float_grid = of_int (j * 5 ^ float_grid)" unfolding j by simp
  then have r: "of_int (round_even (x * 10 ^ float_grid)) = x * 10 ^ float_grid" by (metis round_even_of_int)
  have "0 < x * 10 ^ float_grid" using assms(2) by simp
  then have "0 < round_even (x * 10 ^ float_grid)" using r by (metis of_int_0_less_iff)
  moreover have "of_int (round_even (x * 10 ^ float_grid)) * pow10 (- int float_grid) = x"
    unfolding r by (simp add: pow10_neg)
  ultimately show ?thesis using assms(1) by (simp add: reads_back_def float64_def)
qed

lemma shortest_at_reads_back:
  assumes "float64 x" and "0 < x" and "shortest_at k0 x = (d, k)"
  shows "reads_back x k d"
  using assms(3)
proof (induction "nat (k0 + int float_grid)" arbitrary: k0 rule: less_induct)
  case less
  show ?case
  proof (cases "k0 \<le> - int float_grid")
    case True
    with less.prems exact_expansion [OF assms(1,2)] show ?thesis by (simp add: shortest_at.simps [of k0])
  next
    case False
    let ?c = "[round_even (x / pow10 k0), \<lfloor>x / pow10 k0\<rfloor>, \<lfloor>x / pow10 k0\<rfloor> + 1]"
    show ?thesis
    proof (cases "find (reads_back x k0) ?c")
      case None
      with less.prems False have "shortest_at (k0 - 1) x = (d, k)" by (simp add: shortest_at.simps [of k0] del: find.simps)
      with less.hyps [of "k0 - 1"] False show ?thesis by simp
    next
      case (Some d')
      with less.prems False have "d' = d" "k0 = k" by (simp_all add: shortest_at.simps [of k0] del: find.simps)
      with Some show ?thesis by (metis find_Some_iff)
    qed
  qed
qed

lemma shortest_reads_back:
  assumes "float64 x" and "0 < x" and "shortest x = (d, k)"
  shows "reads_back x k d"
proof -
  obtain d0 k0 where s: "shortest_at (decade x) x = (d0, k0)" by fastforce
  note rb = shortest_at_reads_back [OF assms(1,2) s]
  show ?thesis
  proof (cases "d0 mod 10 = 0")
    case True
    with assms(3) s have dk: "d = d0 div 10" "k = k0 + 1" by (auto simp: shortest_def)
    from True dk(1) have d: "d0 = d * 10" by presburger
    then have e: "of_int d0 * pow10 k0 = of_int d * pow10 k"
      using pow10_shift [of k 1] by (simp add: dk(2))
    from rb d have "0 < d" by (simp add: reads_back_def)
    with rb show ?thesis unfolding reads_back_def e by simp
  next
    case False
    with assms(3) s rb show ?thesis by (simp add: shortest_def)
  qed
qed

section \<open>Reading a printed float64\<close>

fun json_number :: "json \<Rightarrow> rat" where
  "json_number (JInt i) = of_int i"
| "json_number (JDec r) = r"
| "json_number _ = 0"

lemma literal_number: "json_number (literal neg i fr ex) = (if neg then - literal_value i fr ex else literal_value i fr ex)"
  by (auto simp: literal_def literal_value_def pow10_def)

lemma literal_cases: "(\<exists>i. literal neg d fr ex = JInt i) \<or> (\<exists>r. literal neg d fr ex = JDec r)"
  by (simp add: literal_def)

lemma put_float_number:
  "(\<exists>i. j = JInt i) \<or> (\<exists>r. j = JDec r) \<Longrightarrow> round64 (json_number j) = Some x \<Longrightarrow> put_float name old j = Inr x"
  by auto

lemma scan_number_parts:
  assumes "scan_parts s = Some ((i, fr, ex), r)"
  shows "scan_number s = Some (literal False i fr ex, r)" "scan_number (CHR ''-'' # s) = Some (literal True i fr ex, r)"
proof -
  have "s \<noteq> []" "hd s \<noteq> CHR ''-''"
    using assms by (cases s; auto simp: scan_parts_def scan_digits_def is_digit_def Let_def split: if_splits)+
  with assms show "scan_number s = Some (literal False i fr ex, r)" "scan_number (CHR ''-'' # s) = Some (literal True i fr ex, r)"
    by (simp_all add: scan_number_def Let_def)
qed

lemma scan_plain:
  assumes "0 < n"
  shows "\<exists>i fr. (\<forall>r. ends_number r \<longrightarrow> scan_parts (plain_digits (dec_of_nat n) k @ r) = Some ((i, fr, None), r)) \<and>
    literal_value i fr None = of_nat n * pow10 k"
proof (cases "0 \<le> k")
  case True
  let ?d = "dec_of_nat n @ replicate (nat k) (CHR ''0'')"
  have z: "is_digit (CHR ''0'')" by (simp add: is_digit_def)
  have "scan_parts (plain_digits (dec_of_nat n) k @ r) = Some ((?d, None, None), r)" if r: "ends_number r" for r
  proof -
    have "scan_int (?d @ r) = Some (?d, r)"
      using dec_of_nat_hd [OF assms] z
      by (intro scan_int_app ends_number_parts(1) r) (auto simp: list_all_iff dec_of_nat_digits hd_append)
    then show ?thesis using True ends_number_parts(2,3) [OF r] by (simp add: scan_parts_def plain_digits_def)
  qed
  moreover have "literal_value ?d None None = of_nat n * pow10 k"
    using True by (simp add: literal_value_def nat_of_dec_append pow10_nonneg)
  ultimately show ?thesis by blast
next
  case False
  define f where "f = nat (- k)"
  define t where "t = replicate (Suc f - length (dec_of_nat n)) (CHR ''0'') @ dec_of_nat n"
  define a where "a = take (length t - f) t"
  define b where "b = drop (length t - f) t"
  have form: "plain_digits (dec_of_nat n) k = a @ CHR ''.'' # b"
    using False by (simp only: plain_digits_def Let_def f_def t_def a_def b_def if_False)
  have f: "0 < f" "k = - int f" using False by (simp_all add: f_def)
  have l: "length t \<ge> Suc f" by (simp add: t_def)
  have "is_digit (CHR ''0'')" by (simp add: is_digit_def)
  then have t: "list_all is_digit t" by (auto simp: t_def list_all_iff dec_of_nat_digits)
  have ab: "t = a @ b" "length b = f" "a \<noteq> []" using l by (auto simp: a_def b_def)
  have da: "list_all is_digit a" "list_all is_digit b" using t by (simp_all add: ab(1))
  have hd: "a = ''0'' \<or> a \<noteq> [] \<and> hd a \<noteq> CHR ''0''"
  proof (cases "length (dec_of_nat n) \<le> f")
    case True
    then have "length t = Suc f" "hd t = CHR ''0''" by (simp_all add: t_def Suc_diff_le)
    then have "length a = 1" by (simp add: a_def)
    with \<open>hd t = CHR ''0''\<close> ab show ?thesis by (auto simp: length_Suc_conv)
  next
    case False
    then have "t = dec_of_nat n" by (simp add: t_def)
    with dec_of_nat_hd [OF assms] ab show ?thesis by (auto simp: hd_append)
  qed
  have bne: "b \<noteq> []" using ab(2) f(1) by auto
  have "scan_parts (plain_digits (dec_of_nat n) k @ r) = Some ((a, Some b, None), r)" if r: "ends_number r" for r
  proof -
    have "scan_int (a @ CHR ''.'' # b @ r) = Some (a, CHR ''.'' # b @ r)"
      by (rule scan_int_app [OF da(1) hd]) (simp add: no_digit_next_def is_digit_def)
    moreover have "scan_frac (CHR ''.'' # b @ r) = Some (Some b, r)"
      using scan_digits_app [OF da(2) bne ends_number_parts(1) [OF r]] by simp
    ultimately show ?thesis using ends_number_parts(3) [OF r] by (simp add: scan_parts_def form)
  qed
  moreover have "literal_value a (Some b) None = of_nat n * pow10 k"
  proof -
    have "nat_of_dec (a @ b) = n" by (metis ab(1) t_def nat_of_dec_pad nat_of_dec_of_nat)
    then show ?thesis by (simp add: literal_value_def ab(2) f(2))
  qed
  ultimately show ?thesis by blast
qed

lemma scan_exp_part:
  assumes "ends_number r"
  shows "scan_exp (''e'' @ (if e < 0 then CHR ''-'' # dec_of_nat (nat (- e)) else CHR ''+'' # dec_of_nat (nat e)) @ r) = Some (Some e, r)"
  using scan_digits_app [OF dec_digits dec_of_nat_not_Nil ends_number_parts(1) [OF assms]]
  by (auto simp: scan_sign_def)

lemma scan_scientific:
  assumes "0 < n"
  shows "\<exists>i fr ex. (\<forall>r. ends_number r \<longrightarrow> scan_parts (exp_digits (dec_of_nat n) k @ r) = Some ((i, fr, ex), r)) \<and>
    literal_value i fr ex = of_nat n * pow10 k"
proof -
  obtain c cs where s: "dec_of_nat n = c # cs" by (cases "dec_of_nat n") auto
  have c: "is_digit c" "list_all is_digit cs" "c \<noteq> CHR ''0''"
    using dec_digits [of n] dec_of_nat_hd [OF assms] by (simp_all add: s)
  define e where "e = k + int (length cs)"
  define E where "E = ''e'' @ (if e < 0 then CHR ''-'' # dec_of_nat (nat (- e)) else CHR ''+'' # dec_of_nat (nat e))"
  define fr where "fr = (if cs = [] then None else Some cs)"
  have form: "exp_digits (dec_of_nat n) k = [c] @ (if cs = [] then [] else CHR ''.'' # cs) @ E"
    by (simp add: exp_digits_def s e_def E_def Let_def)
  have nd: "no_digit_next (E @ r)" "no_digit_next (CHR ''.'' # cs @ E @ r)" for r
    by (simp_all add: no_digit_next_def E_def is_digit_def)
  have "scan_parts (exp_digits (dec_of_nat n) k @ r) = Some (([c], fr, Some e), r)" if r: "ends_number r" for r
  proof -
    have e: "scan_exp (E @ r) = Some (Some e, r)" using scan_exp_part [OF r] by (simp add: E_def)
    have i: "scan_digits (c # q) = Some ([c], q)" if "no_digit_next q" for q
      using scan_digits_app [of "[c]" q] c(1) that by simp
    have "scan_frac (E @ r) = Some (None, E @ r)" by (simp add: E_def)
    moreover have "scan_frac (CHR ''.'' # cs @ E @ r) = Some (Some cs, E @ r)" if "cs \<noteq> []"
      using scan_digits_app [OF c(2) that nd(1)] by simp
    ultimately show ?thesis
      using i [OF nd(1)] i [OF nd(2)] e c(3) by (simp add: scan_parts_def form fr_def)
  qed
  moreover have "literal_value [c] fr (Some e) = of_nat n * pow10 k"
  proof -
    have "nat_of_dec (c # cs) = n" by (metis nat_of_dec_of_nat s)
    then show ?thesis by (cases "cs = []") (simp_all add: literal_value_def e_def fr_def)
  qed
  ultimately show ?thesis by blast
qed

text \<open>The token a printed float64 is read back as, and that its value is the float64.\<close>

definition reread_float :: "rat \<Rightarrow> json" where
  "reread_float x = (case scan_number (json_float x) of None \<Rightarrow> JNull | Some (j, r) \<Rightarrow> j)"

lemma round_even_minus: "round_even (- x) = - round_even x"
proof (cases "x = of_int \<lfloor>x\<rfloor>")
  case True
  then show ?thesis by (metis of_int_minus round_even_of_int)
next
  case False
  have le: "of_int \<lfloor>x\<rfloor> \<le> x" "x < of_int \<lfloor>x\<rfloor> + 1" by linarith+
  with False have "of_int \<lfloor>x\<rfloor> < x" by (metis order_less_le)
  with le have f: "\<lfloor>- x\<rfloor> = - \<lfloor>x\<rfloor> - 1" by (intro floor_unique) simp_all
  let ?d = "x - of_int \<lfloor>x\<rfloor>"
  have d: "- x - of_int \<lfloor>- x\<rfloor> = 1 - ?d" by (simp add: f)
  have l: "(1 - ?d < 1 / 2) = (1 / 2 < ?d)" "(1 / 2 < 1 - ?d) = (?d < 1 / 2)" by linarith+
  show ?thesis unfolding round_even_def Let_def d l f by auto
qed

lemma round64_minus: "round64 (- x) = map_option uminus (round64 x)"
proof -
  have "- x / u = - (x / u)" for u by simp
  then show ?thesis by (simp add: round64_def Let_def round_even_minus)
qed

lemma scan_json_float:
  assumes "float64 x"
  shows "\<exists>j. (\<forall>r. ends_number r \<longrightarrow> scan_number (json_float x @ r) = Some (j, r)) \<and>
    ((\<exists>i. j = JInt i) \<or> (\<exists>v. j = JDec v)) \<and> round64 (json_number j) = Some x"
proof (cases "x = 0")
  case True
  have "scan_number (dec_of_int 0 @ r) = Some (JInt 0, r)" if "ends_number r" for r by (rule scan_number_int [OF that])
  then show ?thesis using True
    by (intro exI [of _ "JInt 0"]) (simp add: json_float_def dec_of_int_def dec_of_nat_0 round64_def)
next
  case False
  obtain d k where sh: "shortest \<bar>x\<bar> = (d, k)" by fastforce
  have "float64 \<bar>x\<bar>" using assms round64_minus [of x] by (auto simp: float64_def abs_if)
  then have rb: "reads_back \<bar>x\<bar> k d"
    using shortest_reads_back False sh by simp
  define t where "t = (if \<bar>x\<bar> < 1 / 10 ^ 6 \<or> 10 ^ 21 \<le> \<bar>x\<bar> then exp_digits (dec_of_nat (nat d)) k else plain_digits (dec_of_nat (nat d)) k)"
  have d: "0 < nat d" "of_nat (nat d) = (of_int d :: rat)" using rb by (simp_all add: reads_back_def)
  have "t = exp_digits (dec_of_nat (nat d)) k \<or> t = plain_digits (dec_of_nat (nat d)) k" by (simp add: t_def)
  then obtain i fr ex where p: "\<forall>r. ends_number r \<longrightarrow> scan_parts (t @ r) = Some ((i, fr, ex), r)"
    and v: "literal_value i fr ex = of_int d * pow10 k"
    using scan_plain [OF d(1), of k] scan_scientific [OF d(1), of k] unfolding d(2) by blast
  have t: "json_float x = (if x < 0 then CHR ''-'' # t else t)" using False by (simp add: json_float_def sh t_def Let_def)
  have "scan_number (json_float x @ r) = Some (literal (x < 0) i fr ex, r)" if "ends_number r" for r
    using scan_number_parts [OF p [rule_format, OF that]] by (cases "x < 0") (simp_all add: t)
  moreover have "round64 (json_number (literal (x < 0) i fr ex)) = Some x"
    using rb by (auto simp: literal_number v reads_back_def round64_minus)
  ultimately show ?thesis using literal_cases by blast
qed

lemma reread_float:
  assumes "float64 x"
  shows "ends_number r \<Longrightarrow> scan_number (json_float x @ r) = Some (reread_float x, r)"
    and "put_float name old (reread_float x) = Inr x"
proof -
  from scan_json_float [OF assms] obtain j where
    j: "\<forall>r. ends_number r \<longrightarrow> scan_number (json_float x @ r) = Some (j, r)"
    and n: "(\<exists>i. j = JInt i) \<or> (\<exists>v. j = JDec v)" "round64 (json_number j) = Some x" by blast
  from j [rule_format, of "[]"] have "reread_float x = j" by (simp add: reread_float_def ends_number_def)
  with j put_float_number [OF n] show "ends_number r \<Longrightarrow> scan_number (json_float x @ r) = Some (reread_float x, r)"
    and "put_float name old (reread_float x) = Inr x" by simp_all
qed


section \<open>The results of rounding are float64 values\<close>

lemma pow2_powi: "pow2 e = 2 powi e"
  by (simp add: pow2_def power_int_def inverse_eq_divide power_one_over)

lemma pow2_pos [simp]: "0 < pow2 e"
  by (simp add: pow2_def)

lemma pow2_add: "pow2 (a + b) = pow2 a * pow2 b"
  by (simp add: pow2_powi power_int_add)

lemma pow2_strict_mono: "strict_mono pow2"
  by (rule strict_monoI) (simp add: pow2_powi power_int_strict_increasing)

lemma pow2_le_iff: "pow2 a \<le> pow2 b \<longleftrightarrow> a \<le> b"
  by (rule strict_mono_less_eq [OF pow2_strict_mono])

lemma pow2_53: "pow2 53 = of_int (2 ^ 53)"
  by (simp add: pow2_def)

lemma binade_bounds:
  assumes "0 < x" shows "pow2 (binade x) \<le> x \<and> x < pow2 (binade x + 1)"
proof -
  obtain n d where q: "quotient_of x = (n, d)" by fastforce
  then have d: "0 < d" and x: "x = of_int n / of_int d" by (simp_all add: quotient_of_denom_pos quotient_of_div)
  with assms have n: "0 < n" by (simp add: zero_less_divide_iff)
  define bn where "bn = int (bit_length (nat n))"
  define bd where "bd = int (bit_length (nat d))"
  have bits: "pow2 (int (bit_length (nat i)) - 1) \<le> of_int i" "of_int i < pow2 (int (bit_length (nat i)))" if "0 < i" for i
  proof -
    from bit_length_bounds [of "nat i"] that obtain k where k: "bit_length (nat i) = Suc k" and b: "2 ^ k \<le> nat i" "nat i < 2 ^ Suc k"
      by (cases "bit_length (nat i)") auto
    from b that have "(2 :: int) ^ k \<le> i" "i < 2 ^ Suc k" by (simp_all add: nat_less_iff le_nat_iff)
    then have "(2 :: rat) ^ k \<le> of_int i" "of_int i < (2 :: rat) ^ Suc k"
      by (metis of_int_le_iff of_int_numeral of_int_power, metis of_int_less_iff of_int_numeral of_int_power)
    then show "pow2 (int (bit_length (nat i)) - 1) \<le> of_int i" "of_int i < pow2 (int (bit_length (nat i)))"
      using pow2_int [of k] pow2_int [of "Suc k"] by (simp_all add: k)
  qed
  have "x < pow2 bn / pow2 (bd - 1)"
    unfolding x bn_def bd_def using bits(2) [OF n] bits(1) [OF d] n d by (intro frac_less) simp_all
  moreover have "pow2 (bn - 1) / pow2 bd \<le> x"
    unfolding x bn_def bd_def using bits(1) [OF n] bits(2) [OF d] n d by (intro frac_le) simp_all
  moreover have "pow2 bn / pow2 (bd - 1) = pow2 (bn - bd + 1)" "pow2 (bn - 1) / pow2 bd = pow2 (bn - bd - 1)"
    by (simp_all add: pow2_powi power_int_diff power_int_add)
  ultimately show ?thesis
    unfolding binade_def q by (simp add: bn_def bd_def Let_def)
qed

lemma round_even_le:
  fixes z :: rat and N :: int
  assumes "\<bar>z\<bar> \<le> of_int N" shows "\<bar>round_even z\<bar> \<le> N"
proof -
  have "- of_int N \<le> z" "z \<le> of_int N" using assms by linarith+
  then have "- N \<le> \<lfloor>z\<rfloor>" "\<lfloor>z\<rfloor> \<le> N" by (simp_all add: le_floor_iff floor_le_iff)
  moreover have "\<lfloor>z\<rfloor> < N" if "z \<noteq> of_int \<lfloor>z\<rfloor>"
  proof -
    have "of_int \<lfloor>z\<rfloor> < z" using of_int_floor_le [of z] that by (metis order_le_imp_less_or_eq)
    then have "of_int \<lfloor>z\<rfloor> < (of_int N :: rat)" using \<open>z \<le> of_int N\<close> by (rule less_le_trans)
    then show ?thesis by simp
  qed
  ultimately show ?thesis
    by (cases "z = of_int \<lfloor>z\<rfloor>") (auto simp: round_even_def Let_def)
qed

lemma round64_float64:
  assumes "round64 x = Some y" shows "float64 y"
proof (cases "x = 0 \<or> y = 0")
  case True
  with assms show ?thesis by (auto simp: round64_def float64_def)
next
  case False
  define e where "e = binade \<bar>x\<bar>"
  define m where "m = max (e - 52) (- 1074)"
  define k where "k = round_even (x / pow2 m)"
  define e' where "e' = binade \<bar>y\<bar>"
  define m' where "m' = max (e' - 52) (- 1074)"
  have y: "y = of_int k * pow2 m" "\<bar>y\<bar> < pow2 1024"
    using assms False by (auto simp: round64_def Let_def e_def m_def k_def split: if_splits)
  have "\<bar>x\<bar> < pow2 (e + 1)" using binade_bounds [of "\<bar>x\<bar>"] False by (simp add: e_def)
  also have "\<dots> \<le> pow2 (53 + m)" unfolding pow2_le_iff by (simp add: m_def)
  finally have "\<bar>x\<bar> \<le> of_int (2 ^ 53) * pow2 m" unfolding pow2_add pow2_53 by simp
  then have "\<bar>x / pow2 m\<bar> \<le> of_int (2 ^ 53)"
    using pow2_pos [of m] by (simp add: abs_divide pos_divide_le_eq del: of_int_power)
  then have k: "\<bar>k\<bar> \<le> 2 ^ 53" unfolding k_def by (rule round_even_le)
  have ay: "\<bar>y\<bar> = of_int \<bar>k\<bar> * pow2 m" using less_imp_le [OF pow2_pos [of m]] by (simp add: y(1) abs_mult abs_of_nonneg)
  have low: "pow2 e' \<le> \<bar>y\<bar>" using binade_bounds [of "\<bar>y\<bar>"] False by (simp add: e'_def)
  have "\<exists>j. y = of_int j * pow2 m'"
  proof (cases "m' \<le> m")
    case True
    then have "pow2 m = of_int (2 ^ nat (m - m')) * pow2 m'" using pow2_add [of "m - m'" m'] by (simp add: pow2_def)
    then have "y = of_int (k * 2 ^ nat (m - m')) * pow2 m'" by (simp add: y(1))
    then show ?thesis by blast
  next
    case False
    then have m': "m' = e' - 52" "m + 1 \<le> m'" by (auto simp: m_def m'_def)
    have up: "\<bar>y\<bar> \<le> pow2 (53 + m)"
      using k pow2_pos [of m] unfolding ay pow2_add pow2_53 by (intro mult_right_mono) (simp_all only: of_int_le_iff less_imp_le)
    from low up have "e' \<le> 53 + m" using pow2_le_iff order_trans by blast
    with m' have e': "e' = 53 + m" by linarith
    with low up have "of_int \<bar>k\<bar> * pow2 m = pow2 53 * pow2 m" unfolding ay [symmetric] pow2_add [symmetric] by simp
    then have "of_int \<bar>k\<bar> = pow2 53" using pow2_pos [of m] by (metis less_irrefl mult_right_cancel)
    then have "\<bar>k\<bar> = 2 ^ 53" unfolding pow2_53 of_int_eq_iff .
    then have "k = sgn k * 2 ^ 52 * 2" by (auto simp: sgn_if abs_if split: if_splits)
    moreover have "pow2 m' = 2 * pow2 m" using m' e' pow2_add [of 1 m] by (simp add: pow2_def)
    ultimately have "y = of_int (sgn k * 2 ^ 52) * pow2 m'" unfolding y(1) by (metis mult.assoc of_int_mult of_int_numeral)
    then show ?thesis by blast
  qed
  then obtain j where j: "y = of_int j * pow2 m'" by blast
  then have "y / pow2 m' = of_int j" using pow2_pos [of m'] by (simp add: less_le)
  then have "of_int (round_even (y / pow2 m')) * pow2 m' = y" using j by (simp only: round_even_of_int)
  then show ?thesis using False y(2) by (simp add: float64_def round64_def Let_def m'_def e'_def)
qed

end
