(* ===== verification/Json_Text.thy ===== *)
theory Json_Text
  imports Json_Number Protobuf
begin

text \<open>
  The text of JSON as Go's \<^verbatim>\<open>encoding/json\<close> reads and writes it: \<open>json_parse\<close> is the syntax analysis of \<^verbatim>\<open>json.Unmarshal\<close>
  (its scanner with the limit on nesting, and the unquoting of strings), \<open>json_indent\<close> the output of
  \<^verbatim>\<open>json.MarshalIndent(v, "", "  ")\<close>.  What is written is read back: \<open>parse_indent\<close>.
\<close>

section \<open>Strings\<close>

text \<open>
  \<^verbatim>\<open>appendString\<close> with HTML escaping: quotes, backslashes and control characters are escaped, so are the characters \<^verbatim>\<open><\<close>, \<^verbatim>\<open>>\<close>
  and \<^verbatim>\<open>&\<close> and the two line separators U+2028 and U+2029; a byte that is not part of UTF-8 becomes an escaped U+FFFD.
\<close>

definition hexit :: "nat \<Rightarrow> char" where
  "hexit n = (if n < 10 then digit n else char_of (87 + n))"

definition esc_char :: "char \<Rightarrow> string" where
  "esc_char c =
     (if c = CHR 0x22 \<or> c = CHR 0x5C then [CHR 0x5C, c]
      else if c = CHR 0x08 then [CHR 0x5C, CHR ''b'']
      else if c = CHR 0x0C then [CHR 0x5C, CHR ''f'']
      else if c = CHR 0x0A then [CHR 0x5C, CHR ''n'']
      else if c = CHR 0x0D then [CHR 0x5C, CHR ''r'']
      else if c = CHR 0x09 then [CHR 0x5C, CHR ''t'']
      else if of_char c < (0x20 :: nat) \<or> c = CHR ''<'' \<or> c = CHR ''>'' \<or> c = CHR ''&''
      then [CHR 0x5C, CHR ''u'', CHR ''0'', CHR ''0'', hexit (of_char c div 16), hexit (of_char c mod 16)]
      else [c])"

abbreviation byte_seq :: "string \<Rightarrow> nat" where
  "byte_seq s \<equiv> utf8_seq (map of_char s)"

definition esc_rune :: "string \<Rightarrow> string" where
  "esc_rune w =
     (if w = [CHR 0xE2, CHR 0x80, CHR 0xA8] then CHR 0x5C # ''u2028''
      else if w = [CHR 0xE2, CHR 0x80, CHR 0xA9] then CHR 0x5C # ''u2029''
      else w)"

function quote_body :: "string \<Rightarrow> string" where
  "quote_body s =
     (case s of
        [] \<Rightarrow> []
      | c # r \<Rightarrow>
          if of_char c < (0x80 :: nat) then esc_char c @ quote_body r
          else if byte_seq s = 0 then (CHR 0x5C # ''ufffd'') @ quote_body r
          else esc_rune (take (byte_seq s) s) @ quote_body (drop (byte_seq s) s))"
  by pat_completeness auto
termination by (relation "measure length") auto

declare quote_body.simps [simp del]

definition json_quote :: "string \<Rightarrow> string" where
  "json_quote s = CHR 0x22 # quote_body s @ [CHR 0x22]"

text \<open>
  \<^verbatim>\<open>unquote\<close>, on the text after the opening quote: the string and what follows the closing quote.  A control character or an unknown
  escape is a syntax error; half a surrogate pair and bytes that are not UTF-8 become U+FFFD.
\<close>

definition hex_val :: "char \<Rightarrow> nat option" where
  "hex_val c =
     (let n = of_char c in
      if 48 \<le> n \<and> n \<le> 57 then Some (n - 48)
      else if 97 \<le> n \<and> n \<le> 102 then Some (n - 87)
      else if 65 \<le> n \<and> n \<le> 70 then Some (n - 55)
      else None)"

fun hex4 :: "string \<Rightarrow> nat option" where
  "hex4 (a # b # c # d # r) =
     (case (hex_val a, hex_val b, hex_val c, hex_val d) of
        (Some w, Some x, Some y, Some z) \<Rightarrow> Some (((w * 16 + x) * 16 + y) * 16 + z)
      | _ \<Rightarrow> None)"
| "hex4 _ = None"

text \<open>\<^verbatim>\<open>utf8.EncodeRune\<close> of a code point.\<close>

definition rune_bytes :: "nat \<Rightarrow> string" where
  "rune_bytes u =
     map char_of
       (if u < 0x80 then [u]
        else if u < 0x800 then [0xC0 + u div 64, 0x80 + u mod 64]
        else if u < 0x10000 then [0xE0 + u div 4096, 0x80 + u div 64 mod 64, 0x80 + u mod 64]
        else [0xF0 + u div 262144, 0x80 + u div 4096 mod 64, 0x80 + u div 64 mod 64, 0x80 + u mod 64])"

definition simple_escape :: "char \<Rightarrow> char option" where
  "simple_escape e =
     (if e = CHR 0x22 \<or> e = CHR 0x5C \<or> e = CHR ''/'' then Some e
      else if e = CHR ''b'' then Some (CHR 0x08)
      else if e = CHR ''f'' then Some (CHR 0x0C)
      else if e = CHR ''n'' then Some (CHR 0x0A)
      else if e = CHR ''r'' then Some (CHR 0x0D)
      else if e = CHR ''t'' then Some (CHR 0x09)
      else None)"

text \<open>The code point of a \<^verbatim>\<open>\u\<close> escape with its first four hexadecimal digits read as \<open>u\<close>, and the text after it.\<close>

definition escaped_rune :: "nat \<Rightarrow> string \<Rightarrow> nat \<times> string" where
  "escaped_rune u r =
     (if 0xD800 \<le> u \<and> u < 0xE000
      then (case (if take 2 r = [CHR 0x5C, CHR ''u''] then hex4 (drop 2 r) else None) of
              Some v \<Rightarrow> if u < 0xDC00 \<and> 0xDC00 \<le> v \<and> v < 0xE000
                        then (0x10000 + (u - 0xD800) * 0x400 + (v - 0xDC00), drop 6 r) else (0xFFFD, r)
            | None \<Rightarrow> (0xFFFD, r))
      else (u, r))"

lemma escaped_rune_shorter: "length (snd (escaped_rune u r)) \<le> length r"
  by (simp add: escaped_rune_def split: option.split)

abbreviation after :: "string \<Rightarrow> (string \<times> string) option \<Rightarrow> (string \<times> string) option" where
  "after p \<equiv> map_option (\<lambda>(s, r). (p @ s, r))"

function unquote :: "string \<Rightarrow> (string \<times> string) option" where
  "unquote s =
     (case s of
        [] \<Rightarrow> None
      | c # r \<Rightarrow>
          if c = CHR 0x22 then Some ([], r)
          else if c = CHR 0x5C then
            (case r of
               [] \<Rightarrow> None
             | e # r1 \<Rightarrow>
                 if e = CHR ''u'' then
                   (case hex4 r1 of
                      None \<Rightarrow> None
                    | Some u \<Rightarrow>
                        after (rune_bytes (fst (escaped_rune u (drop 4 r1)))) (unquote (snd (escaped_rune u (drop 4 r1)))))
                 else
                   (case simple_escape e of
                      None \<Rightarrow> None
                    | Some x \<Rightarrow> after [x] (unquote r1)))
          else if of_char c < (0x20 :: nat) then None
          else if of_char c < (0x80 :: nat) then after [c] (unquote r)
          else if byte_seq s = 0 then after (rune_bytes 0xFFFD) (unquote r)
          else after (take (byte_seq s) s) (unquote (drop (byte_seq s) s)))"
  by pat_completeness auto
termination
proof (relation "measure length", goal_cases)
  case (2 s c r e r1 u)
  with escaped_rune_shorter [of u "drop 4 r1"] show ?case by (auto simp: less_Suc_eq_le)
qed auto

declare unquote.simps [simp del]

text \<open>What is quoted is unquoted, character by character.\<close>

lemma hex_val_hexit: "n < 16 \<Longrightarrow> hex_val (hexit n) = Some n"
  by (auto simp: hex_val_def hexit_def digit_def Let_def)

lemma hex_val_0: "hex_val (CHR ''0'') = Some 0"
  by (simp add: hex_val_def)

lemma unquote_simple:
  "simple_escape e = Some x \<Longrightarrow> e \<noteq> CHR ''u'' \<Longrightarrow> unquote (CHR 0x5C # e # t) = after [x] (unquote t)"
  by (subst unquote.simps) simp

lemma escaped_rune_BMP: "\<not> (0xD800 \<le> u \<and> u < 0xE000) \<Longrightarrow> escaped_rune u r = (u, r)"
  by (auto simp: escaped_rune_def)

lemma separator_bytes:
  "rune_bytes 0x2028 = [CHR 0xE2, CHR 0x80, CHR 0xA8]" "rune_bytes 0x2029 = [CHR 0xE2, CHR 0x80, CHR 0xA9]"
  by (simp_all add: rune_bytes_def char_of_eq_iff take_bit_eq_mod)

lemma unquote_hex:
  "hex4 (a # b # c # d # t) = Some u \<Longrightarrow> \<not> (0xD800 \<le> u \<and> u < 0xE000) \<Longrightarrow>
    unquote (CHR 0x5C # CHR ''u'' # a # b # c # d # t) = after (rune_bytes u) (unquote t)"
  by (subst unquote.simps) (simp add: escaped_rune_BMP del: hex4.simps)

lemma unquote_plain:
  "c \<noteq> CHR 0x22 \<Longrightarrow> c \<noteq> CHR 0x5C \<Longrightarrow> 0x20 \<le> (of_char c :: nat) \<Longrightarrow> of_char c < (0x80 :: nat) \<Longrightarrow>
    unquote (c # t) = after [c] (unquote t)"
  by (subst unquote.simps) simp

lemma unquote_esc_char:
  assumes "of_char c < (0x80 :: nat)"
  shows "unquote (esc_char c @ t) = after [c] (unquote t)"
proof -
  let ?n = "of_char c :: nat"
  have "hex4 (CHR ''0'' # CHR ''0'' # hexit (?n div 16) # hexit (?n mod 16) # t) = Some ?n"
    using assms by (simp add: hex_val_hexit hex_val_0 div_less_iff_less_mult)
  moreover have "rune_bytes ?n = [c]" using assms by (simp add: rune_bytes_def)
  ultimately have u: "unquote (CHR 0x5C # CHR ''u'' # CHR ''0'' # CHR ''0'' # hexit (?n div 16) # hexit (?n mod 16) # t) =
      after [c] (unquote t)"
    using unquote_hex [of "CHR ''0''" "CHR ''0''" "hexit (?n div 16)" "hexit (?n mod 16)" t ?n] assms by simp
  show ?thesis
    using u unquote_plain [of c t] assms
    by (auto simp: esc_char_def unquote_simple simple_escape_def)
qed

lemma utf8_seq_take:
  assumes "utf8_seq bs = n" and "0 < n"
  shows "utf8_seq (take n bs @ r) = n \<and> n \<le> length bs"
proof (cases bs)
  case (Cons a bs')
  have nth: "(take m xs @ r) ! i = xs ! i" if "i < m" "m \<le> length xs" for m i and xs :: "nat list"
    using that by (simp add: nth_append)
  from assms Cons show ?thesis
    by (auto simp: nth split: if_splits)
qed (use assms in simp)

lemma unquote_esc_rune:
  assumes "s = c # r" and "\<not> of_char c < (0x80 :: nat)" and "byte_seq s \<noteq> 0"
  shows "unquote (esc_rune (take (byte_seq s) s) @ t) = after (take (byte_seq s) s) (unquote t)"
proof -
  let ?w = "take (byte_seq s) s"
  have seq: "byte_seq (?w @ t) = byte_seq s" "byte_seq s \<le> length s"
    using utf8_seq_take [OF refl, of "map of_char s" "map of_char t"] assms(3) by (simp_all add: take_map)
  obtain w' where w: "?w = c # w'" using assms(1,3) by (cases "byte_seq s") auto
  have c: "c \<noteq> CHR 0x22" "c \<noteq> CHR 0x5C" using assms(2) by auto
  have raw: "unquote (?w @ t) = after ?w (unquote t)"
  proof -
    have "unquote (?w @ t) = after (take (byte_seq (?w @ t)) (?w @ t)) (unquote (drop (byte_seq (?w @ t)) (?w @ t)))"
      using seq(1) w c assms(2,3) by (subst unquote.simps) (simp split: if_splits)
    with seq show ?thesis by simp
  qed
  have sep: "unquote (CHR 0x5C # ''u2028'' @ t) = after [CHR 0xE2, CHR 0x80, CHR 0xA8] (unquote t)"
    "unquote (CHR 0x5C # ''u2029'' @ t) = after [CHR 0xE2, CHR 0x80, CHR 0xA9] (unquote t)"
    using unquote_hex [of "CHR ''2''" "CHR ''0''" "CHR ''2''" "CHR ''8''" t "0x2028"]
      unquote_hex [of "CHR ''2''" "CHR ''0''" "CHR ''2''" "CHR ''9''" t "0x2029"]
    by (simp_all add: hex_val_def separator_bytes)
  show ?thesis using raw sep by (simp add: esc_rune_def)
qed

text \<open>What a string becomes in the text: each byte that is not part of UTF-8 is replaced by U+FFFD.\<close>

function repair :: "string \<Rightarrow> string" where
  "repair s =
     (case s of
        [] \<Rightarrow> []
      | c # r \<Rightarrow>
          if byte_seq s = 0 then rune_bytes 0xFFFD @ repair r
          else take (byte_seq s) s @ repair (drop (byte_seq s) s))"
  by pat_completeness auto
termination by (relation "measure length") auto

declare repair.simps [simp del]

lemma byte_seq_ascii: "of_char c < (0x80 :: nat) \<Longrightarrow> byte_seq (c # r) = 1"
  by simp

lemma unquote_quote_body: "unquote (quote_body s @ CHR 0x22 # t) = Some (repair s, t)"
proof (induction "length s" arbitrary: s rule: less_induct)
  case less
  show ?case
  proof (cases s)
    case Nil
    then show ?thesis by (simp add: quote_body.simps [of "[]"] repair.simps [of "[]"] unquote.simps [of "CHR 0x22 # t"])
  next
    case (Cons c r)
    note ih = less.hyps [of r] less.hyps [of "drop (byte_seq s) s"]
    consider "of_char c < (0x80 :: nat)" | "\<not> of_char c < (0x80 :: nat)" "byte_seq s = 0"
      | "\<not> of_char c < (0x80 :: nat)" "byte_seq s \<noteq> 0" by blast
    then show ?thesis
    proof cases
      case 1
      with ih Cons byte_seq_ascii [OF 1, of r] show ?thesis
        by (simp add: quote_body.simps [of "c # r"] repair.simps [of "c # r"] unquote_esc_char del: utf8_seq.simps)
    next
      case 2
      have "unquote (CHR 0x5C # ''ufffd'' @ q) = after (rune_bytes 0xFFFD) (unquote q)" for q
        using unquote_hex [of "CHR ''f''" "CHR ''f''" "CHR ''f''" "CHR ''d''" q "0xFFFD"] by (simp add: hex_val_def)
      with 2 ih Cons show ?thesis
        by (simp add: quote_body.simps [of "c # r"] repair.simps [of "c # r"] del: utf8_seq.simps)
    next
      case 3
      have "quote_body s = esc_rune (take (byte_seq s) s) @ quote_body (drop (byte_seq s) s)"
        "repair s = take (byte_seq s) s @ repair (drop (byte_seq s) s)"
        using 3 by (simp_all add: quote_body.simps [of "c # r"] repair.simps [of "c # r"] Cons del: utf8_seq.simps)
      moreover have "length (drop (byte_seq s) s) < length s" using 3(2) Cons by (simp del: utf8_seq.simps)
      ultimately show ?thesis using ih(2) by (simp add: unquote_esc_rune [OF Cons 3])
    qed
  qed
qed

lemma utf8_points_split:
  assumes "utf8_points bs" and "bs \<noteq> []"
  shows "utf8_seq bs \<noteq> 0" "utf8_points (drop (utf8_seq bs) bs)"
  using assms by (simp_all add: utf8_points.simps [of bs] split: if_splits)

lemma repair_valid: "utf8_valid s \<Longrightarrow> repair s = s"
proof (induction "length s" arbitrary: s rule: less_induct)
  case less
  show ?case
  proof (cases s)
    case (Cons c r)
    have u: "byte_seq s \<noteq> 0" "utf8_valid (drop (byte_seq s) s)"
      using utf8_points_split [of "map of_char s"] less.prems Cons unfolding utf8_valid_def drop_map by blast+
    have "length (drop (byte_seq s) s) < length s" using u(1) Cons by (simp del: utf8_seq.simps)
    then have "repair (drop (byte_seq s) s) = drop (byte_seq s) s" using less.hyps u(2) by blast
    with u(1) Cons show ?thesis by (simp add: repair.simps [of "c # r"] del: utf8_seq.simps)
  qed (simp add: repair.simps)
qed

lemma repair_ascii: "list_all (\<lambda>c. of_char c < (0x80 :: nat)) s \<Longrightarrow> repair s = s"
  by (induction s) (simp_all add: repair.simps [of "_ # _"] repair.simps [of "[]"])

section \<open>Values\<close>

definition is_ws :: "char \<Rightarrow> bool" where
  "is_ws c \<longleftrightarrow> c = CHR '' '' \<or> c = CHR 0x09 \<or> c = CHR 0x0A \<or> c = CHR 0x0D"

definition skip_ws :: "string \<Rightarrow> string" where
  "skip_ws s = dropWhile is_ws s"

lemma skip_ws_shorter [simp]: "length (skip_ws s) \<le> length s"
  by (simp add: skip_ws_def length_dropWhile_le)

text \<open>
  The analysis of a value, of the members of an object and of the elements of an array.  \<open>d\<close> is how many more brackets may be
  opened.  The second number bounds the members and elements by the length of the text.
\<close>

function parse_value :: "nat \<Rightarrow> string \<Rightarrow> (json \<times> string) option"
  and parse_members :: "nat \<Rightarrow> nat \<Rightarrow> string \<Rightarrow> ((string \<times> json) list \<times> string) option"
  and parse_elements :: "nat \<Rightarrow> nat \<Rightarrow> string \<Rightarrow> (json list \<times> string) option" where
  "parse_value d s =
     (case s of
        [] \<Rightarrow> None
      | c # r \<Rightarrow>
          if c = CHR 0x22 then map_option (\<lambda>(w, t). (JStr w, t)) (unquote r)
          else if c = CHR 0x7B then
            if d = 0 then None
            else if take 1 (skip_ws r) = [CHR 0x7D] then Some (JObj [], drop 1 (skip_ws r))
            else map_option (\<lambda>(kvs, t). (JObj kvs, t)) (parse_members (d - 1) (length r) (skip_ws r))
          else if c = CHR 0x5B then
            if d = 0 then None
            else if take 1 (skip_ws r) = [CHR 0x5D] then Some (JArr [], drop 1 (skip_ws r))
            else map_option (\<lambda>(vs, t). (JArr vs, t)) (parse_elements (d - 1) (length r) (skip_ws r))
          else if take 4 s = ''true'' then Some (JBool True, drop 4 s)
          else if take 5 s = ''false'' then Some (JBool False, drop 5 s)
          else if take 4 s = ''null'' then Some (JNull, drop 4 s)
          else scan_number s)"
| "parse_members d n s =
     (if n = 0 \<or> take 1 s \<noteq> [CHR 0x22] then None
      else Option.bind (unquote (drop 1 s)) (\<lambda>(k, s1).
           if take 1 (skip_ws s1) \<noteq> [CHR 0x3A] then None
           else Option.bind (parse_value d (skip_ws (drop 1 (skip_ws s1)))) (\<lambda>(v, s2).
                if take 1 (skip_ws s2) = [CHR 0x7D] then Some ([(k, v)], drop 1 (skip_ws s2))
                else if take 1 (skip_ws s2) = [CHR 0x2C]
                then map_option (\<lambda>(kvs, t). ((k, v) # kvs, t)) (parse_members d (n - 1) (skip_ws (drop 1 (skip_ws s2))))
                else None)))"
| "parse_elements d n s =
     (if n = 0 then None
      else Option.bind (parse_value d s) (\<lambda>(v, s1).
           if take 1 (skip_ws s1) = [CHR 0x5D] then Some ([v], drop 1 (skip_ws s1))
           else if take 1 (skip_ws s1) = [CHR 0x2C]
           then map_option (\<lambda>(vs, t). (v # vs, t)) (parse_elements d (n - 1) (skip_ws (drop 1 (skip_ws s1))))
           else None))"
  by pat_completeness auto
termination
  by (relation "measures [case_sum fst (case_sum fst fst), case_sum (\<lambda>_. 0) (case_sum (fst o snd) (fst o snd))]") auto

declare parse_value.simps [simp del] parse_members.simps [simp del] parse_elements.simps [simp del]

text \<open>
  The syntax check and analysis of \<^verbatim>\<open>json.Unmarshal\<close>: one value with white space around it and at most 10000 brackets open at a time.
  \<open>wording\<close> is the message of the \<^verbatim>\<open>SyntaxError\<close>.
\<close>

definition json_parse :: "(bytes \<Rightarrow> string) \<Rightarrow> bytes \<Rightarrow> go_error + json" where
  "json_parse wording b =
     (case parse_value 10000 (skip_ws b) of
        Some (v, r) \<Rightarrow> if skip_ws r = [] then Inr v else Inl (ErrorText (wording b))
      | None \<Rightarrow> Inl (ErrorText (wording b)))"

text \<open>
  \<^verbatim>\<open>json.MarshalIndent\<close> with two spaces of indentation.  A \<open>JDec\<close> is a float64, a \<open>JInt\<close> a value of an integer type.
\<close>

definition nl :: "nat \<Rightarrow> string" where
  "nl n = CHR 0x0A # replicate (2 * n) (CHR '' '')"

fun json_indent :: "nat \<Rightarrow> json \<Rightarrow> string"
  and indent_members :: "nat \<Rightarrow> (string \<times> json) list \<Rightarrow> string"
  and indent_elements :: "nat \<Rightarrow> json list \<Rightarrow> string" where
  "json_indent n JNull = ''null''"
| "json_indent n (JBool b) = (if b then ''true'' else ''false'')"
| "json_indent n (JInt i) = dec_of_int i"
| "json_indent n (JDec x) = json_float x"
| "json_indent n (JStr s) = json_quote s"
| "json_indent n (JArr vs) = (if vs = [] then ''[]'' else ''['' @ indent_elements (Suc n) vs @ nl n @ '']'')"
| "json_indent n (JObj kvs) = (if kvs = [] then ''{}'' else ''{'' @ indent_members (Suc n) kvs @ nl n @ ''}'')"
| "indent_members n [] = []"
| "indent_members n ((k, v) # kvs) =
     nl n @ json_quote k @ '': '' @ json_indent n v @ (if kvs = [] then [] else CHR '','' # indent_members n kvs)"
| "indent_elements n [] = []"
| "indent_elements n (v # vs) = nl n @ json_indent n v @ (if vs = [] then [] else CHR '','' # indent_elements n vs)"

section \<open>What is written is read back\<close>

text \<open>
  The value a printed one is read back as: a float64 comes back as the literal it was printed as, a string with the bytes that are not
  UTF-8 replaced.
\<close>

fun reread :: "json \<Rightarrow> json" where
  "reread (JDec x) = reread_float x"
| "reread (JArr vs) = JArr (map reread vs)"
| "reread (JObj kvs) = JObj (map (\<lambda>kv. (repair (fst kv), reread (snd kv))) kvs)"
| "reread (JStr s) = JStr (repair s)"
| "reread v = v"

fun printable :: "json \<Rightarrow> bool" where
  "printable (JDec x) \<longleftrightarrow> float64 x"
| "printable (JArr vs) \<longleftrightarrow> (\<forall>v \<in> set vs. printable v)"
| "printable (JObj kvs) \<longleftrightarrow> (\<forall>kv \<in> set kvs. printable (snd kv))"
| "printable v \<longleftrightarrow> True"

fun depth :: "json \<Rightarrow> nat" where
  "depth (JArr vs) = Suc (Max (insert 0 (set (map depth vs))))"
| "depth (JObj kvs) = Suc (Max (insert 0 (set (map (\<lambda>kv. depth (snd kv)) kvs))))"
| "depth v = 0"

lemma skip_ws_nl [simp]: "skip_ws (nl n @ t) = skip_ws t"
  by (simp add: skip_ws_def nl_def is_ws_def dropWhile_append)

lemma skip_ws_Cons: "skip_ws (c # t) = (if is_ws c then skip_ws t else c # t)"
  by (simp add: skip_ws_def)

lemma not_ws [simp]:
  "\<not> is_ws (CHR 0x22)" "\<not> is_ws (CHR 0x7B)" "\<not> is_ws (CHR 0x7D)" "\<not> is_ws (CHR 0x5B)" "\<not> is_ws (CHR 0x5D)" "\<not> is_ws (CHR '','')"
  "\<not> is_ws (CHR '':'')" "\<not> is_ws (CHR ''n'')" "\<not> is_ws (CHR ''t'')" "\<not> is_ws (CHR ''f'')" "is_ws (CHR '' '')"
  by (simp_all add: is_ws_def)

text \<open>The first character of a number.\<close>

lemma scan_number_hd:
  assumes "scan_number t = Some (j, r)"
  obtains c t' where "t = c # t'" "is_digit c \<or> c = CHR ''-''"
proof (cases t)
  case Nil
  with assms show ?thesis by (simp add: scan_number_def scan_parts_def)
next
  case (Cons c t')
  have "is_digit c \<or> c = CHR ''-''"
    using assms unfolding Cons
    by (auto simp: scan_number_def scan_parts_def scan_digits_def Let_def is_digit_def split: if_splits)
  with Cons that show ?thesis by blast
qed

lemma digit_or_dash:
  assumes "is_digit c \<or> c = CHR ''-''"
  shows "\<not> is_ws c" "c \<noteq> CHR 0x22" "c \<noteq> CHR 0x7B" "c \<noteq> CHR 0x5B" "c \<noteq> CHR ''t''" "c \<noteq> CHR ''f''" "c \<noteq> CHR ''n''"
  using assms by (auto simp: is_digit_def is_ws_def)

lemma parse_value_number:
  assumes "scan_number t = Some (j, r)" shows "parse_value d t = Some (j, r)"
proof -
  from assms obtain c t' where t: "t = c # t'" and c: "is_digit c \<or> c = CHR ''-''" by (rule scan_number_hd)
  from digit_or_dash [OF c] assms show ?thesis by (subst parse_value.simps) (simp add: t)
qed

lemma ends_number_delims:
  "ends_number (nl n @ t)" "ends_number (CHR '','' # t)"
  by (simp_all add: ends_number_def nl_def is_digit_def)

lemma printed_number:
  "ends_number r \<Longrightarrow> scan_number (json_indent n (JInt i) @ r) = Some (JInt i, r)"
  "ends_number r \<Longrightarrow> float64 x \<Longrightarrow> scan_number (json_indent n (JDec x) @ r) = Some (reread_float x, r)"
  by (simp_all add: scan_number_int reread_float(1))

text \<open>A printed value starts with a character that is not white space.\<close>

lemma skip_ws_indent:
  assumes "printable v" and "ends_number r"
  shows "skip_ws (json_indent n v @ r) = json_indent n v @ r"
proof -
  have num: "skip_ws t = t" if "scan_number t = Some (j, q)" for t j q
  proof -
    from that obtain c t' where t: "t = c # t'" and c: "is_digit c \<or> c = CHR ''-''" by (rule scan_number_hd)
    from digit_or_dash(1) [OF c] show ?thesis by (simp add: t skip_ws_Cons)
  qed
  show ?thesis
    using assms num [OF printed_number(1) [OF assms(2)]] num [OF printed_number(2) [OF assms(2)]]
    by (cases v) (simp_all add: skip_ws_Cons json_quote_def)
qed

lemma unquote_json_quote: "unquote (drop 1 (json_quote k @ t)) = Some (repair k, t)"
  using unquote_quote_body [of k t] by (simp add: json_quote_def)

lemma length_indent: "length kvs \<le> length (indent_members n kvs)" "length vs \<le> length (indent_elements n vs)"
proof -
  show "length kvs \<le> length (indent_members n kvs)"
    by (induction kvs) (auto simp: nl_def)
  show "length vs \<le> length (indent_elements n vs)"
    by (induction vs) (auto simp: nl_def)
qed

text \<open>One value is read back whatever follows it, if that cannot continue a number.\<close>

definition comes_back :: "nat \<Rightarrow> nat \<Rightarrow> json \<Rightarrow> bool" where
  "comes_back d n v \<longleftrightarrow> (\<forall>r. ends_number r \<longrightarrow> parse_value d (json_indent n v @ r) = Some (reread v, r))"

lemma parse_indent_members:
  assumes "kvs \<noteq> []" and "\<forall>kv \<in> set kvs. printable (snd kv) \<and> comes_back d n (snd kv)"
    and "length kvs \<le> N"
  shows "parse_members d N (skip_ws (indent_members n kvs @ nl m @ CHR 0x7D # r)) =
    Some (map (\<lambda>kv. (repair (fst kv), reread (snd kv))) kvs, r)"
  using assms
proof (induction kvs arbitrary: N)
  case (Cons kv kvs)
  obtain k v where kv: "kv = (k, v)" by fastforce
  from Cons.prems(2) have k: "printable v" "comes_back d n v" by (simp_all add: kv)
  let ?rest = "(if kvs = [] then [] else CHR '','' # indent_members n kvs) @ nl m @ CHR 0x7D # r"
  have en: "ends_number ?rest" by (simp add: ends_number_delims)
  have v: "skip_ws (json_indent n v @ ?rest) = json_indent n v @ ?rest" "parse_value d (json_indent n v @ ?rest) = Some (reread v, ?rest)"
    using skip_ws_indent [OF k(1) en] k(2) en by (simp_all add: comes_back_def)
  let ?s = "json_quote k @ '': '' @ json_indent n v @ ?rest"
  have s: "skip_ws (indent_members n (kv # kvs) @ nl m @ CHR 0x7D # r) = ?s"
    by (simp add: kv json_quote_def skip_ws_Cons)
  have q: "take 1 ?s = [CHR 0x22]" by (simp add: json_quote_def)
  have u: "unquote (drop 1 ?s) = Some (repair k, '': '' @ json_indent n v @ ?rest)" by (rule unquote_json_quote)
  have N: "N \<noteq> 0" "length kvs \<le> N - 1" using Cons.prems(3) by auto
  show ?case
  proof (cases "kvs = []")
    case True
    with N(1) q u v show ?thesis
      unfolding s by (subst parse_members.simps) (simp add: skip_ws_Cons kv)
  next
    case False
    have ih: "parse_members d (N - 1) (skip_ws (indent_members n kvs @ nl m @ CHR 0x7D # r)) =
        Some (map (\<lambda>kv. (repair (fst kv), reread (snd kv))) kvs, r)"
      using Cons.IH [OF False _ N(2)] Cons.prems(2) by simp
    from False N(1) q u v ih show ?thesis
      unfolding s by (subst parse_members.simps) (simp add: skip_ws_Cons kv)
  qed
qed simp

lemma parse_indent_elements:
  assumes "vs \<noteq> []" and "\<forall>v \<in> set vs. printable v \<and> comes_back d n v" and "length vs \<le> N"
  shows "parse_elements d N (skip_ws (indent_elements n vs @ nl m @ CHR 0x5D # r)) = Some (map reread vs, r)"
  using assms
proof (induction vs arbitrary: N)
  case (Cons v vs)
  from Cons.prems(2) have k: "printable v" "comes_back d n v" by simp_all
  let ?rest = "(if vs = [] then [] else CHR '','' # indent_elements n vs) @ nl m @ CHR 0x5D # r"
  have en: "ends_number ?rest" by (simp add: ends_number_delims)
  have v: "skip_ws (json_indent n v @ ?rest) = json_indent n v @ ?rest" "parse_value d (json_indent n v @ ?rest) = Some (reread v, ?rest)"
    using skip_ws_indent [OF k(1) en] k(2) en by (simp_all add: comes_back_def)
  have s: "skip_ws (indent_elements n (v # vs) @ nl m @ CHR 0x5D # r) = json_indent n v @ ?rest" using v(1) by simp
  have N: "N \<noteq> 0" "length vs \<le> N - 1" using Cons.prems(3) by auto
  show ?case
  proof (cases "vs = []")
    case True
    with N(1) v show ?thesis unfolding s by (subst parse_elements.simps) (simp add: skip_ws_Cons)
  next
    case False
    have ih: "parse_elements d (N - 1) (skip_ws (indent_elements n vs @ nl m @ CHR 0x5D # r)) = Some (map reread vs, r)"
      using Cons.IH [OF False _ N(2)] Cons.prems(2) by simp
    from False N(1) v ih show ?thesis unfolding s by (subst parse_elements.simps) (simp add: skip_ws_Cons)
  qed
qed simp

lemma depth_member: "kv \<in> set kvs \<Longrightarrow> depth (JObj kvs) \<le> Suc d \<Longrightarrow> depth (snd kv) \<le> d"
  using Max_ge [of "insert 0 (set (map (\<lambda>kv. depth (snd kv)) kvs))" "depth (snd kv)"] by force

lemma depth_element: "v \<in> set vs \<Longrightarrow> depth (JArr vs) \<le> Suc d \<Longrightarrow> depth v \<le> d"
  using Max_ge [of "insert 0 (set (map depth vs))" "depth v"] by force

lemma parse_short:
  "parse_value (Suc d) (CHR 0x5B # CHR 0x5D # r) = Some (JArr [], r)"
  "parse_value (Suc d) (CHR 0x7B # CHR 0x7D # r) = Some (JObj [], r)"
  "parse_value d (''null'' @ r) = Some (JNull, r)"
  "parse_value d (''true'' @ r) = Some (JBool True, r)" "parse_value d (''false'' @ r) = Some (JBool False, r)"
  by (subst parse_value.simps, simp add: skip_ws_Cons)+

text \<open>An array that is not empty does not begin with its closing bracket.\<close>

lemma parse_value_bracket: "parse_value d (CHR 0x5D # t) = None"
  by (subst parse_value.simps) (simp add: scan_number_def scan_parts_def scan_digits_def is_digit_def)

lemma element_not_bracket:
  assumes "comes_back d n v" and "printable v" and "ends_number r"
  shows "take 1 (skip_ws (json_indent n v @ r)) \<noteq> [CHR 0x5D]"
proof
  assume "take 1 (skip_ws (json_indent n v @ r)) = [CHR 0x5D]"
  then have "take 1 (json_indent n v @ r) = [CHR 0x5D]" by (simp only: skip_ws_indent [OF assms(2,3)])
  then obtain t where "json_indent n v @ r = CHR 0x5D # t" by (cases "json_indent n v @ r") simp_all
  with assms(1,3) parse_value_bracket show False by (auto simp: comes_back_def)
qed

lemma value_comes_back: "printable v \<Longrightarrow> depth v \<le> d \<Longrightarrow> comes_back d n v"
proof (induction v arbitrary: d n rule: json.induct)
  case (JInt i)
  then show ?case using parse_value_number [OF printed_number(1)] by (simp add: comes_back_def)
next
  case (JDec x)
  then show ?case using parse_value_number [OF printed_number(2)] by (simp add: comes_back_def)
next
  case (JStr s)
  have "parse_value d (json_quote s @ r) = Some (JStr (repair s), r)" for r
    using unquote_quote_body [of s r] by (subst parse_value.simps) (simp add: json_quote_def)
  then show ?case by (simp add: comes_back_def)
next
  case (JArr vs)
  from JArr.prems(2) obtain d' where d: "d = Suc d'" by (cases d) auto
  show ?case
  proof (cases "vs = []")
    case True
    then show ?thesis using parse_short(1) by (simp add: comes_back_def d)
  next
    case False
    have all: "\<forall>v \<in> set vs. printable v \<and> comes_back d' (Suc n) v"
      using JArr.IH JArr.prems depth_element [of _ vs d'] by (auto simp: d)
    have "parse_value d (json_indent n (JArr vs) @ r) = Some (reread (JArr vs), r)" for r
    proof -
      let ?r = "indent_elements (Suc n) vs @ nl n @ CHR 0x5D # r"
      have "length vs \<le> length ?r" using length_indent(2) [of vs "Suc n"] by simp
      note p = parse_indent_elements [OF False all this, of n r]
      obtain w ws where vs: "vs = w # ws" using False by (cases vs) auto
      have "take 1 (skip_ws ?r) \<noteq> [CHR 0x5D]"
        using all element_not_bracket [of d' "Suc n" w] ends_number_delims by (simp add: vs)
      with p False show ?thesis by (subst parse_value.simps) (simp add: d)
    qed
    then show ?thesis by (simp add: comes_back_def)
  qed
next
  case (JObj kvs)
  from JObj.prems(2) obtain d' where d: "d = Suc d'" by (cases d) auto
  show ?case
  proof (cases "kvs = []")
    case True
    then show ?thesis using parse_short(2) by (simp add: comes_back_def d)
  next
    case False
    have all: "\<forall>kv \<in> set kvs. printable (snd kv) \<and> comes_back d' (Suc n) (snd kv)"
      using JObj.IH JObj.prems depth_member [of _ kvs d'] by (auto simp: d snds.simps)
    have "parse_value d (json_indent n (JObj kvs) @ r) = Some (reread (JObj kvs), r)" for r
    proof -
      let ?r = "indent_members (Suc n) kvs @ nl n @ CHR 0x7D # r"
      have "length kvs \<le> length ?r" using length_indent(1) [of kvs "Suc n"] by simp
      note p = parse_indent_members [OF False all this, of n r]
      have "take 1 (skip_ws ?r) \<noteq> [CHR 0x7D]"
        using False by (cases kvs) (auto simp: json_quote_def skip_ws_Cons)
      with p False show ?thesis by (subst parse_value.simps) (simp add: d)
    qed
    then show ?thesis by (simp add: comes_back_def)
  qed
qed (use parse_short(3-5) in \<open>simp_all add: comes_back_def\<close>)

text \<open>A document as \<^verbatim>\<open>MarshalIndent\<close> writes it.\<close>

lemma parse_indent:
  assumes "printable v" and "depth v \<le> 10000"
  shows "json_parse wording (json_indent 0 v) = Inr (reread v)"
proof -
  have "parse_value 10000 (json_indent 0 v @ []) = Some (reread v, [])"
    using value_comes_back [OF assms] unfolding comes_back_def by (simp add: ends_number_def)
  moreover have "skip_ws (json_indent 0 v @ []) = json_indent 0 v @ []"
    by (rule skip_ws_indent [OF assms(1)]) (simp add: ends_number_def)
  ultimately show ?thesis by (simp add: json_parse_def skip_ws_def)
qed

end
