(* ===== verification/Result_Files.thy ===== *)
theory Result_Files
  imports Json_Text Report_Properties Bench_Properties Flags
begin

text \<open>
  The bytes of the result files: the JSON of a \<^verbatim>\<open>Phase0File\<close> under the names of the struct tags, as \<^verbatim>\<open>json.MarshalIndent\<close> writes it in
  \<^verbatim>\<open>results.WriteJSON\<close>, and what \<^verbatim>\<open>report.Load\<close> makes of those bytes.  The property at the end joins the load generator to
  the report: the numbers of every measured run come through the file unchanged.
\<close>

section \<open>Durations as text\<close>

text \<open>
  \<^verbatim>\<open>Duration.String\<close>.  \<open>fmt_frac\<close> is the fraction of \<open>v / 10 ^ prec\<close> without trailing zeros, and without the point when nothing is left.
  The micro sign is two bytes.
\<close>

definition fmt_frac :: "nat \<Rightarrow> nat \<Rightarrow> string" where
  "fmt_frac v prec =
     (let t = rev (dropWhile (\<lambda>c. c = CHR ''0'') (rev (if prec = 0 then [] else pad prec (v mod 10 ^ prec))))
      in if t = [] then [] else CHR ''.'' # t)"

definition with_frac :: "nat \<Rightarrow> nat \<Rightarrow> string" where
  "with_frac v prec = dec_of_nat (v div 10 ^ prec) @ fmt_frac v prec"

definition Duration_String :: "int \<Rightarrow> string" where
  "Duration_String d =
     (let u = nat \<bar>d\<bar>; secs = u div 1000000000; mins = secs div 60; hours = mins div 60
      in if u = 0 then ''0s''
         else (if d < 0 then ''-'' else []) @
           (if u < 1000 then with_frac u 0 @ ''ns''
            else if u < 1000000 then with_frac u 3 @ [CHR 0xC2, CHR 0xB5, CHR ''s'']
            else if u < 1000000000 then with_frac u 6 @ ''ms''
            else (if 0 < hours then dec_of_nat hours @ ''h'' else []) @
                 (if 0 < mins then dec_of_nat (mins mod 60) @ ''m'' else []) @
                 dec_of_nat (secs mod 60) @ fmt_frac u 9 @ ''s''))"

section \<open>The JSON of a result file\<close>

definition environment_json :: "Environment \<Rightarrow> json" where
  "environment_json e =
     JObj [(''go_version'', JStr (be_GoVersion e)), (''gomaxprocs'', JInt (be_GOMAXPROCS e)), (''os'', JStr (be_OS e)),
       (''arch'', JStr (be_Arch e)), (''real_infra'', JBool (be_RealInfra e)), (''machine_tag'', JStr (be_MachineTag e)),
       (''timestamp'', JStr (be_Timestamp e))]"

definition config_json :: "Phase0Config \<Rightarrow> json" where
  "config_json c =
     JObj [(''target'', JStr (pc_Target c)), (''sink'', JStr (pc_Sink c)), (''workers'', JInt (pc_Workers c)),
       (''queue'', JInt (pc_Queue c)), (''duration'', JStr (pc_Duration c)), (''warmup'', JStr (pc_Warmup c)),
       (''concurrency'', JInt (pc_Concurrency c)), (''batch_size'', JInt (pc_BatchSize c)),
       (''devices'', JInt (pc_Devices c)), (''rate_hz'', JInt (pc_RateHz c))]"

definition latency_json :: "LatencyMs \<Rightarrow> json" where
  "latency_json l =
     JObj [(''p50'', JDec (lm_P50 l)), (''p95'', JDec (lm_P95 l)), (''p99'', JDec (lm_P99 l)), (''max'', JDec (lm_Max l))]"

text \<open>The throughput is the one field whose value may have no text, \<open>thr\<close> is its value.\<close>

definition results_json :: "num64 \<Rightarrow> Phase0Results \<Rightarrow> json" where
  "results_json thr r =
     JObj [(''events_accepted'', JInt (uint (pr_EventsAccepted r))), (''events_rejected'', JInt (uint (pr_EventsRejected r))),
       (''errors'', JInt (uint (pr_Errors r))), (''window_seconds'', JDec (pr_WindowSeconds r)),
       (''throughput_events_per_sec'', JDec thr), (''latency_ms'', latency_json (pr_LatencyMs r))]"

definition phase0_json :: "num64 \<Rightarrow> Phase0File \<Rightarrow> json" where
  "phase0_json thr f =
     JObj [(''phase'', JStr (pf_Phase f)), (''environment'', environment_json (pf_Environment f)),
       (''config'', config_json (pf_Config f)), (''results'', results_json thr (pf_Results f))]"

text \<open>
  \<^verbatim>\<open>json.MarshalIndent\<close> of the file.  A throughput over a window of no length is no JSON number: \<^verbatim>\<open>NaN\<close> when nothing was
  accepted, an infinity otherwise.
\<close>

definition marshal_phase0 :: "Phase0File \<Rightarrow> go_error + bytes" where
  "marshal_phase0 f =
     (case pr_Throughput (pf_Results f) of
        None \<Rightarrow> Inl (ErrorText (''json: unsupported value: '' @ (if pr_EventsAccepted (pf_Results f) = 0 then ''NaN'' else ''+Inf'')))
      | Some thr \<Rightarrow> Inr (json_indent 0 (phase0_json thr f)))"


section \<open>Reading it back\<close>




section \<open>The numbers of a run\<close>

lemma float64_0 [simp]: "float64 0"
  by (simp add: float64_def round64_def)




text \<open>
  One execution of the load generator: what it knows of its environment, its flags, the result of its run and the time of writing.  The
  file it leaves behind is named by \<^verbatim>\<open>WriteJSON\<close>.
\<close>

record execution =
  ex_env :: Environment
  ex_labels :: loadgen_labels
  ex_config :: loadgen_Config
  ex_result :: loadgen_Result
  ex_now :: utc

definition execution_file :: "execution \<Rightarrow> Phase0File" where
  "execution_file x = result_file Duration_String (ex_env x) (ex_labels x) (ex_config x) (ex_result x)"

definition execution_entry :: "execution \<Rightarrow> dir_entry" where
  "execution_entry x =
     \<lparr>de_Name = result_name (ll_prefix (ex_labels x)) (ex_now x), de_IsDir = False, de_content = marshal_phase0 (execution_file x)\<rparr>"

text \<open>The file is there: with a finite throughput \<^verbatim>\<open>WriteJSON\<close> hands those bytes to \<^verbatim>\<open>os.WriteFile\<close> under that name.\<close>

lemma execution_written:
  assumes "ThroughputEventsPerSec (ex_result x) \<noteq> None"
  shows "\<exists>b. marshal_phase0 (execution_file x) = Inr b \<and>
    WriteJSON None (marshal_phase0 (execution_file x)) writeFile join_path dir (ll_prefix (ex_labels x)) (ex_now x) =
      (let path = join_path dir (de_Name (execution_entry x))
       in case writeFile path b of Some err \<Rightarrow> Inl err | None \<Rightarrow> Inr path)"
  using assms by (auto simp: marshal_phase0_def execution_file_def execution_entry_def result_file_def WriteJSON_def)

text \<open>Without one there is no file: the program ends with the error of the encoder.\<close>

lemma empty_window_is_not_written:
  assumes "loadgen_Run L fb dial cfg turns = Inr res" and "lg_Duration cfg = 0"
  shows "WriteJSON None (marshal_phase0 (result_file durText env l cfg res)) writeFile join_path dir prefix now =
    Inl (ErrorText (''json: unsupported value: '' @ (if EventsAccepted res = 0 then ''NaN'' else ''+Inf'')))"
proof -
  have "seconds 0 = 0" by (simp add: seconds_def float_of_int_def div64_def round64_def)
  with assms have "ThroughputEventsPerSec res = None"
    by (auto simp: loadgen_Run_def Let_def split: option.splits)
  then show ?thesis by (simp add: WriteJSON_def marshal_phase0_def result_file_def Let_def)
qed






section \<open>The property\<close>







end
