(* ===== verification/Rpc_Wire.thy ===== *)
theory Rpc_Wire
  imports Protobuf Load_Run
begin

text \<open>
  A call of the gateway as bytes: the encoding of \<^verbatim>\<open>IngestRequest\<close> and \<^verbatim>\<open>IngestResponse\<close> over the field numbers of their struct tags, the
  length-prefixed frames of gRPC with its limits on the size of a message, and a transport made of them.  The gRPC package stays the
  parameter \<open>invoke\<close> of theory \<open>Grpc\<close>; this transport is an instance of it, written from the public specifications, that
  meets the contract \<open>grpc_transport\<close> although what it hands to the server it has to decode.
\<close>

section \<open>The struct tags\<close>

definition request_tags :: "field_tag list" where
  "request_tags = [\<lparr>ft_number = 1, ft_kind = KBytes, ft_name = ''events''\<rparr>]"

definition response_tags :: "field_tag list" where
  "response_tags =
     [\<lparr>ft_number = 1, ft_kind = KVarint, ft_name = ''accepted''\<rparr>,
      \<lparr>ft_number = 2, ft_kind = KVarint, ft_name = ''rejected''\<rparr>]"

definition tag_of :: "field_tag list \<Rightarrow> nat \<times> wire_value \<Rightarrow> string option" where
  "tag_of tags f =
     map_option ft_name (find (\<lambda>t. ft_number t = fst f \<and> wire_type (ft_kind t) = wire_type_of (snd f)) tags)"

definition number_of :: "field_tag list \<Rightarrow> string \<Rightarrow> nat" where
  "number_of tags name = (case find (\<lambda>t. ft_name t = name) tags of Some t \<Rightarrow> ft_number t | None \<Rightarrow> 0)"

section \<open>The request\<close>

text \<open>A nil element of the repeated field is encoded like an empty message.\<close>

definition message_of :: "TelemetryEvent option \<Rightarrow> TelemetryEvent" where
  "message_of ev = (case ev of Some m \<Rightarrow> m | None \<Rightarrow> empty_message)"

lemma message_of_received: "message_of ev = telemetry_of_event (event_of_telemetry ev)"
  by (cases ev) (simp_all add: message_of_def empty_message_def event_of_telemetry_def telemetry_of_event_def getter_defs)

definition message_bytes :: "TelemetryEvent \<Rightarrow> bytes" where
  "message_bytes m = concat (map put_field (fields_of m))"

definition request_fields :: "IngestRequest option \<Rightarrow> (nat \<times> wire_value) list" where
  "request_fields req = map (\<lambda>ev. (number_of request_tags ''events'', VBytes (message_bytes (message_of ev)))) (GetEvents req)"

definition request_bytes :: "IngestRequest option \<Rightarrow> bytes" where
  "request_bytes req = concat (map put_field (request_fields req))"

definition request_ok :: "IngestRequest option \<Rightarrow> bool" where
  "request_ok req \<longleftrightarrow> list_all (\<lambda>ev. strings_ok (message_of ev)) (GetEvents req)"

definition request_marshal :: "IngestRequest option \<Rightarrow> go_error + bytes" where
  "request_marshal req =
     (if request_ok req then Inr (request_bytes req) else Inl (ErrorText ''string field contains invalid UTF-8''))"

fun store_events :: "(nat \<times> wire_value) list \<Rightarrow> TelemetryEvent option list \<Rightarrow> go_error + TelemetryEvent option list" where
  "store_events [] evs = Inr evs"
| "store_events (f # fs) evs =
     (case (tag_of request_tags f, snd f) of
        (Some name, VBytes b) \<Rightarrow>
          (case wire_unmarshal b of Inl err \<Rightarrow> Inl err | Inr m \<Rightarrow> store_events fs (evs @ [Some m]))
      | _ \<Rightarrow> store_events fs evs)"

definition bad_wire :: go_error where
  "bad_wire = ErrorText ''cannot parse invalid wire-format data''"

definition request_unmarshal :: "bytes \<Rightarrow> go_error + IngestRequest" where
  "request_unmarshal bs =
     (case get_fields bs of
        None \<Rightarrow> Inl bad_wire
      | Some fs \<Rightarrow> (case store_events fs [] of Inl err \<Rightarrow> Inl err | Inr evs \<Rightarrow> Inr \<lparr>Events = evs\<rparr>))"

lemma events_number [simp]: "number_of request_tags ''events'' = 1"
  by (simp add: number_of_def request_tags_def)

lemma tag_of_events [simp]: "tag_of request_tags (Suc 0, VBytes b) = Some ''events''"
  by (simp add: tag_of_def request_tags_def)

lemma wire_unmarshal_bytes: "strings_ok m \<Longrightarrow> wire_unmarshal (message_bytes m) = Inr m"
  using wire_roundtrip by (auto simp: codec_roundtrip_def wire_marshal_def message_bytes_def)

lemma store_request_events:
  "list_all (\<lambda>ev. strings_ok (message_of ev)) evs \<Longrightarrow>
    store_events (map (\<lambda>ev. (1, VBytes (message_bytes (message_of ev)))) evs) acc = Inr (acc @ map (Some \<circ> message_of) evs)"
  by (induction evs arbitrary: acc) (simp_all add: wire_unmarshal_bytes)

lemma length_concat_ge: "x \<in> set xs \<Longrightarrow> length (f x) \<le> length (concat (map f xs))"
  by (induction xs) auto

lemma put_field_length: "length b \<le> length (put_field (n, VBytes b))"
  by (simp add: put_field_def)

lemma request_fields_fit:
  assumes "length (request_bytes req) < 2 ^ 64" shows "list_all field_fits (request_fields req)"
proof -
  have "length (message_bytes (message_of ev)) < 2 ^ 64" if "ev \<in> set (GetEvents req)" for ev
  proof -
    let ?f = "(number_of request_tags ''events'', VBytes (message_bytes (message_of ev)))"
    have "?f \<in> set (request_fields req)" using that by (auto simp: request_fields_def)
    from length_concat_ge [OF this, of put_field] put_field_length [of "message_bytes (message_of ev)" "number_of request_tags ''events''"] assms
    show ?thesis unfolding request_bytes_def by linarith
  qed
  then show ?thesis by (auto simp: request_fields_def list_all_iff field_fits_def max_field_number_def)
qed

text \<open>What is decoded is the request as \<open>received\<close> of theory \<open>Grpc\<close> describes it.\<close>

lemma request_roundtrip:
  assumes "request_ok req" and "length (request_bytes req) < 2 ^ 64"
  shows "request_unmarshal (request_bytes req) = Inr (received req)"
proof -
  have "get_fields (request_bytes req) = Some (request_fields req)"
    unfolding request_bytes_def by (rule get_fields_put [OF request_fields_fit [OF assms(2)]])
  moreover have "store_events (request_fields req) [] = Inr (map (Some \<circ> message_of) (GetEvents req))"
    using store_request_events [of "GetEvents req" "[]"] assms(1) by (simp add: request_ok_def request_fields_def)
  ultimately show ?thesis by (simp add: request_unmarshal_def received_def message_of_received comp_def)
qed

section \<open>The response\<close>

definition response_fields :: "IngestResponse \<Rightarrow> (nat \<times> wire_value) list" where
  "response_fields r =
     filter (\<lambda>f. snd f \<noteq> VVarint 0)
       [(number_of response_tags ''accepted'', VVarint (unat (Accepted r))), (number_of response_tags ''rejected'', VVarint (unat (Rejected r)))]"

definition response_bytes :: "IngestResponse \<Rightarrow> bytes" where
  "response_bytes r = concat (map put_field (response_fields r))"

definition store_count :: "nat \<times> wire_value \<Rightarrow> IngestResponse \<Rightarrow> IngestResponse" where
  "store_count f r =
     (case (tag_of response_tags f, snd f) of
        (Some name, VVarint n) \<Rightarrow> if name = ''accepted'' then r\<lparr>Accepted := of_nat n\<rparr> else r\<lparr>Rejected := of_nat n\<rparr>
      | _ \<Rightarrow> r)"

definition response_unmarshal :: "bytes \<Rightarrow> go_error + IngestResponse" where
  "response_unmarshal bs =
     (case get_fields bs of
        None \<Rightarrow> Inl bad_wire
      | Some fs \<Rightarrow> Inr (fold store_count fs \<lparr>Accepted = 0, Rejected = 0\<rparr>))"

lemma response_numbers [simp]: "number_of response_tags ''accepted'' = 1" "number_of response_tags ''rejected'' = 2"
  by (simp_all add: number_of_def response_tags_def)

lemma store_count_simps [simp]:
  "store_count (Suc 0, VVarint n) r = r\<lparr>Accepted := of_nat n\<rparr>" "store_count (2, VVarint n) r = r\<lparr>Rejected := of_nat n\<rparr>"
  by (simp_all add: store_count_def tag_of_def response_tags_def)

lemma response_roundtrip: "response_unmarshal (response_bytes r) = Inr r"
proof -
  have "list_all field_fits (response_fields r)"
    by (simp add: response_fields_def field_fits_def max_field_number_def unat_u64)
  then have "get_fields (response_bytes r) = Some (response_fields r)" unfolding response_bytes_def by (rule get_fields_put)
  moreover have "fold store_count (response_fields r) \<lparr>Accepted = 0, Rejected = 0\<rparr> = r"
    by (cases r) (auto simp: response_fields_def unsigned_eq_0_iff)
  ultimately show ?thesis by (simp add: response_unmarshal_def)
qed

section \<open>Frames\<close>

text \<open>
  A message on the stream: a byte that says whether it is compressed, four bytes with its length, most significant first, and the message.
  Neither end has a compressor.
\<close>

definition frame :: "bytes \<Rightarrow> bytes" where
  "frame b = CHR 0x00 # rev (le_bytes 4 (length b)) @ b"

definition unframe :: "bytes \<Rightarrow> bytes option" where
  "unframe s =
     (if length s < 5 \<or> hd s \<noteq> CHR 0x00 then None
      else let n = le_nat (rev (take 4 (drop 1 s))) in if length s = 5 + n then Some (drop 5 s) else None)"

lemma unframe_frame: "length b < 2 ^ 32 \<Longrightarrow> unframe (frame b) = Some b"
  using le_nat_le_bytes [of "length b" 4] by (simp add: unframe_def frame_def)

section \<open>A transport of bytes\<close>

text \<open>
  The limits: a client refuses to send more than \<^verbatim>\<open>math.MaxInt32\<close> bytes, a server more than \<open>limit\<close>, which is 4 MiB unless it is
  configured.  A failing connection is one of the call options.
\<close>

definition max_send :: nat where
  "max_send = 2 ^ 31 - 1"

definition exhausted :: "string \<Rightarrow> go_error" where
  "exhausted what = ErrorText (''rpc error: code = ResourceExhausted desc = grpc: '' @ what)"

definition cannot_marshal :: "go_error \<Rightarrow> go_error" where
  "cannot_marshal err = Wrapped ''rpc error: code = Internal desc = grpc: error while marshaling: '' err"

text \<open>The server's side of a call: from a frame to a frame, or an error status.\<close>

definition serve_bytes ::
  "nat \<Rightarrow> 'w ServiceDesc list \<Rightarrow> string \<Rightarrow> bytes \<Rightarrow> 'w \<Rightarrow> ('w \<times> (go_error + bytes)) run" where
  "serve_bytes limit reg full s w =
     (case method_handler reg full of
        None \<Rightarrow> Returns (w, Inl (unimplemented ''unknown method''))
      | Some h \<Rightarrow>
          (case unframe s of
             None \<Rightarrow> Returns (w, Inl (ErrorText ''rpc error: code = Internal''))
           | Some b \<Rightarrow>
               (if limit < length b then Returns (w, Inl (exhausted ''received message larger than max''))
                else case h (request_unmarshal b) None w of
                    Returns (w', Inr out) \<Rightarrow> Returns (w', Inr (frame (response_bytes out)))
                  | Returns (w', Inl err) \<Rightarrow> Returns (w', Inl err)
                  | Blocks \<Rightarrow> Blocks
                  | Panics m \<Rightarrow> Panics m)))"

definition receive_answer :: "bytes \<Rightarrow> go_error + IngestResponse" where
  "receive_answer s = (case unframe s of None \<Rightarrow> Inl (ErrorText ''rpc error: code = Internal'') | Some b \<Rightarrow> response_unmarshal b)"

definition wire_invoke :: "nat \<Rightarrow> 'w invoke" where
  "wire_invoke limit reg full req opts w =
     (case request_marshal req of
        Inl err \<Rightarrow> Returns (w, Inl (cannot_marshal err))
      | Inr b \<Rightarrow>
          if max_send < length b then Returns (w, Inl (exhausted ''trying to send message larger than max''))
          else if CallOption ''unavailable'' \<in> set opts then Returns (w, Inl (ErrorText ''rpc error: code = Unavailable''))
          else case serve_bytes limit reg full (frame b) w of
              Returns (w', Inr s) \<Rightarrow> Returns (w', receive_answer s)
            | Returns (w', Inl err) \<Rightarrow> Returns (w', Inl err)
            | Blocks \<Rightarrow> Blocks
            | Panics m \<Rightarrow> Panics m)"

lemma put_varint_length: "n < varint_bound k \<Longrightarrow> length (varint n) \<le> k"
proof (induction k arbitrary: n)
  case (Suc k)
  show ?case
  proof (cases "n < 128")
    case False
    with Suc.prems have k: "k \<noteq> 0" by (auto split: if_splits)
    with Suc.prems have "n div 128 < varint_bound k" by (simp add: less_mult_imp_div_less mult.commute)
    from Suc.IH [OF this] False show ?thesis by (simp add: varint.simps [of n])
  qed (simp add: varint.simps [of n])
qed simp

lemma varint_length_64: "n < 2 ^ 64 \<Longrightarrow> length (varint n) \<le> 10"
  using put_varint_length [of n 10] varint_bound_10 by simp

lemma answer_received: "receive_answer (frame (response_bytes r)) = Inr r"
proof -
  have v: "length (varint (unat (v :: u64))) \<le> 10" for v using varint_length_64 unat_u64 [of v] by simp
  from v [of "Accepted r"] v [of "Rejected r"] have "length (response_bytes r) \<le> 22"
    by (auto simp: response_bytes_def response_fields_def put_field_def varint.simps [of "numeral _"])
  then have "length (response_bytes r) < 2 ^ 32" by simp
  from unframe_frame [OF this] show ?thesis by (simp add: receive_answer_def response_roundtrip)
qed

text \<open>The call, decided by the request alone and then by the handler.\<close>

lemma wire_invoke_eq:
  "wire_invoke limit reg full req opts w =
     (if \<not> request_ok req then Returns (w, Inl (cannot_marshal (ErrorText ''string field contains invalid UTF-8'')))
      else if max_send < length (request_bytes req) then Returns (w, Inl (exhausted ''trying to send message larger than max''))
      else if CallOption ''unavailable'' \<in> set opts then Returns (w, Inl (ErrorText ''rpc error: code = Unavailable''))
      else case method_handler reg full of
        None \<Rightarrow> Returns (w, Inl (unimplemented ''unknown method''))
      | Some h \<Rightarrow>
          if limit < length (request_bytes req) then Returns (w, Inl (exhausted ''received message larger than max''))
          else h (Inr (received req)) None w)"
proof -
  have "unframe (frame (request_bytes req)) = Some (request_bytes req)"
    "request_unmarshal (request_bytes req) = Inr (received req)"
    if "request_ok req" "\<not> max_send < length (request_bytes req)"
    using that by (simp_all add: unframe_frame request_roundtrip max_send_def)
  then show ?thesis
    by (auto simp: wire_invoke_def request_marshal_def serve_bytes_def answer_received split: option.split run.split sum.split prod.split)
qed

interpretation gw: grpc_transport "wire_invoke limit" for limit
  by unfold_locales (auto simp: wire_invoke_eq split: if_splits option.splits)

section \<open>The requests of the load generator\<close>









section \<open>The properties\<close>








end
