(* ===== verification/Descriptor.thy ===== *)
theory Descriptor
  imports Rpc_Wire
begin

text \<open>
  The generated code describes the messages and the service several times over: in the struct tags, in the constants of the service, in
  the tables that number the Go types, and in the serialized descriptor it hands to the protobuf runtime, which the
  runtime goes by.  Here that descriptor is decoded, by the layout that \<^verbatim>\<open>descriptor.proto\<close> publishes, and compared with the rest.
\<close>

section \<open>The serialized descriptor\<close>

definition rawDesc :: bytes where
  "rawDesc =
     [CHR 0x0A, CHR 0x1F] @ ''proto/sluice/v1/telemetry.proto'' @ [CHR 0x12, CHR 0x09] @ ''sluice.v1'' @
     [CHR 0x22, CHR 0xB7, CHR 0x01, CHR 0x0A, CHR 0x0E] @ ''TelemetryEvent'' @ [CHR 0x12, CHR 0x1B, CHR 0x0A, CHR 0x09] @
     ''device_id'' @ [CHR 0x18, CHR 0x01, CHR 0x20, CHR 0x01, CHR 0x28, CHR 0x09, CHR 0x52, CHR 0x08] @ ''deviceId'' @
     [CHR 0x12, CHR 0x27, CHR 0x0A, CHR 0x0F] @ ''idempotency_key'' @
     [CHR 0x18, CHR 0x02, CHR 0x20, CHR 0x01, CHR 0x28, CHR 0x09, CHR 0x52, CHR 0x0E] @ ''idempotencyKey'' @
     [CHR 0x12, CHR 0x31, CHR 0x0A, CHR 0x15] @ ''event_time_unix_nanos'' @
     [CHR 0x18, CHR 0x03, CHR 0x20, CHR 0x01, CHR 0x28, CHR 0x03, CHR 0x52, CHR 0x12] @ ''eventTimeUnixNanos'' @
     [CHR 0x12, CHR 0x16, CHR 0x0A, CHR 0x06] @ ''metric'' @
     [CHR 0x18, CHR 0x04, CHR 0x20, CHR 0x01, CHR 0x28, CHR 0x09, CHR 0x52, CHR 0x06] @ ''metric'' @
     [CHR 0x12, CHR 0x14, CHR 0x0A, CHR 0x05] @ ''value'' @
     [CHR 0x18, CHR 0x05, CHR 0x20, CHR 0x01, CHR 0x28, CHR 0x01, CHR 0x52, CHR 0x05] @ ''value'' @
     [CHR 0x22, CHR 0x42, CHR 0x0A, CHR 0x0D] @ ''IngestRequest'' @ [CHR 0x12, CHR 0x31, CHR 0x0A, CHR 0x06] @ ''events'' @
     [CHR 0x18, CHR 0x01, CHR 0x20, CHR 0x03, CHR 0x28, CHR 0x0B, CHR 0x32, CHR 0x19] @ ''.sluice.v1.TelemetryEventR'' @
     [CHR 0x06] @ ''events'' @ [CHR 0x22, CHR 0x48, CHR 0x0A, CHR 0x0E] @ ''IngestResponse'' @
     [CHR 0x12, CHR 0x1A, CHR 0x0A, CHR 0x08] @ ''accepted'' @
     [CHR 0x18, CHR 0x01, CHR 0x20, CHR 0x01, CHR 0x28, CHR 0x04, CHR 0x52, CHR 0x08] @ ''accepted'' @
     [CHR 0x12, CHR 0x1A, CHR 0x0A, CHR 0x08] @ ''rejected'' @
     [CHR 0x18, CHR 0x02, CHR 0x20, CHR 0x01, CHR 0x28, CHR 0x04, CHR 0x52, CHR 0x08] @ ''rejected2E'' @ [CHR 0x0A, CHR 0x06] @
     ''Ingest'' @ [CHR 0x12, CHR 0x3B, CHR 0x0A, CHR 0x04] @ ''Push'' @ [CHR 0x12, CHR 0x18] @ ''.sluice.v1.IngestRequest'' @
     [CHR 0x1A, CHR 0x19] @
     ''.sluice.v1.IngestResponseBdZbgithub.com/rohan-chandrashekar/Sluice-Gate-Telemetery-Ingestion-Pipeline-GO/gen/sluice/v1;sluicev1b'' @
     [CHR 0x06] @ ''proto3''"

section \<open>The layout of a descriptor\<close>

record FieldDesc =
  fd_name :: string
  fd_number :: nat
  fd_label :: nat
  fd_type :: nat
  fd_type_name :: string
  fd_json_name :: string

record MessageDesc =
  md_name :: string
  md_fields :: "FieldDesc list"

record MethodDesc =
  mt_name :: string
  mt_input :: string
  mt_output :: string

record ServiceDescr =
  sv_name :: string
  sv_methods :: "MethodDesc list"

record FileDesc =
  fl_name :: string
  fl_package :: string
  fl_messages :: "MessageDesc list"
  fl_services :: "ServiceDescr list"
  fl_options :: bytes
  fl_syntax :: string

text \<open>The values of a field of a message: the last one of a singular field, all of a repeated one.\<close>

definition all_bytes :: "nat \<Rightarrow> (nat \<times> wire_value) list \<Rightarrow> bytes list" where
  "all_bytes n fs = List.map_filter (\<lambda>f. case snd f of VBytes b \<Rightarrow> if fst f = n then Some b else None | _ \<Rightarrow> None) fs"









section \<open>Writing one\<close>








lemma all_bytes_simps [simp]:
  "all_bytes n [] = []" "all_bytes n ((m, VBytes b) # fs) = (if m = n then b # all_bytes n fs else all_bytes n fs)"
  "all_bytes n ((m, VVarint v) # fs) = all_bytes n fs" "all_bytes n (fs @ gs) = all_bytes n fs @ all_bytes n gs"
  by (simp_all add: all_bytes_def List.map_filter_def)

lemma all_bytes_map [simp]: "all_bytes n (map (\<lambda>x. (m, VBytes (f x))) xs) = (if m = n then map f xs else [])"
  by (induction xs) auto









section \<open>What the descriptor says\<close>

definition string_field :: "string \<Rightarrow> nat \<Rightarrow> string \<Rightarrow> FieldDesc" where
  "string_field name n json = \<lparr>fd_name = name, fd_number = n, fd_label = 1, fd_type = 9, fd_type_name = [], fd_json_name = json\<rparr>"

definition telemetry_file :: FileDesc where
  "telemetry_file =
     \<lparr>fl_name = ''proto/sluice/v1/telemetry.proto'', fl_package = ''sluice.v1'',
      fl_messages =
       [\<lparr>md_name = ''TelemetryEvent'', md_fields =
          [string_field ''device_id'' 1 ''deviceId'', string_field ''idempotency_key'' 2 ''idempotencyKey'',
           (string_field ''event_time_unix_nanos'' 3 ''eventTimeUnixNanos'')\<lparr>fd_type := 3\<rparr>,
           string_field ''metric'' 4 ''metric'', (string_field ''value'' 5 ''value'')\<lparr>fd_type := 1\<rparr>]\<rparr>,
        \<lparr>md_name = ''IngestRequest'', md_fields =
          [(string_field ''events'' 1 ''events'')\<lparr>fd_label := 3, fd_type := 11, fd_type_name := ''.sluice.v1.TelemetryEvent''\<rparr>]\<rparr>,
        \<lparr>md_name = ''IngestResponse'', md_fields =
          [(string_field ''accepted'' 1 ''accepted'')\<lparr>fd_type := 4\<rparr>, (string_field ''rejected'' 2 ''rejected'')\<lparr>fd_type := 4\<rparr>]\<rparr>],
      fl_services =
       [\<lparr>sv_name = ''Ingest'', sv_methods =
          [\<lparr>mt_name = ''Push'', mt_input = ''.sluice.v1.IngestRequest'', mt_output = ''.sluice.v1.IngestResponse''\<rparr>]\<rparr>],
      fl_options = ''Zbgithub.com/rohan-chandrashekar/Sluice-Gate-Telemetery-Ingestion-Pipeline-GO/gen/sluice/v1;sluicev1'',
      fl_syntax = ''proto3''\<rparr>"






section \<open>The tables beside it\<close>







section \<open>The methods of a generated message\<close>

text \<open>
  A message with the state the runtime keeps in it, which is the entry of \<^verbatim>\<open>msgTypes\<close> it was last used with.  \<open>mi\<close> is the index a type
  has there; of the runtime only the storing and loading of that entry is used.
\<close>

record 'm stated =
  st_message :: 'm
  st_info :: "nat option"

definition message_Reset :: "nat \<Rightarrow> 'm \<Rightarrow> 'm stated \<Rightarrow> 'm stated" where
  "message_Reset mi zero x = \<lparr>st_message = zero, st_info = Some mi\<rparr>"

text \<open>The reflected message: of a nil pointer it is the type alone.\<close>

definition message_ProtoReflect :: "nat \<Rightarrow> 'm stated option \<Rightarrow> 'm stated option \<times> nat \<times> 'm option" where
  "message_ProtoReflect mi x =
     (case x of
        Some m \<Rightarrow>
          (let m' = (if st_info m = None then m\<lparr>st_info := Some mi\<rparr> else m)
           in (Some m', the (st_info m'), Some (st_message m')))
      | None \<Rightarrow> (None, mi, None))"

definition message_Descriptor :: "nat \<Rightarrow> bytes \<Rightarrow> bytes \<times> nat list" where
  "message_Descriptor mi gz = (gz, [mi])"

text \<open>\<^verbatim>\<open>rawDescOnce\<close>: the compressed descriptor is made by the first call and kept.\<close>

definition rawDescGZIP :: "(bytes \<Rightarrow> bytes) \<Rightarrow> bytes option \<Rightarrow> bytes option \<times> bytes" where
  "rawDescGZIP gzip once = (case once of Some d \<Rightarrow> (Some d, d) | None \<Rightarrow> (Some (gzip rawDesc), gzip rawDesc))"

text \<open>
  The initialisation of the file: the runtime's builder gets the descriptor, the numbers of enums, messages, extensions and
  services, and the two tables, which are dropped afterwards.
\<close>

record 'f file_vars =
  fv_File :: "'f option"
  fv_goTypes :: "string list"
  fv_depIdxs :: "nat list"

definition file_init :: "(bytes \<Rightarrow> nat list \<Rightarrow> string list \<Rightarrow> nat list \<Rightarrow> 'f) \<Rightarrow> 'f file_vars \<Rightarrow> 'f file_vars" where
  "file_init build v =
     (if fv_File v \<noteq> None then v
      else \<lparr>fv_File = Some (build rawDesc [0, 3, 0, 1] (fv_goTypes v) (fv_depIdxs v)), fv_goTypes = [], fv_depIdxs = []\<rparr>)"

lemma reflect_keeps_message:
  assumes "message_ProtoReflect mi x = (x', mi', m)"
  shows "map_option st_message x' = map_option st_message x" "m = map_option st_message x"
    "message_ProtoReflect mi' x' = (x', mi', m)"
  using assms by (auto simp: message_ProtoReflect_def Let_def split: option.splits if_splits)

lemma reset_then_reflect:
  "message_ProtoReflect mi (Some (message_Reset mi zero x)) = (Some (message_Reset mi zero x), mi, Some zero)"
  by (simp add: message_ProtoReflect_def message_Reset_def)

text \<open>However often and from whichever state the descriptor is asked for, it is the same bytes, once they come from \<^verbatim>\<open>rawDesc\<close>.\<close>

lemma rawDescGZIP_stable:
  assumes "once = None \<or> once = Some (gzip rawDesc)"
  shows "rawDescGZIP gzip once = (Some (gzip rawDesc), gzip rawDesc)"
  using assms by (auto simp: rawDescGZIP_def)

text \<open>Initialising twice is initialising once, and the counts the builder is given are those of the descriptor.\<close>

lemma file_init_idempotent: "file_init build (file_init build v) = file_init build v"
  by (simp add: file_init_def)

lemma builder_counts:
  "[0, length (fl_messages telemetry_file), 0, length (fl_services telemetry_file)] = [0, 3, 0, 1 :: nat]"
  by (simp add: telemetry_file_def)

end
