(* ===== verification/Spec2Isabelle.thy ===== *)
theory Spec2Isabelle
  imports Delivery Sink_Properties Gateway_Properties Race_Properties Report_Properties Bench_Properties
    Commands Metrics Reporting Load_Run Test_Runs Mains Recovery_Properties Result_Files Descriptor
begin

text \<open>
  Sluice is a telemetry ingestion pipeline in Go.  Devices push batches of events over gRPC to the
  gateway; the gateway queues them in a bounded worker pool whose workers write them to Kafka; the
  consumer polls Kafka, drops duplicates with the help of Redis, writes the rest in batches to
  TimescaleDB, and sends what cannot be decoded or stored to a dead-letter topic before it commits
  its offsets.  A load generator, a few test programs and a report generator surround the pipeline.

  \<^bold>\<open>Theories, in the order of dependence.\<close>

  \<^item> Prelude: machine integers, errors as values, decimal printing, the retry loop the code
    contains three times, shared list and word lemmas.
  \<^item> Transitions: goroutines as labelled transition systems.  The locales \<open>invariant_lts\<close>, \<open>conserving_lts\<close>
    and \<open>draining_lts\<close> lift what a component shows of single steps to all schedules.
  \<^item> Wire: \<^verbatim>\<open>gen/sluice/v1\<close> messages with their nil-safe getters, \<^verbatim>\<open>sink.Event\<close>, Kafka records, and the
    protobuf codec as a parameter with its round trip as a named hypothesis.
  \<^item> Protobuf: an instance of that parameter, the encoding of the public specification with the field numbers of the
    struct tags; it meets the hypothesis and rejects the bytes \<^verbatim>\<open>injectmalformed\<close> sends.
  \<^item> Sink: \<^verbatim>\<open>internal/sink\<close> interfaces as a table of operations, their contracts as the locales \<open>sink\<close>
    and \<open>poison_sink\<close>; \<^verbatim>\<open>memory.go\<close>; \<^verbatim>\<open>kafka.go\<close> over a client with the contract \<open>kafka_log\<close>.
  \<^item> Timescale: \<^verbatim>\<open>timescale.go\<close> as a sequential sink over a database with the contract \<open>timescale_db\<close>;
    Schema interprets that contract on the table of \<^verbatim>\<open>deploy/sql/schema.sql\<close>, with failing statements.
  \<^item> Flush_Race: the same sink with its \<^verbatim>\<open>tickerLoop\<close> running beside the caller, at the granularity
    of the mutex and of single statements.
  \<^item> Dlq, Dedup: \<^verbatim>\<open>internal/dlq\<close> and \<^verbatim>\<open>internal/dedup\<close>, the latter over a Redis with the contract \<open>redis\<close>
    and itself a \<open>deduper\<close>.
  \<^item> Consumer: \<^verbatim>\<open>internal/consumer\<close>, from \<^verbatim>\<open>handleBatch\<close> and \<^verbatim>\<open>persist\<close> to a round of \<^verbatim>\<open>Run\<close> and the loop itself.
  \<^item> Reporting: \<^verbatim>\<open>Run\<close> in atomic steps beside its goroutine \<^verbatim>\<open>reportLoop\<close>.
  \<^item> Process, Recovery: the consumer process whole, namely \<^verbatim>\<open>Run\<close> with its sink calls in steps, the ticker beside it, and deaths of the
    process at any step; what is in its memory and what is durable.  The consumer group of Kafka is the locale \<open>group_client\<close>, extended to
    \<open>log_client\<close> where a process is to read a log to its end; Recovery_Properties interprets both on a partition with a committed offset.
  \<^item> Pool, Gateway: \<^verbatim>\<open>internal/pool\<close> as a transition system of a Go channel, its workers and its wait
    group; \<^verbatim>\<open>internal/gateway\<close> \<^verbatim>\<open>Push\<close> in both modes between the steps of the other goroutines.
  \<^item> Grpc: the generated stubs of \<^verbatim>\<open>telemetry_grpc.pb.go\<close>, client and server, over a transport with the contract
    \<open>grpc_transport\<close>, and the gateway registered on it.  Rpc_Wire: an instance of that transport made of encoded and framed messages with the
    size limits of gRPC; Descriptor: the serialized descriptor of the messages, the tables beside it and the methods of a generated message.
  \<^item> Metrics: \<^verbatim>\<open>internal/metrics\<close>, the collectors, their registration on a \<open>registry\<close>, and the server of \<^verbatim>\<open>/metrics\<close>.
  \<^item> Json, Report, Report_Output: the part of the standard library the report uses (JSON decoding by
    field names, IEEE rounding, fixed-point printing, substring search), then \<^verbatim>\<open>internal/report\<close>.
  \<^item> Json_Number, Json_Text, Result_Files: the text of JSON as \<^verbatim>\<open>encoding/json\<close> writes and reads it, and the result files as bytes.
  \<^item> Bench: \<^verbatim>\<open>internal/loadgen\<close>, \<^verbatim>\<open>hdr\<close>, \<^verbatim>\<open>results\<close>, \<^verbatim>\<open>benchmeta\<close> and the loops of the test programs; Loadgen_Race: the
    load generator with its goroutines side by side; Loss_Test: \<^verbatim>\<open>cmd/losstest\<close> likewise.
  \<^item> Commands: the \<^verbatim>\<open>main\<close> functions as the lists of actions they perform, given their flags; Flags: \<^verbatim>\<open>flag.Parse\<close> with the
    integers, booleans and durations it reads; Mains: the eight programs from their command lines on.
  \<^item> Pipeline, Load_Run, Test_Runs: the components together, namely gateway, Kafka and consumer; load generator, stub and gateway;
    the test programs and the consumer.

  \<^bold>\<open>State.\<close>  A struct is a record, its methods are functions from the old to the new record (a pool,
  a consumer, a sink and so on).  What is not in the repository is an argument of the definitions that use it:
  the Kafka client, pgx, Redis, the protobuf runtime, HdrHistogram, the plotting package, the file
  system, the clock.  What is relied on of them is an assumption of one of the locales above or a named
  hypothesis, and each has an instance that executes and can fail, on which the witnesses are evaluated.

  \<^bold>\<open>What is shown.\<close>
  \<^item> Pipeline: an event the gateway accepted is, once its pool has been closed and the consumer has polled the topic, in the table or the
    dead-letter topic under its key, unless its write was reported as failed or its key was known before; over a run of any
    length every polled record is accounted for.
  \<^item> Delivery: a round that commits has accounted for every record it was given; counters add up and
    agree with the metrics; a replayed batch writes nothing; a flush error withholds the commit.  Also
    the two ways in which at-least-once fails: a crash between duplicate check and flush, and an outage
    without a dead-letter topic.
  \<^item> Recovery_Properties: with no duplicate check and a dead-letter topic, a committed record is in the table or the dead-letter topic across any
    number of crashes, in the table once, and a new process catches up with the log; with the gateway in front, no accepted event is
    lost to crashes of the consumer.  The schedules are those in which \<^verbatim>\<open>Run\<close> drains the poison list while the ticker is not in a flush; a
    schedule outside them loses a committed record (\<open>crash_in_ticker_flush_loses_committed_record\<close>).
  \<^item> Sink_Properties: a flush loses nothing, isolates poison rows and is bounded work; keys in the table stay
    unique; the Kafka sink and the consumer's decoder are inverse; the pipelined duplicate check is the single one.
  \<^item> Gateway_Properties: the pool conserves events under every schedule, stays within its bound, keeps
    the order with one worker, releases waiting senders, and drains and terminates on close; every
    event of a request is answered once, shedding never waits, waiting never rejects without
    reason, and accepted events reach the sink.
  \<^item> Race_Properties: no interleaving of ticker and caller loses an event, a flush in steps refines the
    sequential one, \<^verbatim>\<open>Close\<close> is orderly; and a commit can overtake the ticker's flush.  A flush
    interval that is not positive makes the ticker's goroutine panic, as \<^verbatim>\<open>time.NewTicker\<close> does.
  \<^item> Reporting: the report loop disturbs nothing but the lag gauge, and its lines add up.
  \<^item> Loadgen_Race, Load_Run: every interleaving of the load generator reports what its goroutines would report one after the other; an answer of the
    stub is one of \<^verbatim>\<open>Push\<close>; what a load run reports accounts for every event it sent.
  \<^item> Rpc_Wire, Descriptor: a call of the stub through encoded bytes is a call of \<^verbatim>\<open>Push\<close> or an error without effect; the load generator's requests stay within
    the limits; the descriptor, the struct tags and the stubs agree.
  \<^item> Test_Runs: under every schedule the loss test produces its count exactly and, if failures are finite, ends; nothing it produced is
    lost in the consumer; injected records are dead-lettered.
  \<^item> Report_Properties, Bench_Properties, Commands: the report contains every sweep, its headline is the
    maximum, updating the README is repeatable, file names are recognised, generated keys are
    unique, and the consumer releases its parts in reverse order.
  \<^item> Result_Files: the numbers of every measured run come through its result file unchanged into the report.
  \<^item> Mains: flags keep their types and ranges, printed flags are read back, an undefined flag ends a program.

  \<^bold>\<open>Bounds.\<close>  \<open>Run\<close> and the loops of the test programs that may go on for ever carry a bound on their
  turns; not having returned is a value of their result, and more fuel never changes a result.  Counters are 64-bit words;
  statements that read them as numbers assume fewer than two to the 64th events.  The JSON parser opens at most 10000 brackets, the limit of
  \<^verbatim>\<open>encoding/json\<close>; the search for the shortest decimal of a float64 stops at 1074 decimals, where every one is exact.

  \<^bold>\<open>Not modelled.\<close>  Log output (the lines of the report loop apart), the lengths of observed durations (that they are observed is), usage messages,
  the \<^verbatim>\<open>String\<close> methods of the generated messages, the wording of JSON syntax errors, and the
  order in which \<^verbatim>\<open>sort.Slice\<close> leaves equal elements.  A \<^verbatim>\<open>Write\<close> of a sink takes effect at one moment.
  Contexts appear where the code looks at them: in \<^verbatim>\<open>Submit\<close> and in \<^verbatim>\<open>Run\<close>.
\<close>

end
